(* ===== verification/Prelude.thy ===== *)
theory Prelude
  imports Main "HOL-Library.Word" "HOL-Library.Char_ord" "HOL-Library.List_Lexorder" "HOL-Library.Multiset"
begin

text \<open>
  Shared vocabulary of the development: machine integers and byte strings, Go errors as values,
  the pieces of the Go standard library the sources call (\<open>sort.Search\<close>, \<open>sort.Strings\<close>,
  \<open>hex.DecodeString\<close>, \<open>strconv\<close> decimal printing, the little- and big-endian codecs of
  \<open>encoding/binary\<close>) and the lemmas on lists, words and results that the component theories use.

  A Go string is a list of bytes, an Isabelle \<open>string\<close> is a list of 8-bit characters, and the order of
  HOL-Library's \<open>List_Lexorder\<close> over \<open>Char_ord\<close> is the bytewise order of Go's \<open>\<close><\<open>\<close> on strings.
\<close>

unbundle bit_operations_syntax

subsection \<open>Types\<close>

type_synonym u8 = "8 word"
type_synonym u16 = "16 word"
type_synonym u32 = "32 word"
type_synonym u64 = "64 word"
type_synonym bytes = "8 word list"

text \<open>
  The sentinel errors of \<open>internal/core/types.go\<close> and of \<open>internal/cluster\<close>, plain
  \<open>fmt.Errorf\<close> errors by their text, operating-system errors, and the run-time panics of Go.
\<close>

datatype go_error =
    ErrNotFound
  | ErrAlreadyExists
  | ErrDimensionMismatch
  | ErrInvalidArgument string
  | ErrShardNotOwned
  | ErrReplicationGap
  | ErrReplicationConflict
  | ErrReplicationCompacted
  | ErrIdempotencyConflict
  | ErrNotRaftLeader
  | ErrMsg string
  | ErrIO
  | GoPanic

type_synonym 'a result = "go_error + 'a"

named_theorems word_conv "moving 64-bit index arithmetic to natural numbers"

subsection \<open>Results\<close>

definition and_then :: "'a result \<Rightarrow> ('a \<Rightarrow> 'b result) \<Rightarrow> 'b result" where
  "and_then r f = (case r of Inl e \<Rightarrow> Inl e | Inr x \<Rightarrow> f x)"

definition is_ok :: "'a result \<Rightarrow> bool" where
  "is_ok r = (case r of Inl _ \<Rightarrow> False | Inr _ \<Rightarrow> True)"

lemma and_then_simps [simp]:
  "and_then (Inl e) f = Inl e"
  "and_then (Inr x) f = f x"
  by (simp_all add: and_then_def)

lemma and_then_Inr_iff: "and_then r f = Inr y \<longleftrightarrow> (\<exists>x. r = Inr x \<and> f x = Inr y)"
  by (cases r) auto

lemma is_ok_simps [simp]: "is_ok (Inr x)" "\<not> is_ok (Inl e)"
  by (simp_all add: is_ok_def)

lemma is_okE: "is_ok r \<Longrightarrow> (\<And>x. r = Inr x \<Longrightarrow> P) \<Longrightarrow> P"
  by (cases r) auto

subsection \<open>\<open>sort.Search\<close>: binary search\<close>

text \<open>\<open>sort.Search\<close> keeps \<open>f(i-1) == false\<close> and \<open>f(j) == true\<close> while \<open>i < j\<close>.\<close>

function go_search_loop :: "(nat \<Rightarrow> bool) \<Rightarrow> nat \<Rightarrow> nat \<Rightarrow> nat" where
  "go_search_loop f i j =
     (if i < j then
        let h = (i + j) div 2 in
        if \<not> f h then go_search_loop f (Suc h) j else go_search_loop f i h
      else i)"
  by pat_completeness auto
termination
  by (relation "measure (\<lambda>(f, i, j). j - i)") (auto simp: Let_def)

declare go_search_loop.simps [simp del]

definition go_search :: "nat \<Rightarrow> (nat \<Rightarrow> bool) \<Rightarrow> nat" where
  "go_search n f = go_search_loop f 0 n"

lemma go_search_loop_spec:
  assumes "i \<le> j"
    and mono: "\<And>a b. a \<le> b \<Longrightarrow> b < j \<Longrightarrow> f a \<Longrightarrow> f b"
  shows "i \<le> go_search_loop f i j \<and> go_search_loop f i j \<le> j
    \<and> (\<forall>k. i \<le> k \<and> k < go_search_loop f i j \<longrightarrow> \<not> f k)
    \<and> (\<forall>k. go_search_loop f i j \<le> k \<and> k < j \<longrightarrow> f k)"
  using assms
proof (induction f i j rule: go_search_loop.induct)
  case (1 f i j)
  show ?case
  proof (cases "i < j")
    case False
    then have "go_search_loop f i j = i" by (simp add: go_search_loop.simps)
    then show ?thesis using False "1.prems" by auto
  next
    case True
    define h where "h = (i + j) div 2"
    have h: "i \<le> h" "h < j" using True by (auto simp: h_def)
    show ?thesis
    proof (cases "f h")
      case False
      let ?r = "go_search_loop f (Suc h) j"
      have eq: "go_search_loop f i j = ?r"
        using True False by (simp add: go_search_loop.simps [of f i j] h_def Let_def)
      have IH: "Suc h \<le> ?r \<and> ?r \<le> j \<and> (\<forall>k. Suc h \<le> k \<and> k < ?r \<longrightarrow> \<not> f k)
          \<and> (\<forall>k. ?r \<le> k \<and> k < j \<longrightarrow> f k)"
        using "1.IH"(1) [OF True h_def False] h "1.prems"(2) by simp
      have "\<not> f k" if "k \<le> h" for k
        using that False "1.prems"(2) [of k h] h by blast
      then show ?thesis
        using IH h unfolding eq by (metis Suc_leD not_less_eq_eq order_trans)
    next
      case fh: True
      let ?r = "go_search_loop f i h"
      have eq: "go_search_loop f i j = ?r"
        using True fh by (simp add: go_search_loop.simps [of f i j] h_def Let_def)
      have IH: "i \<le> ?r \<and> ?r \<le> h \<and> (\<forall>k. i \<le> k \<and> k < ?r \<longrightarrow> \<not> f k)
          \<and> (\<forall>k. ?r \<le> k \<and> k < h \<longrightarrow> f k)"
        using "1.IH"(2) [OF True h_def] fh h "1.prems"(2) by auto
      have "f k" if "h \<le> k" "k < j" for k
        using that fh "1.prems"(2) [of h k] by blast
      then show ?thesis
        using IH h unfolding eq by (meson le_trans less_imp_le_nat not_le)
    qed
  qed
qed

lemma go_search_spec:
  assumes "\<And>a b. a \<le> b \<Longrightarrow> b < n \<Longrightarrow> f a \<Longrightarrow> f b"
  shows "go_search n f \<le> n"
    and "k < go_search n f \<Longrightarrow> \<not> f k"
    and "go_search n f \<le> k \<Longrightarrow> k < n \<Longrightarrow> f k"
  using go_search_loop_spec [of 0 n f, OF _ assms] by (auto simp: go_search_def)

text \<open>\<open>sort.SearchStrings\<close> is \<open>sort.Search\<close> for the first element not below the wanted one.\<close>

definition search_strings :: "string list \<Rightarrow> string \<Rightarrow> nat" where
  "search_strings xs x = go_search (length xs) (\<lambda>i. x \<le> xs ! i)"

lemma search_strings_sorted:
  assumes "sorted xs"
  shows "(search_strings xs x < length xs \<and> xs ! search_strings xs x = x) \<longleftrightarrow> x \<in> set xs"
proof -
  let ?f = "\<lambda>i. x \<le> xs ! i" and ?r = "search_strings xs x"
  have mono: "\<And>a b. a \<le> b \<Longrightarrow> b < length xs \<Longrightarrow> ?f a \<Longrightarrow> ?f b"
    using assms by (meson order_trans sorted_nth_mono)
  note spec = go_search_spec [of "length xs" ?f, OF mono, folded search_strings_def]
  show ?thesis
  proof
    assume "x \<in> set xs"
    then obtain i where i: "i < length xs" "xs ! i = x" by (auto simp: in_set_conv_nth)
    then have le: "?r \<le> i" using spec(2) [where k = i] by force
    then have lt: "?r < length xs" using i by simp
    then have "x \<le> xs ! ?r" using spec(3) [where k = ?r] by simp
    moreover have "xs ! ?r \<le> xs ! i" using assms le i sorted_nth_mono by blast
    ultimately show "?r < length xs \<and> xs ! ?r = x" using lt i by simp
  next
    assume "?r < length xs \<and> xs ! ?r = x"
    then show "x \<in> set xs" by (metis nth_mem)
  qed
qed

subsection \<open>Words and fallible folds\<close>

lemma if_Inl_iff: "(if P then Inl e else r) = Inr x \<longleftrightarrow> \<not> P \<and> r = Inr x"
  by simp

lemma unat_Suc_less: "(c::'a::len word) < t \<Longrightarrow> unat (c + 1) = unat c + 1"
  by (metis (no_types, lifting) add.commute add_0 inc_i inc_le unat_plus_simple unsigned_0 unsigned_1
      word_gt_0)

lemma unat_of_nat_small [simp]: "n < 2 ^ 64 \<Longrightarrow> unat (of_nat n :: u64) = n"
  by (simp add: unat_of_nat take_bit_nat_eq_self)

text \<open>A loop whose body may fail, as a fold.\<close>

fun foldR :: "('x \<Rightarrow> 'a \<Rightarrow> 'a result) \<Rightarrow> 'x list \<Rightarrow> 'a \<Rightarrow> 'a result" where
  "foldR f [] a = Inr a"
| "foldR f (x # xs) a = and_then (f x a) (foldR f xs)"

lemma foldR_append [simp]: "foldR f (xs @ ys) a = and_then (foldR f xs a) (foldR f ys)"
  by (induction xs arbitrary: a) (auto simp: and_then_def split: sum.splits)

lemma foldR_inv:
  assumes "foldR f xs a = Inr b" and "P a"
    and "\<And>x a b. x \<in> set xs \<Longrightarrow> P a \<Longrightarrow> f x a = Inr b \<Longrightarrow> P b"
  shows "P b"
  using assms by (induction xs arbitrary: a) (auto simp: and_then_Inr_iff)

end
