(* ===== verification/Go_Lib.thy ===== *)
theory Go_Lib
  imports Prelude
begin

text \<open>
  The encoders of the Go standard library that the sources rely on: \<open>encoding/binary\<close> in both byte
  orders, \<open>hash/crc32\<close> with the Castagnoli polynomial, \<open>hash/fnv\<close> (64-bit FNV-1a),
  \<open>encoding/hex\<close> and decimal printing (\<open>%d\<close>, \<open>strconv\<close>). Each encoder comes with its round trip.
\<close>

subsection \<open>\<open>encoding/binary\<close>\<close>

text \<open>\<open>PutUint16/32/64\<close> and \<open>Uint16/32/64\<close>, little endian, for any number of bytes.\<close>

fun put_le :: "nat \<Rightarrow> 'a::len word \<Rightarrow> bytes" where
  "put_le 0 w = []"
| "put_le (Suc n) w = ucast w # put_le n (drop_bit 8 w)"

fun get_le :: "bytes \<Rightarrow> 'a::len word" where
  "get_le [] = 0"
| "get_le (b # bs) = ucast b OR push_bit 8 (get_le bs)"

text \<open>The big-endian codecs write the same bytes in the opposite order.\<close>

definition put_be :: "nat \<Rightarrow> 'a::len word \<Rightarrow> bytes" where
  "put_be n w = rev (put_le n w)"

lemma length_put_le [simp]: "length (put_le n w) = n"
  by (induction n arbitrary: w) auto

lemma length_put_be [simp]: "length (put_be n w) = n"
  by (simp add: put_be_def)

lemma bit_get_put_le:
  "bit (get_le (put_le n w) :: 'a::len word) k \<longleftrightarrow> k < 8 * n \<and> bit (w :: 'a word) k"
proof (induction n arbitrary: w k)
  case 0
  then show ?case by simp
next
  case (Suc n)
  show ?case
  proof (cases "k < 8")
    case True
    then show ?thesis
      by (auto simp: bit_or_iff bit_ucast_iff bit_push_bit_iff dest: bit_imp_le_length)
  next
    case False
    then obtain j where j: "k = 8 + j" by (metis le_Suc_ex not_less)
    show ?thesis
      using bit_imp_le_length [of w "8 + j"]
      by (auto simp: j bit_or_iff bit_ucast_iff bit_push_bit_iff Suc.IH bit_drop_bit_eq)
  qed
qed

lemma get_put_le [simp]:
  "LENGTH('a) \<le> 8 * n \<Longrightarrow> get_le (put_le n w) = (w :: 'a::len word)"
  by (rule bit_word_eqI) (simp add: bit_get_put_le)

lemma bit_get_le_bound:
  "bit (get_le bs :: 'a::len word) k \<Longrightarrow> k < 8 * length bs"
proof (induction bs arbitrary: k)
  case (Cons b bs)
  then show ?case
    by (cases "k < 8") (fastforce simp: bit_or_iff bit_ucast_iff bit_push_bit_iff dest: bit_imp_le_length)+
qed simp

lemma put_get_le:
  assumes "8 * length bs \<le> LENGTH('a)"
  shows "put_le (length bs) (get_le bs :: 'a::len word) = bs"
  using assms
proof (induction bs)
  case (Cons b bs)
  let ?g = "get_le bs :: 'a word"
  have b: "ucast (ucast b OR push_bit 8 ?g) = b"
    using Cons.prems
    by (intro bit_word_eqI) (auto simp: bit_or_iff bit_ucast_iff bit_push_bit_iff)
  have d: "drop_bit 8 (ucast b OR push_bit 8 ?g) = ?g"
  proof (rule bit_word_eqI)
    fix k assume k: "k < LENGTH('a)"
    show "bit (drop_bit 8 (ucast b OR push_bit 8 ?g)) k = bit ?g k"
      using bit_get_le_bound [of bs k, where 'a = 'a] Cons.prems k
      by (auto simp: bit_or_iff bit_ucast_iff bit_push_bit_iff bit_drop_bit_eq dest: bit_imp_le_length)
  qed
  from Cons show ?case by (simp add: b d del: drop_bit_or)
qed simp

lemma put_be_inject:
  assumes "LENGTH('a) \<le> 8 * n"
  shows "put_be n v = put_be n w \<longleftrightarrow> (v :: 'a::len word) = w"
  using get_put_le [OF assms] unfolding put_be_def by (metis rev_rev_ident)

subsection \<open>CRC-32C\<close>

text \<open>
  \<open>crc32.MakeTable(crc32.Castagnoli)\<close> and \<open>crc32.Update\<close>: the reflected polynomial, one table
  entry per byte, and the byte-at-a-time loop between two complements.
\<close>

definition crc_poly :: u32 where
  "crc_poly = 0x82f63b78"

definition crc_shift :: "u32 \<Rightarrow> u32" where
  "crc_shift c = (if bit c 0 then drop_bit 1 c XOR crc_poly else drop_bit 1 c)"

definition crc_table :: "u8 \<Rightarrow> u32" where
  "crc_table i = (crc_shift ^^ 8) (ucast i)"

definition crc_step :: "u8 \<Rightarrow> u32 \<Rightarrow> u32" where
  "crc_step v c = crc_table (ucast c XOR v) XOR drop_bit 8 c"

definition crc32_update :: "u32 \<Rightarrow> bytes \<Rightarrow> u32" where
  "crc32_update c p = NOT (fold crc_step p (NOT c))"

lemma crc32_update_append: "crc32_update c (p @ q) = crc32_update (crc32_update c p) q"
  by (simp add: crc32_update_def)

lemma crc32_check_value: "crc32_update 0 [0x31] = 0x90f599e3"
  by code_simp

subsection \<open>FNV-1a\<close>

definition fnv_offset :: u64 where
  "fnv_offset = 14695981039346656037"

definition fnv_prime :: u64 where
  "fnv_prime = 1099511628211"

definition fnv_write :: "bytes \<Rightarrow> u64 \<Rightarrow> u64" where
  "fnv_write p h = fold (\<lambda>b h. (h XOR ucast b) * fnv_prime) p h"

lemma fnv_write_append: "fnv_write (p @ q) h = fnv_write q (fnv_write p h)"
  by (simp add: fnv_write_def)

subsection \<open>Byte strings\<close>

definition byte_of_char :: "char \<Rightarrow> u8" where
  "byte_of_char c = of_nat (of_char c)"

definition bytes_of_string :: "string \<Rightarrow> bytes" where
  "bytes_of_string s = map byte_of_char s"

lemma unat_byte_of_char [simp]: "unat (byte_of_char c) = of_char c"
  by (simp add: byte_of_char_def unat_of_nat take_bit_nat_eq_self_iff)

lemma byte_of_char_inject [simp]: "byte_of_char c = byte_of_char d \<longleftrightarrow> c = d"
  by (metis of_char_eq_iff unat_byte_of_char)

lemma bytes_of_string_inject [simp]: "bytes_of_string s = bytes_of_string t \<longleftrightarrow> s = t"
  by (simp add: bytes_of_string_def inj_map_eq_map inj_on_def)

lemma length_bytes_of_string [simp]: "length (bytes_of_string s) = length s"
  by (simp add: bytes_of_string_def)

subsection \<open>\<open>encoding/hex\<close>\<close>

definition from_hex_char :: "char \<Rightarrow> nat option" where
  "from_hex_char c =
     (let n = of_char c in
      if 48 \<le> n \<and> n \<le> 57 then Some (n - 48)
      else if 97 \<le> n \<and> n \<le> 102 then Some (n - 87)
      else if 65 \<le> n \<and> n \<le> 70 then Some (n - 55)
      else None)"

text \<open>\<open>hex.DecodeString\<close>: a digit that is not hexadecimal or an odd length is an error.\<close>

fun hex_decode :: "string \<Rightarrow> nat list option" where
  "hex_decode [] = Some []"
| "hex_decode [c] = None"
| "hex_decode (c # d # s) =
     (case (from_hex_char c, from_hex_char d) of
        (Some h, Some l) \<Rightarrow> map_option ((#) (16 * h + l)) (hex_decode s)
      | _ \<Rightarrow> None)"

text \<open>\<open>strings.ToLower\<close> on ASCII letters.\<close>

definition to_lower_char :: "char \<Rightarrow> char" where
  "to_lower_char c = (let n = of_char c in if 65 \<le> n \<and> n \<le> 90 then char_of (n + 32 :: nat) else c)"

definition to_lower :: "string \<Rightarrow> string" where
  "to_lower s = map to_lower_char s"

lemma hex_decode_length: "hex_decode s = Some bs \<Longrightarrow> length s = 2 * length bs"
  by (induction s arbitrary: bs rule: hex_decode.induct) (auto split: option.splits)

lemma hex_decode_chars:
  "hex_decode s = Some bs \<Longrightarrow> c \<in> set s \<Longrightarrow> from_hex_char c \<noteq> None"
  by (induction s arbitrary: bs rule: hex_decode.induct) (auto split: option.splits)

subsection \<open>Decimal numbers\<close>

definition digit_char :: "nat \<Rightarrow> char" where
  "digit_char d = char_of (48 + d)"

fun show_nat :: "nat \<Rightarrow> string" where
  "show_nat n = (if n < 10 then [digit_char n] else show_nat (n div 10) @ [digit_char (n mod 10)])"

declare show_nat.simps [simp del]

definition is_digit :: "char \<Rightarrow> bool" where
  "is_digit c = (48 \<le> (of_char c :: nat) \<and> of_char c \<le> (57 :: nat))"

definition digit_value :: "char \<Rightarrow> nat" where
  "digit_value c = of_char c - 48"

definition read_nat :: "string \<Rightarrow> nat" where
  "read_nat s = foldl (\<lambda>n c. 10 * n + digit_value c) 0 s"

lemma digit_char_props:
  assumes "d < 10"
  shows "is_digit (digit_char d)" and "digit_value (digit_char d) = d"
  using assms by (auto simp: digit_char_def is_digit_def digit_value_def)

lemma show_nat_nonempty [simp]: "show_nat n \<noteq> []"
  by (subst show_nat.simps) simp

lemma show_nat_digits: "c \<in> set (show_nat n) \<Longrightarrow> is_digit c"
proof (induction n rule: show_nat.induct)
  case (1 n)
  then show ?case
    by (cases "n < 10") (auto simp: show_nat.simps [of n] digit_char_props)
qed

lemma read_show_nat [simp]: "read_nat (show_nat n) = n"
proof (induction n rule: show_nat.induct)
  case (1 n)
  then show ?case
    by (cases "n < 10") (auto simp: show_nat.simps [of n] read_nat_def digit_char_props)
qed

lemma show_nat_inject [simp]: "show_nat m = show_nat n \<longleftrightarrow> m = n"
  by (metis read_show_nat)

end
