(* ===== verification/Cluster_Base.thy ===== *)
theory Cluster_Base
  imports Go_Lib
begin

text \<open>
  The small vocabulary of \<open>internal/cluster\<close>: node identifiers (\<open>identity.go\<close>), digests and views
  (\<open>raft.go\<close>, \<open>view.go\<close>), the canonical capacity manifest (\<open>view.go\<close>), protocol negotiation
  (\<open>protocol.go\<close>) and request fencing (\<open>fence.go\<close>).
\<close>

subsection \<open>Identifiers and digests\<close>

text \<open>\<open>ValidNodeID\<close>: sixteen hexadecimal bytes, lower case, not all zero.\<close>

definition ValidNodeID :: "string \<Rightarrow> bool" where
  "ValidNodeID v =
     (case hex_decode v of
        None \<Rightarrow> False
      | Some decoded \<Rightarrow>
          if length decoded \<noteq> 16 \<or> v \<noteq> to_lower v then False
          else list_ex (\<lambda>b. b \<noteq> 0) decoded)"

lemma ValidNodeID_length: "ValidNodeID v \<Longrightarrow> length v = 32"
  by (auto simp: ValidNodeID_def hex_decode_length split: option.splits if_splits)

lemma ValidNodeID_nonempty [simp]: "\<not> ValidNodeID []"
  by (simp add: ValidNodeID_def)



definition hex_digit :: "char \<Rightarrow> bool" where
  "hex_digit c =
     (let n = of_char c :: nat in
      \<not> ((n < 48 \<or> n > 57) \<and> (n < 97 \<or> n > 102)))"

definition validDigest :: "string \<Rightarrow> bool" where
  "validDigest v = (if length v \<noteq> 64 then False else list_all hex_digit v)"

subsection \<open>The capacity manifest\<close>

record NodeCapacity =
  nc_node :: string
  nc_capacity :: u32

definition MaxPlacementCapacity :: u32 where
  "MaxPlacementCapacity = 256"

definition validatePlacementCapacity :: "u32 \<Rightarrow> unit result" where
  "validatePlacementCapacity c =
     (if c < 1 \<or> c > MaxPlacementCapacity then Inl (ErrMsg ''placement capacity must be between 1 and 256'')
      else Inr ())"

text \<open>
  \<open>json.Marshal\<close> and \<open>json.Unmarshal\<close> on \<open>[]NodeCapacity\<close>. A slice is \<open>None\<close> when it is nil. The
  decoder reads the compact form the encoder writes; every other JSON spelling of the same value
  is one that \<open>ParseCapacityManifest\<close> rejects afterwards because re-encoding it gives other bytes.
\<close>

definition marshal_capacity :: "NodeCapacity \<Rightarrow> string" where
  \<open>marshal_capacity c =
     ''{"node_id":"'' @ nc_node c @ ''","capacity":'' @ show_nat (unat (nc_capacity c)) @ ''}''\<close>

fun marshal_items :: "NodeCapacity list \<Rightarrow> string" where
  "marshal_items [] = []"
| "marshal_items [c] = marshal_capacity c"
| "marshal_items (c # cs) = marshal_capacity c @ '','' @ marshal_items cs"

definition marshal_capacities :: "NodeCapacity list option \<Rightarrow> string" where
  "marshal_capacities cs = (case cs of None \<Rightarrow> ''null'' | Some l \<Rightarrow> ''['' @ marshal_items l @ '']'')"

fun strip_prefix :: "string \<Rightarrow> string \<Rightarrow> string option" where
  "strip_prefix [] s = Some s"
| "strip_prefix (p # ps) [] = None"
| "strip_prefix (p # ps) (c # s) = (if p = c then strip_prefix ps s else None)"

definition unmarshal_capacity :: "string \<Rightarrow> (NodeCapacity \<times> string) option" where
  \<open>unmarshal_capacity s =
     Option.bind (strip_prefix ''{"node_id":"'' s) (\<lambda>s1.
     let node = takeWhile (\<lambda>c. c \<noteq> CHR 0x22) s1; s2 = dropWhile (\<lambda>c. c \<noteq> CHR 0x22) s1 in
     Option.bind (strip_prefix ''","capacity":'' s2) (\<lambda>s3.
     let num = takeWhile is_digit s3; s4 = dropWhile is_digit s3 in
     if num = [] \<or> read_nat num \<ge> 2 ^ 32 then None
     else Option.bind (strip_prefix ''}'' s4) (\<lambda>s5.
       Some (\<lparr>nc_node = node, nc_capacity = of_nat (read_nat num)\<rparr>, s5))))\<close>

fun unmarshal_items :: "nat \<Rightarrow> string \<Rightarrow> NodeCapacity list option" where
  "unmarshal_items 0 s = None"
| "unmarshal_items (Suc n) s =
     (case unmarshal_capacity s of
        None \<Rightarrow> None
      | Some (c, s') \<Rightarrow>
          if s' = '']'' then Some [c]
          else Option.bind (strip_prefix '','' s') (\<lambda>s''. map_option ((#) c) (unmarshal_items n s'')))"

definition unmarshal_capacities :: "string \<Rightarrow> NodeCapacity list option option" where
  "unmarshal_capacities s =
     (if s = ''null'' then Some None
      else if s = ''[]'' then Some (Some [])
      else Option.bind (strip_prefix ''['' s) (\<lambda>s'. map_option Some (unmarshal_items (length s) s')))"

fun capacities_ok :: "string option \<Rightarrow> NodeCapacity list \<Rightarrow> bool" where
  "capacities_ok prev [] = True"
| "capacities_ok prev (c # cs) =
     (\<not> (\<not> ValidNodeID (nc_node c) \<or> \<not> is_ok (validatePlacementCapacity (nc_capacity c))
         \<or> (case prev of None \<Rightarrow> False | Some p \<Rightarrow> p \<ge> nc_node c))
      \<and> capacities_ok (Some (nc_node c)) cs)"

definition ParseCapacityManifest :: "string \<Rightarrow> NodeCapacity list option result" where
  "ParseCapacityManifest m =
     (if m = [] then Inr None
      else case unmarshal_capacities m of
        None \<Rightarrow> Inl (ErrMsg ''decode capacity manifest'')
      | Some caps \<Rightarrow>
          if \<not> capacities_ok None (case caps of None \<Rightarrow> [] | Some l \<Rightarrow> l)
          then Inl (ErrMsg ''invalid capacity manifest'')
          else if marshal_capacities caps \<noteq> m
          then Inl (ErrMsg ''capacity manifest is not canonical'')
          else Inr caps)"

subsection \<open>Views\<close>

record ViewDigests =
  Membership :: string
  Catalog :: string
  Placement :: string
  CapacityManifest :: string

definition validView :: "ViewDigests \<Rightarrow> bool" where
  "validView v =
     (if \<not> validDigest (Membership v) \<or> \<not> validDigest (Catalog v) \<or> \<not> validDigest (Placement v)
      then False else is_ok (ParseCapacityManifest (CapacityManifest v)))"

subsection \<open>Round trip of the capacity manifest\<close>

lemma strip_prefix_append [simp]: "strip_prefix p (p @ s) = Some s"
  by (induction p) auto

lemma strip_prefix_Some: "strip_prefix p s = Some r \<Longrightarrow> s = p @ r"
  by (induction p s rule: strip_prefix.induct) (auto split: if_splits)




lemma marshal_capacity_not_bracket: "marshal_capacity c \<noteq> CHR '']'' # s"
  by (simp add: marshal_capacity_def)









subsection \<open>Protocol negotiation\<close>

definition NegotiateProtocol :: "u32 \<Rightarrow> u32 \<Rightarrow> u32 \<Rightarrow> u32 \<Rightarrow> u32 result" where
  "NegotiateProtocol localMin localMax remoteMin remoteMax =
     (if localMin = 0 \<or> remoteMin = 0 \<or> localMin > localMax \<or> remoteMin > remoteMax
      then Inl (ErrMsg ''invalid cluster protocol range'')
      else
        let minimum = max localMin remoteMin; maximum = min localMax remoteMax in
        if minimum > maximum then Inl (ErrMsg ''cluster protocol ranges do not overlap'')
        else Inr maximum)"

text \<open>The negotiated version is the newest one that both ends support.\<close>

lemma NegotiateProtocol_newest:
  "NegotiateProtocol a b c d = Inr v \<longleftrightarrow>
     a \<noteq> 0 \<and> c \<noteq> 0 \<and> v \<in> {a..b} \<inter> {c..d} \<and> (\<forall>w \<in> {a..b} \<inter> {c..d}. w \<le> v)"
proof (cases "a \<le> b \<and> c \<le> d \<and> max a c \<le> min b d")
  case True
  then have range: "{a..b} \<inter> {c..d} = {max a c..min b d}" "min b d \<in> {max a c..min b d}"
    by auto
  have nlt: "\<not> min b d < max a c" using True by (blast dest: leD)
  show ?thesis using True range
    by (auto simp: NegotiateProtocol_def Let_def nlt not_less [of b a] not_less [of d c] intro: antisym)
next
  case False
  then have "{a..b} \<inter> {c..d} = {}" by auto
  with False show ?thesis
    by (auto simp: NegotiateProtocol_def Let_def not_less not_le)
qed

subsection \<open>Fencing\<close>

datatype FenceErrorKind = FenceClusterMismatch | FenceWrongNode | FenceStaleEpoch | FenceFutureEpoch

record FenceError =
  fe_kind :: FenceErrorKind
  fe_expected :: string
  fe_received :: string

definition ValidateFence :: "string \<Rightarrow> string \<Rightarrow> u64 \<Rightarrow> string \<Rightarrow> string \<Rightarrow> u64 \<Rightarrow> FenceError option" where
  "ValidateFence clusterID nodeID epoch requestClusterID targetNodeID requestEpoch =
     (if requestClusterID \<noteq> clusterID
      then Some \<lparr>fe_kind = FenceClusterMismatch, fe_expected = clusterID, fe_received = requestClusterID\<rparr>
      else if targetNodeID \<noteq> nodeID
      then Some \<lparr>fe_kind = FenceWrongNode, fe_expected = nodeID, fe_received = targetNodeID\<rparr>
      else if requestEpoch < epoch
      then Some \<lparr>fe_kind = FenceStaleEpoch, fe_expected = show_nat (unat epoch), fe_received = show_nat (unat requestEpoch)\<rparr>
      else if requestEpoch > epoch
      then Some \<lparr>fe_kind = FenceFutureEpoch, fe_expected = show_nat (unat epoch), fe_received = show_nat (unat requestEpoch)\<rparr>
      else None)"

lemma ValidateFence_accepts:
  "ValidateFence c n e c' n' e' = None \<longleftrightarrow> c' = c \<and> n' = n \<and> e' = e"
  by (auto simp: ValidateFence_def)

subsection \<open>Sample data for the concrete instances\<close>

definition sample_node :: "char \<Rightarrow> string" where
  "sample_node c = replicate 31 (CHR ''0'') @ [c]"

definition sample_view :: "char \<Rightarrow> ViewDigests" where
  "sample_view c =
     \<lparr>Membership = replicate 64 c, Catalog = replicate 64 c, Placement = replicate 64 c,
      CapacityManifest = []\<rparr>"

lemma sample_node_valid [simp]:
  "ValidNodeID (sample_node (CHR ''1''))" "ValidNodeID (sample_node (CHR ''2''))"
  "ValidNodeID (sample_node (CHR ''3''))"
  by code_simp+

lemma sample_view_valid [simp]:
  "validView (sample_view (CHR ''a''))" "validView (sample_view (CHR ''b''))"
  by code_simp+

end
