(* ===== verification/Raft_Store.thy ===== *)
theory Raft_Store
  imports Cluster_Base
begin

text \<open>
  \<open>internal/cluster/raft.go\<close>: the durable safety core of the metadata Raft group. The store is a
  record of the in-memory state and of what the state file holds; every operation returns its
  result together with the store it leaves behind, because the Go methods keep the in-memory
  changes they made before an error return. The outcome of writing the state file is an argument.
\<close>

subsection \<open>Data\<close>

record MetadataCommand =
  Type :: string
  Epoch :: u64
  MembershipDigest :: string
  CatalogDigest :: string
  PlacementDigest :: string
  CmdCapacityManifest :: string
  OldVoters :: "string list"
  NewVoters :: "string list"

record RaftEntry =
  Term :: u64
  Command :: MetadataCommand

record raftPersistentState =
  Format :: int
  CurrentTerm :: u64
  VotedFor :: string
  CommitIndex :: u64
  AppliedEpoch :: u64
  SnapshotIndex :: u64
  SnapshotTerm :: u64
  SnapshotEpoch :: u64
  SnapshotView :: "ViewDigests option"
  Voters :: "string list"
  JointOldVoters :: "string list"
  JointNewVoters :: "string list"
  CommittedView :: "ViewDigests option"
  Entries :: "RaftEntry list"

record RequestVoteRequest =
  rv_Term :: u64
  CandidateID :: string
  LastLogIndex :: u64
  LastLogTerm :: u64

record RequestVoteResponse =
  rvr_Term :: u64
  VoteGranted :: bool

record AppendEntriesRequest =
  ae_Term :: u64
  LeaderID :: string
  PrevLogIndex :: u64
  PrevLogTerm :: u64
  ae_Entries :: "RaftEntry list"
  LeaderCommit :: u64

record AppendEntriesResponse =
  aer_Term :: u64
  Success :: bool
  MatchIndex :: u64

record RaftSnapshot =
  LastIncludedIndex :: u64
  LastIncludedTerm :: u64
  sn_AppliedEpoch :: u64
  sn_Voters :: "string list"
  sn_CommittedView :: "ViewDigests option"

record InstallSnapshotRequest =
  is_Term :: u64
  is_LeaderID :: string
  Snapshot :: RaftSnapshot

record InstallSnapshotResponse =
  isr_Term :: u64
  isr_Success :: bool
  isr_MatchIndex :: u64

record RaftStore =
  nodeID :: string
  state :: raftPersistentState
  disk :: "raftPersistentState option"

text \<open>
  \<open>persistLocked\<close> writes a temporary file, syncs it, renames it over the state file and syncs the
  directory. It succeeds, fails before the rename, or fails after it.
\<close>

datatype persist_io = IO_ok | IO_failed | IO_unsynced

definition persistLocked :: "persist_io \<Rightarrow> RaftStore \<Rightarrow> unit result \<times> RaftStore" where
  "persistLocked io r =
     (case io of
        IO_ok \<Rightarrow> (Inr (), r\<lparr>disk := Some (state r)\<rparr>)
      | IO_failed \<Rightarrow> (Inl ErrIO, r)
      | IO_unsynced \<Rightarrow> (Inl ErrIO, r\<lparr>disk := Some (state r)\<rparr>))"

text \<open>\<open>if err := r.persistLocked(); err != nil { return ..., err }; return resp, nil\<close>.\<close>

definition persist_then :: "persist_io \<Rightarrow> RaftStore \<Rightarrow> 'a \<Rightarrow> 'a result \<times> RaftStore" where
  "persist_then io r resp =
     (case persistLocked io r of
        (Inl e, r') \<Rightarrow> (Inl e, r')
      | (Inr _, r') \<Rightarrow> (Inr resp, r'))"

subsection \<open>Strings and voter sets\<close>

definition equalStrings :: "string list \<Rightarrow> string list \<Rightarrow> bool" where
  "equalStrings left right =
     (if length left \<noteq> length right then False
      else list_all (\<lambda>i. left ! i = right ! i) [0..<length left])"

definition containsString :: "string list \<Rightarrow> string \<Rightarrow> bool" where
  "containsString values wanted =
     (let index = search_strings values wanted in
      index < length values \<and> values ! index = wanted)"

fun normalizeVoterLoop :: "string option \<Rightarrow> string list \<Rightarrow> unit result" where
  "normalizeVoterLoop prev [] = Inr ()"
| "normalizeVoterLoop prev (voter # rest) =
     (if \<not> ValidNodeID voter then Inl (ErrMsg ''invalid Raft voter ID'')
      else if prev = Some voter then Inl (ErrMsg ''duplicate Raft voter ID'')
      else normalizeVoterLoop (Some voter) rest)"

definition normalizeVoterSet :: "string list \<Rightarrow> string list result" where
  "normalizeVoterSet voters =
     (if voters = [] then Inl (ErrMsg ''Raft voter set must not be empty'')
      else
        let normalized = sort voters in
        and_then (normalizeVoterLoop None normalized) (\<lambda>_. Inr normalized))"

definition normalizeVoters :: "string list \<Rightarrow> string \<Rightarrow> string list result" where
  "normalizeVoters voters localNodeID =
     and_then (normalizeVoterSet voters) (\<lambda>normalized.
       if \<not> containsString normalized localNodeID
       then Inl (ErrMsg ''Raft voter set excludes local node'')
       else Inr normalized)"

definition voterMajority :: "string list \<Rightarrow> string set \<Rightarrow> bool" where
  "voterMajority voters acknowledgements =
     (let count = length (filter (\<lambda>v. v \<in> acknowledgements) voters) in
      length voters > 0 \<and> count \<ge> length voters div 2 + 1)"

definition voterSetDifference :: "string list \<Rightarrow> string list \<Rightarrow> nat" where
  "voterSetDifference oldVoters newVoters =
     length (filter (\<lambda>v. v \<notin> set newVoters) (remdups oldVoters))
     + length (filter (\<lambda>v. v \<notin> set oldVoters) (remdups newVoters))"

definition activeVotersLocked :: "raftPersistentState \<Rightarrow> string list" where
  "activeVotersLocked s =
     (if JointOldVoters s = [] then Voters s
      else sort (remdups (JointOldVoters s @ JointNewVoters s)))"

subsection \<open>Commands and entries\<close>

definition commandView :: "MetadataCommand \<Rightarrow> ViewDigests" where
  "commandView c =
     \<lparr>Membership = MembershipDigest c, Catalog = CatalogDigest c, Placement = PlacementDigest c,
      CapacityManifest = CmdCapacityManifest c\<rparr>"

text \<open>Both voter sets are canonical and differ in exactly one node.\<close>

definition jointCommandOk :: "MetadataCommand \<Rightarrow> bool" where
  "jointCommandOk c =
     (case (normalizeVoterSet (OldVoters c), normalizeVoterSet (NewVoters c)) of
        (Inr old, Inr new) \<Rightarrow>
          equalStrings old (OldVoters c) \<and> equalStrings new (NewVoters c)
          \<and> voterSetDifference (OldVoters c) (NewVoters c) = 1
      | _ \<Rightarrow> False)"

definition validateRaftEntry :: "RaftEntry \<Rightarrow> unit result" where
  "validateRaftEntry entry =
     (let command = Command entry in
      if Term entry = 0 then Inl (ErrMsg ''invalid metadata log entry'')
      else if Type command = ''advance_epoch'' then
        (if Epoch command < 2 \<or> length (OldVoters command) \<noteq> 0 \<or> length (NewVoters command) \<noteq> 0
            \<or> \<not> validView (commandView command)
         then Inl (ErrMsg ''invalid metadata log entry'') else Inr ())
      else if Type command = ''begin_joint_consensus'' then
        (if Epoch command = 0 \<or> \<not> jointCommandOk command
         then Inl (ErrMsg ''invalid joint-consensus begin entry'') else Inr ())
      else if Type command = ''finalize_joint_consensus'' then
        (if Epoch command < 2 \<or> \<not> jointCommandOk command \<or> \<not> validView (commandView command)
         then Inl (ErrMsg ''invalid joint-consensus finalize entry'') else Inr ())
      else Inl (ErrMsg ''invalid metadata log entry''))"

definition metadataCommandsEqual :: "MetadataCommand \<Rightarrow> MetadataCommand \<Rightarrow> bool" where
  "metadataCommandsEqual l r =
     (Type l = Type r \<and> Epoch l = Epoch r \<and> MembershipDigest l = MembershipDigest r
      \<and> CatalogDigest l = CatalogDigest r \<and> PlacementDigest l = PlacementDigest r
      \<and> CmdCapacityManifest l = CmdCapacityManifest r
      \<and> equalStrings (OldVoters l) (OldVoters r) \<and> equalStrings (NewVoters l) (NewVoters r))"

subsection \<open>The log\<close>

definition lastLogLocked :: "raftPersistentState \<Rightarrow> u64 \<times> u64" where
  "lastLogLocked s =
     (if length (Entries s) = 0 then (SnapshotIndex s, SnapshotTerm s)
      else (SnapshotIndex s + of_nat (length (Entries s)), Term (Entries s ! (length (Entries s) - 1))))"

definition termAtLocked :: "raftPersistentState \<Rightarrow> u64 \<Rightarrow> u64 result" where
  "termAtLocked s index =
     (if index = SnapshotIndex s then Inr (SnapshotTerm s)
      else if index < SnapshotIndex s \<or> index > SnapshotIndex s + of_nat (length (Entries s))
      then Inl (ErrMsg ''Raft log index is outside retained range'')
      else Inr (Term (Entries s ! unat (index - SnapshotIndex s - 1))))"

definition LogSnapshot :: "RaftStore \<Rightarrow> u64 \<times> u64 \<times> u64 \<times> u64 \<times> RaftEntry list" where
  "LogSnapshot r =
     (let s = state r; (lastIndex, lastTerm) = lastLogLocked s in
      (CurrentTerm s, CommitIndex s, lastIndex, lastTerm, Entries s))"

definition LogBatch :: "RaftStore \<Rightarrow> u64 \<Rightarrow> int \<Rightarrow> (u64 \<times> u64 \<times> u64 \<times> u64 \<times> RaftEntry list) result" where
  "LogBatch r nextIndex limit =
     (let s = state r; lastIndex = fst (lastLogLocked s) in
      if nextIndex \<le> SnapshotIndex s \<or> nextIndex > lastIndex + 1 \<or> limit < 1 \<or> limit > 1024
      then Inl (ErrMsg ''invalid Raft log batch request'')
      else
        let prevIndex = nextIndex - 1 in
        and_then (termAtLocked s prevIndex) (\<lambda>prevTerm.
          let start = unat (nextIndex - SnapshotIndex s - 1);
              end' = min (length (Entries s)) (start + nat limit) in
          Inr (CurrentTerm s, CommitIndex s, prevIndex, prevTerm,
               take (end' - start) (drop start (Entries s)))))"

definition State :: "RaftStore \<Rightarrow> u64 \<times> u64 \<times> u64" where
  "State r = (CurrentTerm (state r), CommitIndex (state r), AppliedEpoch (state r))"

definition snapshotLocked :: "raftPersistentState \<Rightarrow> RaftSnapshot" where
  "snapshotLocked s =
     \<lparr>LastIncludedIndex = SnapshotIndex s, LastIncludedTerm = SnapshotTerm s,
      sn_AppliedEpoch = SnapshotEpoch s, sn_Voters = Voters s, sn_CommittedView = SnapshotView s\<rparr>"

definition StoreSnapshot :: "RaftStore \<Rightarrow> RaftSnapshot option" where
  "StoreSnapshot r =
     (if SnapshotIndex (state r) = 0 then None else Some (snapshotLocked (state r)))"

definition HasVoterQuorum :: "RaftStore \<Rightarrow> string list \<Rightarrow> bool" where
  "HasVoterQuorum r acknowledgements =
     (let s = state r; ackSet = set acknowledgements in
      if length (JointOldVoters s) \<noteq> 0
      then voterMajority (JointOldVoters s) ackSet \<and> voterMajority (JointNewVoters s) ackSet
      else voterMajority (Voters s) ackSet)"

subsection \<open>Applying committed entries\<close>

text \<open>The local variables of \<open>applyThroughLocked\<close> besides the commit index.\<close>

record applied =
  appliedEpoch :: u64
  committedView :: "ViewDigests option"
  voters :: "string list"
  jointOld :: "string list"
  jointNew :: "string list"

definition applyCommand :: "MetadataCommand \<Rightarrow> applied \<Rightarrow> applied result" where
  "applyCommand c a =
     (if Type c = ''advance_epoch'' then
        (if length (jointOld a) \<noteq> 0 \<or> Epoch c > appliedEpoch a + 1 \<or> Epoch c < appliedEpoch a
         then Inl (ErrMsg ''metadata epoch must advance exactly once'')
         else if Epoch c = appliedEpoch a + 1
         then Inr (a\<lparr>appliedEpoch := Epoch c, committedView := Some (commandView c)\<rparr>)
         else if committedView a \<noteq> Some (commandView c)
         then Inl (ErrMsg ''duplicate metadata epoch has conflicting view digests'')
         else Inr a)
      else if Type c = ''begin_joint_consensus'' then
        (let vs = (if length (voters a) = 0 then OldVoters c else voters a) in
         if Epoch c \<noteq> appliedEpoch a \<or> length (jointOld a) \<noteq> 0 \<or> \<not> equalStrings (OldVoters c) vs
         then Inl (ErrMsg ''invalid joint-consensus begin'')
         else Inr (a\<lparr>voters := vs, jointOld := OldVoters c, jointNew := NewVoters c\<rparr>))
      else if Type c = ''finalize_joint_consensus'' then
        (if Epoch c \<noteq> appliedEpoch a + 1 \<or> \<not> equalStrings (OldVoters c) (jointOld a)
            \<or> \<not> equalStrings (NewVoters c) (jointNew a)
         then Inl (ErrMsg ''invalid joint-consensus finalize'')
         else Inr \<lparr>appliedEpoch = Epoch c, committedView = Some (commandView c),
                   voters = NewVoters c, jointOld = [], jointNew = []\<rparr>)
      else Inl (ErrMsg ''unknown metadata command''))"

function applyLoop :: "raftPersistentState \<Rightarrow> u64 \<Rightarrow> u64 \<Rightarrow> applied \<Rightarrow> (u64 \<times> applied) result" where
  "applyLoop s target commitIndex a =
     (if commitIndex < target then
        let offset = unat (commitIndex - SnapshotIndex s) in
        if offset < length (Entries s) then
          (case applyCommand (Command (Entries s ! offset)) a of
             Inl e \<Rightarrow> Inl e
           | Inr a' \<Rightarrow> applyLoop s target (commitIndex + 1) a')
        else Inl GoPanic
      else Inr (commitIndex, a))"
  by pat_completeness auto
termination
proof (relation "measure (\<lambda>(s, target, c, a). unat target - unat c)")
  fix s :: raftPersistentState and target c :: u64 and a a' :: applied and e
  assume "c < target"
  then have "unat c < unat target" by (simp add: word_less_nat_alt)
  moreover have "unat (c + 1) = unat c + 1"
    using \<open>c < target\<close> by (rule unat_Suc_less)
  ultimately show "((s, target, c + 1, a'), s, target, c, a)
      \<in> measure (\<lambda>(s, target, c, a). unat target - unat c)"
    by simp
qed simp

declare applyLoop.simps [simp del]

definition appliedOf :: "raftPersistentState \<Rightarrow> applied" where
  "appliedOf s =
     \<lparr>appliedEpoch = AppliedEpoch s, committedView = CommittedView s, voters = Voters s,
      jointOld = JointOldVoters s, jointNew = JointNewVoters s\<rparr>"

definition applyThroughLocked :: "raftPersistentState \<Rightarrow> u64 \<Rightarrow> raftPersistentState result" where
  "applyThroughLocked s target =
     and_then (applyLoop s target (CommitIndex s) (appliedOf s)) (\<lambda>(c, a).
       Inr (s\<lparr>CommitIndex := c, AppliedEpoch := appliedEpoch a, CommittedView := committedView a,
              Voters := voters a, JointOldVoters := jointOld a, JointNewVoters := jointNew a\<rparr>))"

subsection \<open>Opening the store\<close>

text \<open>\<open>validateLocked\<close> replays the committed entries from the snapshot, without the local voter set.\<close>

definition replayCommand :: "MetadataCommand \<Rightarrow> applied \<Rightarrow> applied result" where
  "replayCommand c a =
     (if Type c = ''advance_epoch'' then
        (if length (jointOld a) \<noteq> 0 \<or> Epoch c > appliedEpoch a + 1 \<or> Epoch c < appliedEpoch a
         then Inl (ErrMsg ''invalid committed metadata epoch sequence'')
         else if Epoch c = appliedEpoch a + 1
         then Inr (a\<lparr>appliedEpoch := Epoch c, committedView := Some (commandView c)\<rparr>)
         else if committedView a \<noteq> Some (commandView c)
         then Inl (ErrMsg ''conflicting committed metadata view'')
         else Inr a)
      else if Type c = ''begin_joint_consensus'' then
        (if Epoch c \<noteq> appliedEpoch a \<or> length (jointOld a) \<noteq> 0
         then Inl (ErrMsg ''invalid committed joint-consensus begin'')
         else Inr (a\<lparr>voters := OldVoters c, jointOld := OldVoters c, jointNew := NewVoters c\<rparr>))
      else if Type c = ''finalize_joint_consensus'' then
        (if Epoch c \<noteq> appliedEpoch a + 1 \<or> \<not> equalStrings (OldVoters c) (jointOld a)
            \<or> \<not> equalStrings (NewVoters c) (jointNew a)
         then Inl (ErrMsg ''invalid committed joint-consensus finalize'')
         else Inr \<lparr>appliedEpoch = Epoch c, committedView = Some (commandView c),
                   voters = NewVoters c, jointOld = [], jointNew = []\<rparr>)
      else Inr a)"

fun replayLoop :: "raftPersistentState \<Rightarrow> nat \<Rightarrow> RaftEntry list \<Rightarrow> applied \<Rightarrow> applied result" where
  "replayLoop s index [] a = Inr a"
| "replayLoop s index (entry # rest) a =
     and_then (validateRaftEntry entry) (\<lambda>_.
       let absoluteIndex = SnapshotIndex s + of_nat index + 1 in
       and_then (if absoluteIndex \<le> CommitIndex s then replayCommand (Command entry) a else Inr a)
         (replayLoop s (Suc index) rest))"

definition replayStart :: "raftPersistentState \<Rightarrow> applied" where
  "replayStart s =
     \<lparr>appliedEpoch = SnapshotEpoch s, committedView = SnapshotView s, voters = [], jointOld = [],
      jointNew = []\<rparr>"

definition canonicalVoters :: "string list \<Rightarrow> bool" where
  "canonicalVoters vs =
     (case normalizeVoterSet vs of Inl _ \<Rightarrow> False | Inr normalized \<Rightarrow> equalStrings normalized vs)"

text \<open>The comparison of the replayed values with the persisted ones.\<close>

definition validateReplay :: "raftPersistentState \<Rightarrow> applied \<Rightarrow> raftPersistentState result" where
  "validateReplay s a =
     (if appliedEpoch a \<noteq> AppliedEpoch s
      then Inl (ErrMsg ''applied metadata epoch does not match committed log'')
      else if length (voters a) \<noteq> 0 \<and> \<not> equalStrings (voters a) (Voters s)
              \<or> \<not> equalStrings (jointOld a) (JointOldVoters s)
              \<or> \<not> equalStrings (jointNew a) (JointNewVoters s)
      then Inl (ErrMsg ''persisted voter configuration does not match committed log'')
      else case (committedView a, CommittedView s) of
        (None, None) \<Rightarrow> Inr s
      | (None, Some _) \<Rightarrow> Inl (ErrMsg ''unexpected committed metadata view'')
      | (Some v, None) \<Rightarrow> Inr (s\<lparr>CommittedView := Some v\<rparr>)
      | (Some v, Some w) \<Rightarrow>
          if v \<noteq> w then Inl (ErrMsg ''committed metadata view does not match log'') else Inr s)"

definition validateLocked :: "u64 \<Rightarrow> raftPersistentState \<Rightarrow> raftPersistentState result" where
  "validateLocked bootstrapEpoch s0 =
     (let s = (if SnapshotEpoch s0 = 0 \<and> SnapshotIndex s0 = 0
               then s0\<lparr>SnapshotEpoch := bootstrapEpoch\<rparr> else s0);
          lastIndex = fst (lastLogLocked s) in
      if Format s \<noteq> 1 \<or> AppliedEpoch s < bootstrapEpoch \<or> CommitIndex s < SnapshotIndex s
         \<or> CommitIndex s > lastIndex \<or> SnapshotEpoch s < bootstrapEpoch
      then Inl (ErrMsg ''invalid Raft state'')
      else if SnapshotIndex s = 0 \<and> SnapshotTerm s \<noteq> 0 \<or> SnapshotIndex s > 0 \<and> SnapshotTerm s = 0
      then Inl (ErrMsg ''invalid Raft snapshot boundary'')
      else if SnapshotEpoch s = bootstrapEpoch \<and> SnapshotView s \<noteq> None
              \<or> SnapshotEpoch s > bootstrapEpoch \<and> SnapshotView s = None
      then Inl (ErrMsg ''invalid Raft snapshot metadata'')
      else if (case SnapshotView s of None \<Rightarrow> False | Some v \<Rightarrow> \<not> validView v)
      then Inl (ErrMsg ''invalid Raft snapshot view digests'')
      else if length (Voters s) \<noteq> 0 \<and> \<not> canonicalVoters (Voters s)
      then Inl (ErrMsg ''invalid persisted Raft voters'')
      else if (length (JointOldVoters s) \<noteq> 0 \<or> length (JointNewVoters s) \<noteq> 0)
              \<and> (\<not> canonicalVoters (JointOldVoters s) \<or> \<not> canonicalVoters (JointNewVoters s)
                  \<or> \<not> equalStrings (Voters s) (JointOldVoters s))
      then Inl (ErrMsg ''invalid persisted joint voter configuration'')
      else and_then (replayLoop s 0 (Entries s) (replayStart s)) (validateReplay s))"

text \<open>What \<open>OpenRaftStore\<close> finds at its path: no file, one it cannot read or decode, or a state.\<close>

datatype raft_file = NoFile | BadFile | StateFile raftPersistentState

definition bootstrapState :: "u64 \<Rightarrow> raftPersistentState" where
  "bootstrapState bootstrapEpoch =
     \<lparr>Format = 1, CurrentTerm = 0, VotedFor = [], CommitIndex = 0, AppliedEpoch = bootstrapEpoch,
      SnapshotIndex = 0, SnapshotTerm = 0, SnapshotEpoch = bootstrapEpoch, SnapshotView = None,
      Voters = [], JointOldVoters = [], JointNewVoters = [], CommittedView = None, Entries = []\<rparr>"

definition OpenRaftStore :: "persist_io \<Rightarrow> raft_file \<Rightarrow> string \<Rightarrow> u64 \<Rightarrow> RaftStore result" where
  "OpenRaftStore io file nodeid bootstrapEpoch =
     (if \<not> ValidNodeID nodeid \<or> bootstrapEpoch = 0
      then Inl (ErrMsg ''valid node ID and bootstrap epoch are required'')
      else case file of
        NoFile \<Rightarrow>
          let store = \<lparr>nodeID = nodeid, state = bootstrapState bootstrapEpoch, disk = None\<rparr> in
          fst (case persistLocked io store of
                 (Inl e, r) \<Rightarrow> (Inl e, r) | (Inr _, r) \<Rightarrow> (Inr r, r))
      | BadFile \<Rightarrow> Inl (ErrMsg ''decode Raft state'')
      | StateFile s \<Rightarrow>
          and_then (validateLocked bootstrapEpoch s) (\<lambda>s'.
            Inr \<lparr>nodeID = nodeid, state = s', disk = Some s\<rparr>))"

subsection \<open>Operations\<close>

definition set_state :: "RaftStore \<Rightarrow> raftPersistentState \<Rightarrow> RaftStore" where
  "set_state r s = r\<lparr>state := s\<rparr>"

definition ObserveTerm :: "persist_io \<Rightarrow> RaftStore \<Rightarrow> u64 \<Rightarrow> unit result \<times> RaftStore" where
  "ObserveTerm io r term =
     (if term \<le> CurrentTerm (state r) then (Inr (), r)
      else persist_then io (set_state r ((state r)\<lparr>CurrentTerm := term, VotedFor := []\<rparr>)) ())"

definition ConfigureVoters :: "persist_io \<Rightarrow> RaftStore \<Rightarrow> string list \<Rightarrow> unit result \<times> RaftStore" where
  "ConfigureVoters io r vs =
     (case normalizeVoters vs (nodeID r) of
        Inl e \<Rightarrow> (Inl e, r)
      | Inr normalized \<Rightarrow>
          if length (Voters (state r)) \<noteq> 0 then
            (if \<not> equalStrings (Voters (state r)) normalized
             then (Inl (ErrMsg ''configured voters do not match persisted Raft membership''), r)
             else (Inr (), r))
          else persist_then io (set_state r ((state r)\<lparr>Voters := normalized\<rparr>)) ())"

definition validSnapshot :: "string \<Rightarrow> RaftSnapshot \<Rightarrow> bool" where
  "validSnapshot node snapshot =
     (\<not> ((case normalizeVoters (sn_Voters snapshot) node of
             Inl _ \<Rightarrow> True | Inr normalized \<Rightarrow> \<not> equalStrings normalized (sn_Voters snapshot))
          \<or> LastIncludedIndex snapshot = 0 \<or> LastIncludedTerm snapshot = 0
          \<or> sn_AppliedEpoch snapshot < 2
          \<or> (case sn_CommittedView snapshot of None \<Rightarrow> True | Some v \<Rightarrow> \<not> validView v)))"

text \<open>The log suffix a snapshot keeps and the assignments that follow.\<close>

definition replaceBySnapshot :: "raftPersistentState \<Rightarrow> RaftSnapshot \<Rightarrow> raftPersistentState" where
  "replaceBySnapshot s snapshot =
     (let retained =
            (if termAtLocked s (LastIncludedIndex snapshot) = Inr (LastIncludedTerm snapshot)
             then drop (unat (LastIncludedIndex snapshot - SnapshotIndex s)) (Entries s)
             else []) in
      s\<lparr>SnapshotIndex := LastIncludedIndex snapshot,
        SnapshotTerm := LastIncludedTerm snapshot,
        SnapshotEpoch := sn_AppliedEpoch snapshot,
        SnapshotView := sn_CommittedView snapshot,
        CommitIndex := LastIncludedIndex snapshot,
        AppliedEpoch := sn_AppliedEpoch snapshot,
        CommittedView := sn_CommittedView snapshot,
        Voters := sn_Voters snapshot,
        Entries := retained\<rparr>)"

definition InstallSnapshot ::
  "persist_io \<Rightarrow> RaftStore \<Rightarrow> InstallSnapshotRequest \<Rightarrow> InstallSnapshotResponse result \<times> RaftStore" where
  "InstallSnapshot io r request =
     (let s = state r; snapshot = Snapshot request;
          refuse = \<lparr>isr_Term = CurrentTerm s, isr_Success = False, isr_MatchIndex = 0\<rparr> in
      if \<not> ValidNodeID (is_LeaderID request) \<or> is_Term request = 0
      then (Inl (ErrMsg ''invalid snapshot request''), r)
      else if length (Voters s) \<noteq> 0 \<and> \<not> containsString (Voters s) (is_LeaderID request)
      then (Inr refuse, r)
      else if \<not> validSnapshot (nodeID r) snapshot
      then (Inl (ErrMsg ''invalid Raft snapshot''), r)
      else if length (Voters s) \<noteq> 0 \<and> \<not> equalStrings (Voters s) (sn_Voters snapshot)
      then (Inl (ErrMsg ''snapshot voter set does not match persisted membership''), r)
      else if is_Term request < CurrentTerm s
      then (Inr refuse, r)
      else
        let s1 = (if is_Term request > CurrentTerm s
                  then s\<lparr>CurrentTerm := is_Term request, VotedFor := []\<rparr> else s) in
        if LastIncludedIndex snapshot \<le> CommitIndex s1
        then persist_then io (set_state r s1)
               \<lparr>isr_Term = CurrentTerm s1, isr_Success = True, isr_MatchIndex = CommitIndex s1\<rparr>
        else
          let s2 = replaceBySnapshot s1 snapshot in
          persist_then io (set_state r s2)
            \<lparr>isr_Term = CurrentTerm s2, isr_Success = True, isr_MatchIndex = LastIncludedIndex snapshot\<rparr>)"

definition CompactCommitted :: "persist_io \<Rightarrow> RaftStore \<Rightarrow> unit result \<times> RaftStore" where
  "CompactCommitted io r =
     (let s = state r in
      if length (JointOldVoters s) \<noteq> 0
      then (Inl (ErrMsg ''cannot compact metadata log during joint consensus''), r)
      else if CommitIndex s = SnapshotIndex s then (Inr (), r)
      else case termAtLocked s (CommitIndex s) of
        Inl e \<Rightarrow> (Inl e, r)
      | Inr term \<Rightarrow>
          let remove = CommitIndex s - SnapshotIndex s;
              s1 = s\<lparr>Entries := drop (unat remove) (Entries s), SnapshotIndex := CommitIndex s,
                     SnapshotTerm := term, SnapshotEpoch := AppliedEpoch s,
                     SnapshotView := CommittedView s\<rparr> in
          persist_then io (set_state r s1) ())"

definition BeginElection :: "persist_io \<Rightarrow> RaftStore \<Rightarrow> RequestVoteRequest result \<times> RaftStore" where
  "BeginElection io r =
     (let s = state r in
      if length (Voters s) \<noteq> 0 \<and> \<not> containsString (activeVotersLocked s) (nodeID r)
      then (Inl (ErrMsg ''local node is not an active Raft voter''), r)
      else
        let s1 = s\<lparr>CurrentTerm := CurrentTerm s + 1, VotedFor := nodeID r\<rparr>;
            (lastIndex, lastTerm) = lastLogLocked s1 in
        persist_then io (set_state r s1)
          \<lparr>rv_Term = CurrentTerm s1, CandidateID = nodeID r, LastLogIndex = lastIndex, LastLogTerm = lastTerm\<rparr>)"

definition RequestVote ::
  "persist_io \<Rightarrow> RaftStore \<Rightarrow> RequestVoteRequest \<Rightarrow> RequestVoteResponse result \<times> RaftStore" where
  "RequestVote io r request =
     (let s = state r in
      if \<not> ValidNodeID (CandidateID request) \<or> rv_Term request = 0
      then (Inl (ErrMsg ''invalid vote request''), r)
      else if length (Voters s) \<noteq> 0 \<and> \<not> containsString (activeVotersLocked s) (CandidateID request)
      then (Inr \<lparr>rvr_Term = CurrentTerm s, VoteGranted = False\<rparr>, r)
      else if rv_Term request < CurrentTerm s
      then (Inr \<lparr>rvr_Term = CurrentTerm s, VoteGranted = False\<rparr>, r)
      else
        let newer = rv_Term request > CurrentTerm s;
            s1 = (if newer then s\<lparr>CurrentTerm := rv_Term request, VotedFor := []\<rparr> else s);
            (lastIndex, lastTerm) = lastLogLocked s1;
            upToDate = (LastLogTerm request > lastTerm
                        \<or> LastLogTerm request = lastTerm \<and> LastLogIndex request \<ge> lastIndex);
            granted = (upToDate \<and> (VotedFor s1 = [] \<or> VotedFor s1 = CandidateID request));
            record_vote = (granted \<and> VotedFor s1 \<noteq> CandidateID request);
            s2 = (if record_vote then s1\<lparr>VotedFor := CandidateID request\<rparr> else s1);
            changed = (newer \<or> record_vote);
            response = \<lparr>rvr_Term = CurrentTerm s2, VoteGranted = granted\<rparr> in
        if changed then persist_then io (set_state r s2) response
        else (Inr response, set_state r s2))"

text \<open>The loop of \<open>AppendEntries\<close> over the received entries.\<close>

fun appendLoop :: "u64 \<Rightarrow> nat \<Rightarrow> raftPersistentState \<Rightarrow> RaftEntry list \<Rightarrow> unit result \<times> raftPersistentState" where
  "appendLoop prev offset s [] = (Inr (), s)"
| "appendLoop prev offset s (entry # rest) =
     (let index = prev + of_nat offset + 1 in
      if index \<le> SnapshotIndex s then appendLoop prev (Suc offset) s rest
      else
        let entryOffset = index - SnapshotIndex s - 1;
            add = (\<lambda>s'. case validateRaftEntry entry of
                     Inl e \<Rightarrow> (Inl e, s')
                   | Inr _ \<Rightarrow> appendLoop prev (Suc offset) (s'\<lparr>Entries := Entries s' @ [entry]\<rparr>) rest) in
        if entryOffset < of_nat (length (Entries s)) then
          (if Term (Entries s ! unat entryOffset) = Term entry
           then appendLoop prev (Suc offset) s rest
           else if index \<le> CommitIndex s
           then (Inl (ErrMsg ''refusing to overwrite committed entry''), s)
           else add (s\<lparr>Entries := take (unat entryOffset) (Entries s)\<rparr>))
        else add s)"

text \<open>The rest of \<open>AppendEntries\<close> once the previous entry matches.\<close>

definition acceptEntries ::
  "persist_io \<Rightarrow> RaftStore \<Rightarrow> raftPersistentState \<Rightarrow> AppendEntriesRequest
   \<Rightarrow> AppendEntriesResponse result \<times> RaftStore" where
  "acceptEntries io r s1 request =
     (case appendLoop (PrevLogIndex request) 0 s1 (ae_Entries request) of
        (Inl e, s2) \<Rightarrow> (Inl e, set_state r s2)
      | (Inr _, s2) \<Rightarrow>
          (case (if LeaderCommit request > CommitIndex s2
                 then applyThroughLocked s2 (min (LeaderCommit request) (fst (lastLogLocked s2)))
                 else Inr s2) of
             Inl e \<Rightarrow> (Inl e, set_state r s2)
           | Inr s3 \<Rightarrow>
               persist_then io (set_state r s3)
                 \<lparr>aer_Term = CurrentTerm s3, Success = True,
                  MatchIndex = max (PrevLogIndex request) (SnapshotIndex s3)
                               + of_nat (length (ae_Entries request))\<rparr>))"

definition AppendEntries ::
  "persist_io \<Rightarrow> RaftStore \<Rightarrow> AppendEntriesRequest \<Rightarrow> AppendEntriesResponse result \<times> RaftStore" where
  "AppendEntries io r request =
     (let s = state r;
          refuse = (\<lambda>term. \<lparr>aer_Term = term, Success = False, MatchIndex = 0\<rparr>) in
      if \<not> ValidNodeID (LeaderID request) \<or> ae_Term request = 0
      then (Inl (ErrMsg ''invalid append request''), r)
      else if length (Voters s) \<noteq> 0 \<and> \<not> containsString (activeVotersLocked s) (LeaderID request)
      then (Inr (refuse (CurrentTerm s)), r)
      else if length (ae_Entries request) > 1024
      then (Inl (ErrMsg ''append request exceeds entry limit''), r)
      else if ae_Term request < CurrentTerm s
      then (Inr (refuse (CurrentTerm s)), r)
      else
        let s1 = (if ae_Term request > CurrentTerm s
                  then s\<lparr>CurrentTerm := ae_Term request, VotedFor := []\<rparr> else s);
            lastIndex = fst (lastLogLocked s1) in
        if PrevLogIndex request < SnapshotIndex s1 \<or> PrevLogIndex request > lastIndex
           \<or> termAtLocked s1 (PrevLogIndex request) \<noteq> Inr (PrevLogTerm request)
        then persist_then io (set_state r s1) (refuse (CurrentTerm s1))
        else acceptEntries io r s1 request)"

definition AppendCommand ::
  "persist_io \<Rightarrow> RaftStore \<Rightarrow> u64 \<Rightarrow> MetadataCommand \<Rightarrow> u64 result \<times> RaftStore" where
  "AppendCommand io r term command =
     (let s = state r in
      if term = 0 \<or> term \<noteq> CurrentTerm s \<or> VotedFor s \<noteq> nodeID r
      then (Inl (ErrMsg ''node is not leader for term''), r)
      else
        let entry = \<lparr>Term = term, Command = command\<rparr> in
        case validateRaftEntry entry of
          Inl e \<Rightarrow> (Inl e, r)
        | Inr _ \<Rightarrow>
            let lastIndex = fst (lastLogLocked s) in
            if lastIndex > CommitIndex s \<and> Entries s = [] then (Inl GoPanic, r)
            else if lastIndex > CommitIndex s \<and> Term (last (Entries s)) = term
                    \<and> metadataCommandsEqual (Command (last (Entries s))) command
            then (Inr lastIndex, r)
            else
              let s1 = s\<lparr>Entries := Entries s @ [entry]\<rparr> in
              persist_then io (set_state r s1) (fst (lastLogLocked s1)))"

text \<open>The guard and the tail that both commit operations share.\<close>

definition commitEntry :: "persist_io \<Rightarrow> RaftStore \<Rightarrow> u64 \<Rightarrow> u64 \<Rightarrow> unit result \<times> RaftStore" where
  "commitEntry io r index term =
     (let s = state r in
      if term \<noteq> CurrentTerm s \<or> index \<le> SnapshotIndex s \<or> termAtLocked s index \<noteq> Inr term
      then (Inl (ErrMsg ''entry is not committable in current term''), r)
      else case applyThroughLocked s index of
        Inl e \<Rightarrow> (Inl e, r)
      | Inr s1 \<Rightarrow> persist_then io (set_state r s1) ())"

definition CommitWithQuorum ::
  "persist_io \<Rightarrow> RaftStore \<Rightarrow> u64 \<Rightarrow> u64 \<Rightarrow> int \<Rightarrow> int \<Rightarrow> unit result \<times> RaftStore" where
  "CommitWithQuorum io r index term acknowledgements voterCount =
     (if length (JointOldVoters (state r)) \<noteq> 0
      then (Inl (ErrMsg ''joint consensus requires voter-identity acknowledgements''), r)
      else if voterCount < 1 \<or> acknowledgements < voterCount div 2 + 1
      then (Inl (ErrMsg ''metadata quorum not reached''), r)
      else commitEntry io r index term)"

definition CommitWithVoterAcks ::
  "persist_io \<Rightarrow> RaftStore \<Rightarrow> u64 \<Rightarrow> u64 \<Rightarrow> string list \<Rightarrow> unit result \<times> RaftStore" where
  "CommitWithVoterAcks io r index term acknowledgements =
     (let s = state r; ackSet = set acknowledgements in
      if length (JointOldVoters s) \<noteq> 0
         \<and> (\<not> voterMajority (JointOldVoters s) ackSet \<or> \<not> voterMajority (JointNewVoters s) ackSet)
      then (Inl (ErrMsg ''metadata joint quorum not reached''), r)
      else if length (JointOldVoters s) = 0 \<and> \<not> voterMajority (Voters s) ackSet
      then (Inl (ErrMsg ''metadata quorum not reached''), r)
      else commitEntry io r index term)"

end
