(* ===== verification/Raft_Invariant.thy ===== *)
theory Raft_Invariant
  imports Raft_Store
begin

text \<open>
  The invariant of the Raft store: the condition \<open>validateLocked\<close> checks when a state file is
  reopened, restated over the committed prefix of the log, and its preservation by every operation.
\<close>

subsection \<open>Voter sets\<close>

lemma equalStrings_iff [simp]: "equalStrings l r \<longleftrightarrow> l = r"
  by (auto simp: equalStrings_def list_all_iff intro: nth_equalityI)

lemma containsString_iff: "sorted values \<Longrightarrow> containsString values w \<longleftrightarrow> w \<in> set values"
  by (simp add: containsString_def Let_def search_strings_sorted)

lemma normalizeVoterLoop_iff:
  "sorted vs \<Longrightarrow> (\<forall>p. prev = Some p \<longrightarrow> (\<forall>v\<in>set vs. p \<le> v)) \<Longrightarrow>
   normalizeVoterLoop prev vs = Inr () \<longleftrightarrow>
     list_all ValidNodeID vs \<and> distinct vs \<and> (\<forall>p. prev = Some p \<longrightarrow> p \<notin> set vs)"
proof (induction prev vs rule: normalizeVoterLoop.induct)
  case (2 prev voter rest)
  then have "normalizeVoterLoop (Some voter) rest = Inr () \<longleftrightarrow>
     list_all ValidNodeID rest \<and> distinct rest \<and> voter \<notin> set rest"
    if "ValidNodeID voter" "prev \<noteq> Some voter" using that by simp
  moreover have "prev = Some p \<Longrightarrow> p \<noteq> voter \<Longrightarrow> p \<notin> set rest" for p
    using 2(2,3) by fastforce
  ultimately show ?case by auto
qed simp

lemma normalizeVoterSet_iff:
  "normalizeVoterSet vs = Inr n \<longleftrightarrow> vs \<noteq> [] \<and> n = sort vs \<and> distinct vs \<and> list_all ValidNodeID vs"
  using normalizeVoterLoop_iff [of "sort vs" None]
  by (auto simp: normalizeVoterSet_def Let_def and_then_Inr_iff list_all_iff)

lemma canonicalVoters_iff:
  "canonicalVoters vs \<longleftrightarrow> vs \<noteq> [] \<and> sorted vs \<and> distinct vs \<and> list_all ValidNodeID vs"
proof -
  have "canonicalVoters vs \<longleftrightarrow> normalizeVoterSet vs = Inr vs"
    by (auto simp: canonicalVoters_def split: sum.splits)
  moreover have "vs = sort vs \<longleftrightarrow> sorted vs" by (metis sorted_sort sorted_sort_id)
  ultimately show ?thesis by (auto simp: normalizeVoterSet_iff)
qed

lemma normalizeVoters_canonical: "normalizeVoters vs n = Inr m \<Longrightarrow> canonicalVoters m \<and> n \<in> set m"
  by (auto simp: normalizeVoters_def and_then_Inr_iff canonicalVoters_iff normalizeVoterSet_iff
      containsString_iff list_all_iff simp flip: set_empty split: if_splits)

lemma jointCommandOk_iff:
  "jointCommandOk c \<longleftrightarrow> canonicalVoters (OldVoters c) \<and> canonicalVoters (NewVoters c)
     \<and> voterSetDifference (OldVoters c) (NewVoters c) = 1"
  by (auto simp: jointCommandOk_def canonicalVoters_def split: sum.splits)

subsection \<open>Index arithmetic\<close>

definition log_bound :: "raftPersistentState \<Rightarrow> bool" where
  "log_bound s \<longleftrightarrow> unat (SnapshotIndex s) + length (Entries s) < 2 ^ 64"

lemma unat_add_small: "unat (a::u64) + n < 2 ^ 64 \<Longrightarrow> unat (a + of_nat n) = unat a + n"
  by (simp add: unat_word_ariths)

lemma unat_minus: "(a::u64) \<le> b \<Longrightarrow> unat (b - a) = unat b - unat a"
  by (rule unat_sub)

lemma unat_minus_Suc:
  assumes "(a::u64) < b"
  shows "unat (b - a - 1) = unat b - unat a - 1"
proof -
  have "unat (b - a) = unat b - unat a" using assms by (simp add: unat_minus)
  moreover have "1 \<le> b - a" using assms by (simp add: word_le_nat_alt unat_minus word_less_nat_alt)
  ultimately show ?thesis by (simp add: unat_minus)
qed

lemma last_index:
  "log_bound s \<Longrightarrow> unat (fst (lastLogLocked s)) = unat (SnapshotIndex s) + length (Entries s)"
  by (auto simp: lastLogLocked_def log_bound_def unat_add_small)

lemma termAtLocked_iff:
  assumes "log_bound s"
  shows "termAtLocked s i = Inr t \<longleftrightarrow>
    (unat i = unat (SnapshotIndex s) \<and> t = SnapshotTerm s
     \<or> unat (SnapshotIndex s) < unat i \<and> unat i \<le> unat (SnapshotIndex s) + length (Entries s)
        \<and> t = Term (Entries s ! (unat i - unat (SnapshotIndex s) - 1)))"
  using assms unat_minus_Suc [of "SnapshotIndex s" i]
  by (auto simp: termAtLocked_def unat_add_small log_bound_def word_less_nat_alt not_less
      word_unat_eq_iff)

subsection \<open>The committed prefix and its replay\<close>

definition committed :: "raftPersistentState \<Rightarrow> MetadataCommand list" where
  "committed s = map Command (take (unat (CommitIndex s) - unat (SnapshotIndex s)) (Entries s))"

definition entry_ok :: "RaftEntry \<Rightarrow> bool" where
  "entry_ok e = is_ok (validateRaftEntry e)"

lemma entry_ok_iff: "entry_ok e \<longleftrightarrow> validateRaftEntry e = Inr ()"
  by (auto simp: entry_ok_def is_ok_def split: sum.splits)

text \<open>What the applied state must satisfy on its own.\<close>

definition applied_ok :: "u64 \<Rightarrow> applied \<Rightarrow> bool" where
  "applied_ok b a \<longleftrightarrow>
     b \<le> appliedEpoch a \<and> (appliedEpoch a = b \<longleftrightarrow> committedView a = None)
     \<and> (\<forall>v. committedView a = Some v \<longrightarrow> validView v)
     \<and> (voters a \<noteq> [] \<longrightarrow> canonicalVoters (voters a))
     \<and> (jointOld a = [] \<and> jointNew a = []
        \<or> canonicalVoters (jointOld a) \<and> canonicalVoters (jointNew a) \<and> voters a = jointOld a)"

text \<open>The applied state and the state replayed from the snapshot agree.\<close>

definition replay_rel :: "applied \<Rightarrow> applied \<Rightarrow> bool" where
  "replay_rel a p \<longleftrightarrow>
     appliedEpoch p = appliedEpoch a \<and> committedView p = committedView a
     \<and> jointOld p = jointOld a \<and> jointNew p = jointNew a
     \<and> (voters p = [] \<or> voters p = voters a)"

definition raft_wf :: "u64 \<Rightarrow> raftPersistentState \<Rightarrow> bool" where
  "raft_wf b s \<longleftrightarrow>
     Format s = 1 \<and> b \<noteq> 0 \<and> log_bound s
     \<and> unat (SnapshotIndex s) \<le> unat (CommitIndex s)
     \<and> unat (CommitIndex s) \<le> unat (SnapshotIndex s) + length (Entries s)
     \<and> (SnapshotIndex s = 0 \<longleftrightarrow> SnapshotTerm s = 0)
     \<and> applied_ok b (replayStart s) \<and> applied_ok b (appliedOf s)
     \<and> list_all entry_ok (Entries s)
     \<and> (\<exists>p. foldR replayCommand (committed s) (replayStart s) = Inr p \<and> replay_rel (appliedOf s) p)"

lemma replayLoop_iff:
  assumes "unat (SnapshotIndex s) + i + length es < 2 ^ 64"
  shows "replayLoop s i es a = Inr a' \<longleftrightarrow>
    list_all entry_ok es
    \<and> foldR replayCommand
        (map Command (take (unat (CommitIndex s) - unat (SnapshotIndex s) - i) es)) a = Inr a'"
  using assms
proof (induction es arbitrary: i a)
  case (Cons e es)
  have "unat (SnapshotIndex s + (of_nat i + 1)) = unat (SnapshotIndex s) + (i + 1)"
    using Cons.prems unat_add_small [of "SnapshotIndex s" "i + 1"] by (simp add: add.commute)
  then have le: "SnapshotIndex s + of_nat i + 1 \<le> CommitIndex s \<longleftrightarrow>
      unat (CommitIndex s) - unat (SnapshotIndex s) - i \<noteq> 0"
    by (simp add: word_le_nat_alt add.assoc) linarith
  have IH: "replayLoop s (Suc i) es x = Inr a' \<longleftrightarrow> list_all entry_ok es
    \<and> foldR replayCommand
        (map Command (take (unat (CommitIndex s) - unat (SnapshotIndex s) - Suc i) es)) x = Inr a'" for x
    using Cons.IH [of "Suc i" x] Cons.prems by simp
  show ?case
  proof (cases "unat (CommitIndex s) - unat (SnapshotIndex s) - i")
    case 0
    then show ?thesis using IH le
      by (auto simp: and_then_Inr_iff Let_def entry_ok_iff [of e])
  next
    case (Suc k)
    then have "unat (CommitIndex s) - unat (SnapshotIndex s) - Suc i = k" by simp
    then show ?thesis using IH le Suc
      by (auto simp: and_then_Inr_iff Let_def entry_ok_iff [of e])
  qed
qed simp

lemma replayLoop_committed:
  "log_bound s \<Longrightarrow> replayLoop s 0 (Entries s) a = Inr a' \<longleftrightarrow>
    list_all entry_ok (Entries s) \<and> foldR replayCommand (committed s) a = Inr a'"
  using replayLoop_iff [of s 0 "Entries s" a a'] by (simp add: log_bound_def committed_def)

subsection \<open>One committed command\<close>

lemma entry_ok_cases:
  assumes "entry_ok e"
  obtains (advance) "Type (Command e) = ''advance_epoch''" "Epoch (Command e) \<noteq> 0"
      "validView (commandView (Command e))"
  | (joint) "Type (Command e) = ''begin_joint_consensus''" "jointCommandOk (Command e)"
  | (finalize) "Type (Command e) = ''finalize_joint_consensus''" "Epoch (Command e) \<noteq> 0"
      "jointCommandOk (Command e)" "validView (commandView (Command e))"
  using assms
  by (cases "Epoch (Command e) = 0")
    (auto simp: entry_ok_iff validateRaftEntry_def Let_def split: if_splits)

lemma word_Suc_gt: "(x::u64) + 1 \<noteq> 0 \<Longrightarrow> x < x + 1"
  by (metis add_neg_numeral_special(8) inc_less_eq_self_iff_eq verit_comp_simplify1(3))

lemma replay_simulates:
  assumes "applyCommand (Command e) a = Inr a'" and "entry_ok e" and "replay_rel a p"
  shows "\<exists>p'. replayCommand (Command e) p = Inr p' \<and> replay_rel a' p'"
  using assms(2)
  by (cases rule: entry_ok_cases)
    (use assms(1,3) in \<open>auto simp: applyCommand_def replayCommand_def replay_rel_def Let_def
        split: if_splits\<close>)

lemma applyCommand_ok:
  assumes "applyCommand (Command e) a = Inr a'" and "entry_ok e" and "applied_ok b a"
  shows "applied_ok b a' \<and> appliedEpoch a \<le> appliedEpoch a'"
  using assms(2)
proof (cases rule: entry_ok_cases)
  case advance
  then show ?thesis using assms(1,3) word_Suc_gt [of "appliedEpoch a"]
    by (auto simp: applyCommand_def applied_ok_def split: if_splits)
next
  case joint
  then show ?thesis using assms(1,3)
    by (auto simp: applyCommand_def applied_ok_def jointCommandOk_iff Let_def split: if_splits)
next
  case finalize
  then show ?thesis using assms(1,3) word_Suc_gt [of "appliedEpoch a"]
    by (auto simp: applyCommand_def applied_ok_def jointCommandOk_iff Let_def split: if_splits)
qed

subsection \<open>The invariant is what reopening checks\<close>

lemma replay_ok:
  assumes "foldR replayCommand (map Command es) a = Inr p" and "list_all entry_ok es"
    and "applied_ok b a"
  shows "applied_ok b p"
proof (rule foldR_inv [where P = "applied_ok b", OF assms(1) assms(3)])
  fix c x y
  assume "c \<in> set (map Command es)" and x: "applied_ok b x" "replayCommand c x = Inr y"
  then obtain e where e: "c = Command e" "entry_ok e" using assms(2) by (auto simp: list_all_iff)
  from e(2) show "applied_ok b y"
    by (cases rule: entry_ok_cases)
      (use x e(1) word_Suc_gt [of "appliedEpoch x"] in
        \<open>auto simp: replayCommand_def applied_ok_def jointCommandOk_iff split: if_splits\<close>)
qed

lemma committed_ok: "list_all entry_ok (Entries s) \<Longrightarrow> list_all entry_ok (take k (Entries s))"
  by (auto simp: list_all_iff dest: in_set_takeD)

lemma replayed_config_ok:
  assumes "foldR replayCommand (committed s) (replayStart s) = Inr p"
    and "list_all entry_ok (Entries s)" and "applied_ok b (replayStart s)"
  shows "applied_ok b p"
  using replay_ok [of "take (unat (CommitIndex s) - unat (SnapshotIndex s)) (Entries s)"]
    committed_ok [OF assms(2)] assms(1,3) by (simp add: committed_def)

lemma validateReplay_result:
  "validateReplay s a = Inr s' \<Longrightarrow> SnapshotEpoch s' = SnapshotEpoch s
     \<and> CurrentTerm s' = CurrentTerm s \<and> VotedFor s' = VotedFor s"
  by (auto simp: validateReplay_def split: if_splits option.splits)

lemma validateReplay_same: "validateReplay s a = Inr s \<longleftrightarrow> replay_rel (appliedOf s) a"
proof -
  have "(case (committedView a, CommittedView s) of
          (None, None) \<Rightarrow> Inr s
        | (None, Some _) \<Rightarrow> Inl e1
        | (Some v, None) \<Rightarrow> Inr (s\<lparr>CommittedView := Some v\<rparr>)
        | (Some v, Some w) \<Rightarrow> if v \<noteq> w then Inl e2 else Inr s) = (Inr s :: _ result)
      \<longleftrightarrow> committedView a = CommittedView s" for e1 e2
    by (auto split: option.splits dest: arg_cong [where f = CommittedView])
  then show ?thesis
    unfolding validateReplay_def if_Inl_iff by (auto simp: replay_rel_def appliedOf_def)
qed

lemma validateLocked_result:
  assumes "validateLocked b s = Inr s'"
  shows "SnapshotEpoch s' = (if SnapshotEpoch s = 0 \<and> SnapshotIndex s = 0 then b else SnapshotEpoch s)
    \<and> CurrentTerm s' = CurrentTerm s \<and> VotedFor s' = VotedFor s"
proof -
  let ?s = "if SnapshotEpoch s = 0 \<and> SnapshotIndex s = 0 then s\<lparr>SnapshotEpoch := b\<rparr> else s"
  obtain a where "validateReplay ?s a = Inr s'"
    using assms unfolding validateLocked_def Let_def if_Inl_iff and_then_Inr_iff by blast
  then show ?thesis using validateReplay_result [of ?s a s'] by (simp split: if_splits)
qed

lemma validateLocked_cond:
  assumes "log_bound s" and "b \<noteq> 0"
  shows "validateLocked b s = Inr s \<longleftrightarrow>
    Format s = 1 \<and> b \<le> AppliedEpoch s \<and> b \<le> SnapshotEpoch s
    \<and> unat (SnapshotIndex s) \<le> unat (CommitIndex s)
    \<and> unat (CommitIndex s) \<le> unat (SnapshotIndex s) + length (Entries s)
    \<and> (SnapshotIndex s = 0 \<longleftrightarrow> SnapshotTerm s = 0)
    \<and> (SnapshotEpoch s = b \<longleftrightarrow> SnapshotView s = None)
    \<and> (\<forall>v. SnapshotView s = Some v \<longrightarrow> validView v)
    \<and> (Voters s \<noteq> [] \<longrightarrow> canonicalVoters (Voters s))
    \<and> (JointOldVoters s = [] \<and> JointNewVoters s = []
       \<or> canonicalVoters (JointOldVoters s) \<and> canonicalVoters (JointNewVoters s)
          \<and> Voters s = JointOldVoters s)
    \<and> list_all entry_ok (Entries s)
    \<and> (\<exists>p. foldR replayCommand (committed s) (replayStart s) = Inr p \<and> replay_rel (appliedOf s) p)"
    (is "_ \<longleftrightarrow> ?C")
proof (cases "SnapshotEpoch s = 0 \<and> SnapshotIndex s = 0")
  case True
  then have "validateLocked b s = Inr s' \<Longrightarrow> SnapshotEpoch s' = b" for s'
    using validateLocked_result [of b s s'] by auto
  then have "validateLocked b s \<noteq> Inr s" using True assms(2) by auto
  moreover have "\<not> ?C" using True assms(2) by (auto simp: word_le_nat_alt unat_eq_zero)
  ultimately show ?thesis by blast
next
  case False
  have head: "\<not> (Format s \<noteq> 1 \<or> AppliedEpoch s < b \<or> CommitIndex s < SnapshotIndex s
       \<or> CommitIndex s > fst (lastLogLocked s) \<or> SnapshotEpoch s < b)
    \<longleftrightarrow> Format s = 1 \<and> b \<le> AppliedEpoch s \<and> b \<le> SnapshotEpoch s
       \<and> unat (SnapshotIndex s) \<le> unat (CommitIndex s)
       \<and> unat (CommitIndex s) \<le> unat (SnapshotIndex s) + length (Entries s)"
    by (auto simp: word_less_nat_alt word_le_nat_alt last_index [OF assms(1)])
  have bnd: "\<not> (SnapshotIndex s = 0 \<and> SnapshotTerm s \<noteq> 0 \<or> SnapshotIndex s > 0 \<and> SnapshotTerm s = 0)
    \<longleftrightarrow> (SnapshotIndex s = 0 \<longleftrightarrow> SnapshotTerm s = 0)"
    by (auto simp: word_gt_0)
  have meta: "b \<le> SnapshotEpoch s \<Longrightarrow> \<not> (SnapshotEpoch s = b \<and> SnapshotView s \<noteq> None
       \<or> SnapshotEpoch s > b \<and> SnapshotView s = None)
    \<longleftrightarrow> (SnapshotEpoch s = b \<longleftrightarrow> SnapshotView s = None)"
    by auto
  have view: "\<not> (case SnapshotView s of None \<Rightarrow> False | Some v \<Rightarrow> \<not> validView v)
    \<longleftrightarrow> (\<forall>v. SnapshotView s = Some v \<longrightarrow> validView v)"
    by (auto split: option.splits)
  have joint: "\<not> ((length (JointOldVoters s) \<noteq> 0 \<or> length (JointNewVoters s) \<noteq> 0)
       \<and> (\<not> canonicalVoters (JointOldVoters s) \<or> \<not> canonicalVoters (JointNewVoters s)
           \<or> \<not> equalStrings (Voters s) (JointOldVoters s)))
    \<longleftrightarrow> (JointOldVoters s = [] \<and> JointNewVoters s = []
       \<or> canonicalVoters (JointOldVoters s) \<and> canonicalVoters (JointNewVoters s)
          \<and> Voters s = JointOldVoters s)"
    by auto
  show ?thesis
    unfolding validateLocked_def Let_def if_not_P [OF False] if_Inl_iff and_then_Inr_iff
      replayLoop_committed [OF assms(1)] head bnd view joint validateReplay_same
    using meta by auto
qed

lemma applied_ok_start:
  "applied_ok b (replayStart s) \<longleftrightarrow> b \<le> SnapshotEpoch s
     \<and> (SnapshotEpoch s = b \<longleftrightarrow> SnapshotView s = None) \<and> (\<forall>v. SnapshotView s = Some v \<longrightarrow> validView v)"
  by (simp add: applied_ok_def replayStart_def)

lemma validateLocked_iff:
  assumes "log_bound s" and "b \<noteq> 0"
  shows "validateLocked b s = Inr s \<longleftrightarrow> raft_wf b s"
proof
  assume v: "validateLocked b s = Inr s"
  note c = v [unfolded validateLocked_cond [OF assms]]
  then obtain p where p: "foldR replayCommand (committed s) (replayStart s) = Inr p"
    "replay_rel (appliedOf s) p" by blast
  have st: "applied_ok b (replayStart s)" using c by (simp add: applied_ok_start)
  have "applied_ok b p" using replayed_config_ok [OF p(1) _ st] c by simp
  then have "applied_ok b (appliedOf s)" using p(2) c
    by (simp add: applied_ok_def replay_rel_def appliedOf_def)
  then show "raft_wf b s" using c p st assms by (simp add: raft_wf_def)
next
  assume w: "raft_wf b s"
  then have "applied_ok b (appliedOf s)" by (simp add: raft_wf_def)
  then show "validateLocked b s = Inr s"
    unfolding validateLocked_cond [OF assms] using w
    by (simp add: raft_wf_def applied_ok_start) (simp add: applied_ok_def appliedOf_def)
qed

subsection \<open>Applying through an index\<close>

lemma applyLoop_fold:
  assumes "unat (SnapshotIndex s) \<le> unat c" and "unat c \<le> unat target"
    and "unat target \<le> unat (SnapshotIndex s) + length (Entries s)"
  shows "applyLoop s target c a =
    and_then (foldR applyCommand (map Command (take (unat target - unat c)
       (drop (unat c - unat (SnapshotIndex s)) (Entries s)))) a) (\<lambda>a'. Inr (target, a'))"
  using assms
proof (induction s target c a rule: applyLoop.induct)
  case (1 s target c a)
  show ?case
  proof (cases "c < target")
    case True
    let ?k = "unat c - unat (SnapshotIndex s)"
    have lt: "unat c < unat target" using True by (simp add: word_less_nat_alt)
    then have k: "?k < length (Entries s)" using 1(2,4) by linarith
    have off: "unat (c - SnapshotIndex s) = ?k" using 1(2) by (simp add: unat_minus word_le_nat_alt)
    have S: "unat (c + 1) = unat c + 1" by (rule unat_Suc_less [OF True])
    obtain m where m: "unat target - unat c = Suc m" using lt by (metis Suc_diff_Suc)
    have "take (unat target - unat c) (drop ?k (Entries s)) =
        Entries s ! ?k # take (unat target - unat (c + 1)) (drop (unat (c + 1) - unat (SnapshotIndex s)) (Entries s))"
      using m S k 1(2) Suc_diff_Suc [OF lt] by (simp flip: Cons_nth_drop_Suc add: Suc_diff_le)
    then show ?thesis
      using 1(1) [OF True refl] k off S lt 1(2,4)
      by (subst applyLoop.simps) (auto simp: True Let_def and_then_def split: sum.splits)
  next
    case False
    then have "c = target" using 1(3) by (simp add: word_less_nat_alt word_unat_eq_iff)
    then show ?thesis by (subst applyLoop.simps) simp
  qed
qed

lemma apply_fold_ok:
  assumes "foldR applyCommand (map Command es) a = Inr a'" and "list_all entry_ok es"
    and "replay_rel a p" and "applied_ok b a"
  shows "\<exists>p'. foldR replayCommand (map Command es) p = Inr p' \<and> replay_rel a' p'
    \<and> applied_ok b a' \<and> appliedEpoch a \<le> appliedEpoch a'"
  using assms
proof (induction es arbitrary: a p)
  case (Cons e es)
  then obtain a1 where a1: "applyCommand (Command e) a = Inr a1"
    "foldR applyCommand (map Command es) a1 = Inr a'" by (auto simp: and_then_Inr_iff)
  obtain p1 where p1: "replayCommand (Command e) p = Inr p1" "replay_rel a1 p1"
    using replay_simulates [OF a1(1) _ Cons.prems(3)] Cons.prems(2) by auto
  have "applied_ok b a1" "appliedEpoch a \<le> appliedEpoch a1"
    using applyCommand_ok [OF a1(1) _ Cons.prems(4)] Cons.prems(2) by auto
  then show ?case using Cons.IH [OF a1(2) _ p1(2)] Cons.prems(2) p1(1) by fastforce
qed simp

lemma applyThroughLocked_noop:
  "target \<le> CommitIndex s \<Longrightarrow> applyThroughLocked s target = Inr s"
  by (simp add: applyThroughLocked_def appliedOf_def applyLoop.simps leD)

definition with_applied :: "raftPersistentState \<Rightarrow> u64 \<Rightarrow> applied \<Rightarrow> raftPersistentState" where
  "with_applied s c a =
     s\<lparr>CommitIndex := c, AppliedEpoch := appliedEpoch a, CommittedView := committedView a,
       Voters := voters a, JointOldVoters := jointOld a, JointNewVoters := jointNew a\<rparr>"

lemma with_applied_same: "with_applied s (CommitIndex s) (appliedOf s) = s"
  by (simp add: with_applied_def appliedOf_def)

lemma with_applied_simps [simp]:
  "CommitIndex (with_applied s c a) = c" "Entries (with_applied s c a) = Entries s"
  "SnapshotIndex (with_applied s c a) = SnapshotIndex s" "SnapshotTerm (with_applied s c a) = SnapshotTerm s"
  "CurrentTerm (with_applied s c a) = CurrentTerm s" "VotedFor (with_applied s c a) = VotedFor s"
  "Format (with_applied s c a) = Format s" "replayStart (with_applied s c a) = replayStart s"
  "appliedOf (with_applied s c a) = a" "log_bound (with_applied s c a) = log_bound s"
  "AppliedEpoch (with_applied s c a) = appliedEpoch a"
  by (simp_all add: with_applied_def replayStart_def appliedOf_def log_bound_def)

lemma committed_with_applied:
  assumes "unat (SnapshotIndex s) \<le> unat (CommitIndex s)" "unat (CommitIndex s) \<le> unat c"
  shows "committed (with_applied s c a) = committed s @ map Command (take (unat c - unat (CommitIndex s))
     (drop (unat (CommitIndex s) - unat (SnapshotIndex s)) (Entries s)))"
proof -
  have "unat c - unat (SnapshotIndex s) = (unat (CommitIndex s) - unat (SnapshotIndex s))
      + (unat c - unat (CommitIndex s))" using assms by linarith
  then show ?thesis by (simp add: committed_def take_add)
qed

lemma applyThroughLocked_fold:
  assumes "unat (SnapshotIndex s) \<le> unat (CommitIndex s)" "unat (CommitIndex s) \<le> unat target"
    and "unat target \<le> unat (SnapshotIndex s) + length (Entries s)"
  shows "applyThroughLocked s target =
    and_then (foldR applyCommand (map Command (take (unat target - unat (CommitIndex s))
       (drop (unat (CommitIndex s) - unat (SnapshotIndex s)) (Entries s)))) (appliedOf s))
      (\<lambda>a. Inr (with_applied s target a))"
  by (auto simp: applyThroughLocked_def applyLoop_fold [OF assms] with_applied_def and_then_def
      split: sum.splits)

lemma applyThroughLocked_wf:
  assumes wf: "raft_wf b s" and t: "unat target \<le> unat (SnapshotIndex s) + length (Entries s)"
    and ap: "applyThroughLocked s target = Inr s'"
  obtains a c where "s' = with_applied s c a" "raft_wf b s'"
    "unat c = max (unat (CommitIndex s)) (unat target)" "AppliedEpoch s \<le> AppliedEpoch s'"
proof (cases "target \<le> CommitIndex s")
  case True
  then have "s' = s" using ap applyThroughLocked_noop by simp
  then show ?thesis using that [of "CommitIndex s" "appliedOf s"] wf True
    by (simp add: with_applied_same word_le_nat_alt max_def)
next
  case False
  let ?es = "take (unat target - unat (CommitIndex s))
      (drop (unat (CommitIndex s) - unat (SnapshotIndex s)) (Entries s))"
  have c: "unat (SnapshotIndex s) \<le> unat (CommitIndex s)" "unat (CommitIndex s) \<le> unat target"
    using wf False by (auto simp: raft_wf_def word_le_nat_alt)
  obtain a where a: "foldR applyCommand (map Command ?es) (appliedOf s) = Inr a"
    and s': "s' = with_applied s target a"
    using ap by (auto simp: applyThroughLocked_fold [OF c t] and_then_Inr_iff)
  obtain p where p: "foldR replayCommand (committed s) (replayStart s) = Inr p"
    "replay_rel (appliedOf s) p" using wf by (auto simp: raft_wf_def)
  have ok: "list_all entry_ok ?es" "applied_ok b (appliedOf s)"
    using wf by (auto simp: raft_wf_def list_all_iff dest!: in_set_takeD in_set_dropD)
  obtain p' where p': "foldR replayCommand (map Command ?es) p = Inr p'" "replay_rel a p'"
    "applied_ok b a" "AppliedEpoch s \<le> appliedEpoch a"
    using apply_fold_ok [OF a ok(1) p(2) ok(2)] by (auto simp: appliedOf_def)
  have "raft_wf b s'" using wf c t p p'
    by (simp add: raft_wf_def s' committed_with_applied [OF c])
  then show ?thesis using that [OF s'] c p' by (simp add: s')
qed

end
