(* ===== verification/Raft_Ops.thy ===== *)
theory Raft_Ops
  imports Raft_Invariant
begin

text \<open>
  The operations of the Raft store preserve its invariant, the reference definition of the log
  merge of \<open>AppendEntries\<close>, and the store as a transition system with crashes.
\<close>

subsection \<open>Persistence\<close>

lemma persist_then_simps [simp]:
  "fst (persist_then io r x) = (if io = IO_ok then Inr x else Inl ErrIO)"
  "state (snd (persist_then io r x)) = state r"
  "nodeID (snd (persist_then io r x)) = nodeID r"
  "disk (snd (persist_then io r x)) = (if io = IO_failed then disk r else Some (state r))"
  by (cases io; simp add: persist_then_def persistLocked_def)+

lemma set_state_simps [simp]:
  "state (set_state r s) = s" "nodeID (set_state r s) = nodeID r" "disk (set_state r s) = disk r"
  by (simp_all add: set_state_def)

lemma set_state_same [simp]: "set_state r (state r) = r"
  by (simp add: set_state_def)

subsection \<open>Term and vote changes\<close>

lemma raft_wf_term [simp]:
  "raft_wf b (s\<lparr>CurrentTerm := t\<rparr>) = raft_wf b s"
  "raft_wf b (s\<lparr>VotedFor := v\<rparr>) = raft_wf b s"
  by (simp_all add: raft_wf_def log_bound_def committed_def replayStart_def appliedOf_def)

lemma lastLog_term [simp]:
  "lastLogLocked (s\<lparr>CurrentTerm := t\<rparr>) = lastLogLocked s"
  "lastLogLocked (s\<lparr>VotedFor := v\<rparr>) = lastLogLocked s"
  by (simp_all add: lastLogLocked_def)

subsection \<open>The log merge of AppendEntries\<close>

text \<open>
  Reference: keep the entries whose terms agree with the received ones; at the first conflict drop
  the rest of the log and take the received entries from there.
\<close>

fun common_terms :: "RaftEntry list \<Rightarrow> RaftEntry list \<Rightarrow> nat" where
  "common_terms (x # xs) (e # es) = (if Term x = Term e then Suc (common_terms xs es) else 0)"
| "common_terms _ _ = 0"

definition merge_log :: "nat \<Rightarrow> RaftEntry list \<Rightarrow> RaftEntry list \<Rightarrow> RaftEntry list" where
  "merge_log at log es =
     (let m = common_terms (drop at log) es in
      if m = length es then log else take (at + m) log @ drop m es)"

text \<open>One iteration of the loop at list offset \<open>b\<close>.\<close>

lemma appendLoop_Cons:
  assumes "unat prev + off + 1 < 2 ^ 64" and "unat (SnapshotIndex s) \<le> unat prev + off"
    and "unat prev + off \<le> unat (SnapshotIndex s) + length (Entries s)" and "log_bound s"
  defines "b \<equiv> unat prev + off - unat (SnapshotIndex s)"
  shows "appendLoop prev off s (e # es) =
    (if b < length (Entries s) \<and> Term (Entries s ! b) = Term e then appendLoop prev (Suc off) s es
     else if b < length (Entries s) \<and> unat prev + off + 1 \<le> unat (CommitIndex s)
     then (Inl (ErrMsg ''refusing to overwrite committed entry''), s)
     else case validateRaftEntry e of
        Inl x \<Rightarrow> (Inl x, s\<lparr>Entries := take b (Entries s)\<rparr>)
      | Inr _ \<Rightarrow> appendLoop prev (Suc off) (s\<lparr>Entries := take b (Entries s) @ [e]\<rparr>) es)"
proof -
  let ?i = "prev + of_nat off + 1"
  have ui: "unat ?i = unat prev + off + 1"
    using unat_add_small [of prev "off + 1"] assms(1) by (simp add: add.commute add.left_commute)
  have gt: "SnapshotIndex s < ?i" using ui assms(2) by (simp add: word_less_nat_alt)
  have ub: "unat (?i - SnapshotIndex s - 1) = b"
    using unat_minus_Suc [OF gt] ui assms(2) by (simp add: b_def)
  have less: "?i - SnapshotIndex s - 1 < of_nat (length (Entries s)) \<longleftrightarrow> b < length (Entries s)"
    using ub assms(4) by (simp add: word_less_nat_alt log_bound_def)
  have cm: "?i \<le> CommitIndex s \<longleftrightarrow> unat prev + off + 1 \<le> unat (CommitIndex s)"
    using ui by (simp add: word_le_nat_alt)
  have ngt: "(?i \<le> SnapshotIndex s) = False" using gt by auto
  show ?thesis
    unfolding appendLoop.simps Let_def ngt if_False less ub cm
    by (cases "b < length (Entries s)") (simp_all split: sum.splits)
qed

lemma appendLoop_inv:
  assumes "appendLoop prev off s es = (res, s')" and "unat prev + off + length es < 2 ^ 64"
    and "unat (SnapshotIndex s) \<le> unat prev + off"
    and "unat prev + off \<le> unat (SnapshotIndex s) + length (Entries s)" and "log_bound s"
    and "unat (CommitIndex s) \<le> unat (SnapshotIndex s) + length (Entries s)"
    and "list_all entry_ok (Entries s)"
  shows "\<exists>xs. s' = s\<lparr>Entries := xs\<rparr> \<and> list_all entry_ok xs
    \<and> unat (SnapshotIndex s) + length xs
        \<le> max (unat (SnapshotIndex s) + length (Entries s)) (unat prev + off + length es)
    \<and> unat (CommitIndex s) \<le> unat (SnapshotIndex s) + length xs
    \<and> (\<forall>k. k \<le> unat (CommitIndex s) - unat (SnapshotIndex s) \<longrightarrow> take k xs = take k (Entries s))"
  using assms
proof (induction es arbitrary: off s)
  case Nil
  then show ?case by (auto intro!: exI [of _ "Entries s"])
next
  case (Cons e es)
  let ?n = "unat (SnapshotIndex s)" and ?b = "unat prev + off - unat (SnapshotIndex s)"
  note step = appendLoop_Cons [of prev off s e es]
  have pre: "unat prev + off + 1 < 2 ^ 64" using Cons.prems(2) by simp
  show ?case
  proof (cases "?b < length (Entries s) \<and> Term (Entries s ! ?b) = Term e")
    case True
    then have "appendLoop prev (Suc off) s es = (res, s')"
      using Cons.prems(1) step [OF pre Cons.prems(3-5)] by simp
    from Cons.IH [OF this] show ?thesis using True Cons.prems(2-7) by auto
  next
    case F: False
    show ?thesis
    proof (cases "?b < length (Entries s) \<and> unat prev + off + 1 \<le> unat (CommitIndex s)")
      case True
      then have "s' = s" using Cons.prems(1) step [OF pre Cons.prems(3-5)] F by auto
      then show ?thesis using Cons.prems(6,7) by (auto intro!: exI [of _ "Entries s"])
    next
      case False
      have cb: "unat (CommitIndex s) - ?n \<le> ?b" using False Cons.prems(4,6) by linarith
      have cc: "unat (CommitIndex s) \<le> unat prev + off" using cb Cons.prems(3) by linarith
      have ok: "list_all entry_ok (take ?b (Entries s))" by (rule committed_ok [OF Cons.prems(7)])
      show ?thesis
      proof (cases "validateRaftEntry e")
        case (Inl x)
        then have "s' = s\<lparr>Entries := take ?b (Entries s)\<rparr>"
          using Cons.prems(1) step [OF pre Cons.prems(3-5)] F False by auto
        then show ?thesis using cb ok Cons.prems(3,4,6)
          by (auto intro!: exI [of _ "take ?b (Entries s)"] simp: min_def)
      next
        case (Inr u)
        then have eok: "entry_ok e" by (simp add: entry_ok_iff)
        let ?s = "s\<lparr>Entries := take ?b (Entries s) @ [e]\<rparr>"
        have "appendLoop prev (Suc off) ?s es = (res, s')"
          using Cons.prems(1) step [OF pre Cons.prems(3-5)] F False Inr by auto
        from Cons.IH [OF this] obtain xs where "s' = ?s\<lparr>Entries := xs\<rparr>" "list_all entry_ok xs"
          "?n + length xs \<le> max (?n + Suc ?b) (unat prev + Suc off + length es)"
          "unat (CommitIndex s) \<le> ?n + length xs"
          "\<forall>k. k \<le> unat (CommitIndex s) - ?n \<longrightarrow> take k xs = take k (take ?b (Entries s) @ [e])"
          using eok ok cb cc Cons.prems(2-4) by (auto simp: log_bound_def)
        then show ?thesis using cb Cons.prems(3,4)
          by (auto intro!: exI [of _ xs] simp: min_def)
      qed
    qed
  qed
qed

lemma merge_log_match:
  assumes "b < length log" and "Term (log ! b) = Term e"
  shows "merge_log b log (e # es) = merge_log (Suc b) log es"
  using assms by (simp add: merge_log_def Let_def flip: Cons_nth_drop_Suc)

lemma merge_log_conflict:
  assumes "b \<le> length log" and "\<not> (b < length log \<and> Term (log ! b) = Term e)"
  shows "merge_log b log (e # es) = take b log @ e # es"
proof -
  have "common_terms (drop b log) (e # es) = 0"
    using assms by (cases "b < length log") (auto simp flip: Cons_nth_drop_Suc)
  then show ?thesis by (simp add: merge_log_def)
qed

lemma merge_log_end: "merge_log (length log) log es = log @ es"
  by (simp add: merge_log_def)

lemma appendLoop_merge:
  assumes "appendLoop prev off s es = (Inr (), s')" and "unat prev + off + length es < 2 ^ 64"
    and "unat (SnapshotIndex s) \<le> unat prev + off"
    and "unat prev + off \<le> unat (SnapshotIndex s) + length (Entries s)" and "log_bound s"
  shows "s' = s\<lparr>Entries := merge_log (unat prev + off - unat (SnapshotIndex s)) (Entries s) es\<rparr>"
  using assms
proof (induction es arbitrary: off s)
  case Nil
  then show ?case by (simp add: merge_log_def)
next
  case (Cons e es)
  let ?b = "unat prev + off - unat (SnapshotIndex s)"
  have pre: "unat prev + off + 1 < 2 ^ 64" using Cons.prems(2) by simp
  note step = appendLoop_Cons [OF pre Cons.prems(3-5), of e es]
  have Sb: "unat prev + Suc off - unat (SnapshotIndex s) = Suc ?b" using Cons.prems(3) by simp
  show ?case
  proof (cases "?b < length (Entries s) \<and> Term (Entries s ! ?b) = Term e")
    case True
    then have "appendLoop prev (Suc off) s es = (Inr (), s')" using Cons.prems(1) step by simp
    moreover have "unat prev + Suc off \<le> unat (SnapshotIndex s) + length (Entries s)"
      using True Cons.prems(3) by linarith
    ultimately show ?thesis using Cons.IH [of "Suc off" s] True Cons.prems(2,3,5) Sb
      by (simp add: merge_log_match)
  next
    case False
    let ?s = "s\<lparr>Entries := take ?b (Entries s) @ [e]\<rparr>"
    have le: "?b \<le> length (Entries s)" using Cons.prems(4) by simp
    have "appendLoop prev (Suc off) ?s es = (Inr (), s')"
      using Cons.prems(1) step False by (auto split: if_splits sum.splits)
    from Cons.IH [OF this]
    have "s' = s\<lparr>Entries := merge_log (Suc ?b) (take ?b (Entries s) @ [e]) es\<rparr>"
      using Cons.prems(2-5) Sb le by (simp add: log_bound_def)
    moreover have "length (take ?b (Entries s) @ [e]) = Suc ?b" using le by simp
    ultimately show ?thesis
      using merge_log_end [of "take ?b (Entries s) @ [e]" es] merge_log_conflict [OF le False] by simp
  qed
qed

subsection \<open>Every operation preserves the invariant\<close>

lemma ObserveTerm_wf: "raft_wf b (state r) \<Longrightarrow> raft_wf b (state (snd (ObserveTerm io r t)))"
  by (simp add: ObserveTerm_def)

lemma BeginElection_wf: "raft_wf b (state r) \<Longrightarrow> raft_wf b (state (snd (BeginElection io r)))"
  by (simp add: BeginElection_def Let_def split: prod.splits)

lemma RequestVote_wf: "raft_wf b (state r) \<Longrightarrow> raft_wf b (state (snd (RequestVote io r q)))"
  by (simp add: RequestVote_def Let_def split: prod.splits)

lemma raft_wf_voters:
  assumes "raft_wf b s" and "Voters s = []" and "canonicalVoters vs"
  shows "raft_wf b (s\<lparr>Voters := vs\<rparr>)"
proof -
  have "JointOldVoters s = []" using assms
    by (auto simp: raft_wf_def applied_ok_def appliedOf_def canonicalVoters_iff)
  then show ?thesis using assms
    by (auto simp: raft_wf_def log_bound_def committed_def replayStart_def appliedOf_def
        applied_ok_def replay_rel_def canonicalVoters_iff)
qed

lemma ConfigureVoters_wf: "raft_wf b (state r) \<Longrightarrow> raft_wf b (state (snd (ConfigureVoters io r vs)))"
  by (auto simp: ConfigureVoters_def dest!: normalizeVoters_canonical intro: raft_wf_voters
      split: sum.splits)

lemma raft_wf_entries:
  assumes "raft_wf b s" and "list_all entry_ok xs" and "unat (SnapshotIndex s) + length xs < 2 ^ 64"
    and "unat (CommitIndex s) \<le> unat (SnapshotIndex s) + length xs"
    and "take (unat (CommitIndex s) - unat (SnapshotIndex s)) xs =
         take (unat (CommitIndex s) - unat (SnapshotIndex s)) (Entries s)"
  shows "raft_wf b (s\<lparr>Entries := xs\<rparr>)"
  using assms by (simp add: raft_wf_def log_bound_def committed_def replayStart_def appliedOf_def)

lemma AppendCommand_wf:
  assumes "raft_wf b (state r)" and "unat (SnapshotIndex (state r)) + length (Entries (state r)) + 1 < 2 ^ 64"
  shows "raft_wf b (state (snd (AppendCommand io r t c)))"
proof -
  let ?s = "state r" and ?e = "\<lparr>Term = t, Command = c\<rparr>"
  have "raft_wf b (?s\<lparr>Entries := Entries ?s @ [?e]\<rparr>)" if "validateRaftEntry ?e = Inr u" for u
    using that assms by (intro raft_wf_entries) (auto simp: raft_wf_def entry_ok_iff)
  then show ?thesis using assms(1)
    by (auto simp: AppendCommand_def Let_def split: sum.splits)
qed

lemma commitEntry_wf: "raft_wf b (state r) \<Longrightarrow> raft_wf b (state (snd (commitEntry io r i t)))"
proof -
  assume w: "raft_wf b (state r)"
  then have "log_bound (state r)" by (simp add: raft_wf_def)
  then have "raft_wf b s1" if "termAtLocked (state r) i = Inr t" "applyThroughLocked (state r) i = Inr s1" for s1
    using that termAtLocked_iff [of "state r" i t] applyThroughLocked_wf [OF w _ that(2)] by fastforce
  then show ?thesis using w by (auto simp: commitEntry_def Let_def split: sum.splits)
qed

lemma CommitWithQuorum_wf:
  "raft_wf b (state r) \<Longrightarrow> raft_wf b (state (snd (CommitWithQuorum io r i t acks n)))"
  by (simp add: CommitWithQuorum_def commitEntry_wf)

lemma CommitWithVoterAcks_wf:
  "raft_wf b (state r) \<Longrightarrow> raft_wf b (state (snd (CommitWithVoterAcks io r i t acks)))"
  by (simp add: CommitWithVoterAcks_def Let_def commitEntry_wf)

lemma entry_ok_term: "entry_ok e \<Longrightarrow> Term e \<noteq> 0"
  by (auto simp: entry_ok_iff validateRaftEntry_def Let_def split: if_splits)

lemma applied_ok_stable:
  "applied_ok b a \<Longrightarrow> jointOld a = [] \<Longrightarrow> jointNew a = []"
  by (auto simp: applied_ok_def canonicalVoters_iff)

text \<open>A state whose whole committed log is in its snapshot.\<close>

lemma raft_wf_at_snapshot:
  assumes "raft_wf b s" and "SnapshotIndex s' \<noteq> 0" and "SnapshotTerm s' \<noteq> 0" and "Format s' = 1"
    and "CommitIndex s' = SnapshotIndex s'" and "log_bound s'" and "list_all entry_ok (Entries s')"
    and "SnapshotEpoch s' = AppliedEpoch s'" and "SnapshotView s' = CommittedView s'"
    and "JointOldVoters s' = []" and "applied_ok b (appliedOf s')"
  shows "raft_wf b s'"
proof -
  have "JointNewVoters s' = []" using applied_ok_stable [OF assms(11)] assms(10) by (simp add: appliedOf_def)
  then show ?thesis using assms
    by (simp add: raft_wf_def committed_def replay_rel_def applied_ok_start)
      (simp add: replayStart_def appliedOf_def applied_ok_def)
qed

lemma CompactCommitted_wf:
  assumes w: "raft_wf b (state r)"
  shows "raft_wf b (state (snd (CompactCommitted io r)))"
proof -
  let ?s = "state r"
  let ?n = "unat (CommitIndex ?s - SnapshotIndex ?s)"
  have lb: "log_bound ?s" and le: "unat (SnapshotIndex ?s) \<le> unat (CommitIndex ?s)"
    "unat (CommitIndex ?s) \<le> unat (SnapshotIndex ?s) + length (Entries ?s)"
    using w by (auto simp: raft_wf_def)
  have n: "?n = unat (CommitIndex ?s) - unat (SnapshotIndex ?s)"
    using le by (simp add: unat_minus word_le_nat_alt)
  have nz: "CommitIndex ?s \<noteq> SnapshotIndex ?s \<Longrightarrow> CommitIndex ?s \<noteq> 0"
    using le(1) by (auto simp: word_unat_eq_iff)
  have "raft_wf b (?s\<lparr>Entries := drop ?n (Entries ?s), SnapshotIndex := CommitIndex ?s,
      SnapshotTerm := t, SnapshotEpoch := AppliedEpoch ?s, SnapshotView := CommittedView ?s\<rparr>)"
    if "JointOldVoters ?s = []" "CommitIndex ?s \<noteq> SnapshotIndex ?s"
      "termAtLocked ?s (CommitIndex ?s) = Inr t" for t
  proof (rule raft_wf_at_snapshot [OF w])
    have lt: "unat (SnapshotIndex ?s) < unat (CommitIndex ?s)"
      using that(2) le(1) by (simp add: word_unat_eq_iff)
    then have "t = Term (Entries ?s ! (unat (CommitIndex ?s) - unat (SnapshotIndex ?s) - 1))"
      using that(3) termAtLocked_iff [OF lb] by auto
    then show "SnapshotTerm (?s\<lparr>Entries := drop ?n (Entries ?s), SnapshotIndex := CommitIndex ?s,
      SnapshotTerm := t, SnapshotEpoch := AppliedEpoch ?s, SnapshotView := CommittedView ?s\<rparr>) \<noteq> 0"
      using w lt le by (auto simp: raft_wf_def list_all_length intro!: entry_ok_term)
  qed (use w n le that nz in \<open>auto simp: raft_wf_def log_bound_def list_all_iff appliedOf_def
        dest: in_set_dropD\<close>)
  then show ?thesis using w by (auto simp: CompactCommitted_def Let_def split: sum.splits)
qed

lemma validSnapshotD:
  assumes "validSnapshot n sn"
  shows "canonicalVoters (sn_Voters sn)" and "LastIncludedIndex sn \<noteq> 0" and "LastIncludedTerm sn \<noteq> 0"
    and "1 \<le> sn_AppliedEpoch sn \<and> sn_AppliedEpoch sn \<noteq> 1"
    and "\<exists>v. sn_CommittedView sn = Some v \<and> validView v"
proof -
  have "\<not> e < 2 \<Longrightarrow> 1 \<le> e \<and> e \<noteq> 1" for e :: u64
    by (auto simp: word_le_nat_alt word_less_nat_alt)
  then show "1 \<le> sn_AppliedEpoch sn \<and> sn_AppliedEpoch sn \<noteq> 1" using assms by (simp add: validSnapshot_def)
qed (use assms in \<open>auto simp: validSnapshot_def dest!: normalizeVoters_canonical
      split: sum.splits option.splits\<close>)

lemma replaceBySnapshot_wf:
  assumes w: "raft_wf 1 s" and j: "JointOldVoters s = []" and v: "validSnapshot n sn"
  shows "raft_wf 1 (replaceBySnapshot s sn)"
proof (rule raft_wf_at_snapshot [OF w])
  have lb: "log_bound s" using w by (simp add: raft_wf_def)
  have "unat (LastIncludedIndex sn) < 2 ^ 64"
    using unsigned_less [where w = "LastIncludedIndex sn" and 'a = nat] by simp
  then show "log_bound (replaceBySnapshot s sn)"
    using lb termAtLocked_iff [OF lb, of "LastIncludedIndex sn" "LastIncludedTerm sn"]
    by (auto simp: replaceBySnapshot_def log_bound_def unat_minus word_le_nat_alt)
  have "JointNewVoters s = []" using applied_ok_stable [of 1 "appliedOf s"] j w
    by (simp add: raft_wf_def appliedOf_def)
  then show "applied_ok 1 (appliedOf (replaceBySnapshot s sn))" using j validSnapshotD [OF v]
    by (auto simp: replaceBySnapshot_def applied_ok_def appliedOf_def)
qed (use w j validSnapshotD [OF v] in \<open>auto simp: replaceBySnapshot_def raft_wf_def list_all_iff
      dest: in_set_dropD\<close>)

lemma InstallSnapshot_wf:
  assumes "raft_wf 1 (state r)" and "JointOldVoters (state r) = []"
  shows "raft_wf 1 (state (snd (InstallSnapshot io r q)))"
  using assms replaceBySnapshot_wf [of _ "nodeID r" "Snapshot q"]
  by (simp add: InstallSnapshot_def Let_def)

lemma AppendEntries_loop_wf:
  assumes w: "raft_wf b s" and room: "unat (SnapshotIndex s) + length (Entries s) + length es < 2 ^ 64"
    and p: "\<not> prev < SnapshotIndex s" "\<not> prev > fst (lastLogLocked s)"
    and l: "appendLoop prev 0 s es = (res, s')"
  shows "raft_wf b s'" and "\<exists>xs. s' = s\<lparr>Entries := xs\<rparr>" and "committed s' = committed s"
proof -
  have lb: "log_bound s" and cm: "unat (CommitIndex s) \<le> unat (SnapshotIndex s) + length (Entries s)"
    and ok: "list_all entry_ok (Entries s)" using w by (auto simp: raft_wf_def)
  have pv: "unat (SnapshotIndex s) \<le> unat prev + 0"
    "unat prev + 0 \<le> unat (SnapshotIndex s) + length (Entries s)"
    using p last_index [OF lb] by (auto simp: word_less_nat_alt)
  have "unat prev + 0 + length es < 2 ^ 64" using pv room by simp
  from appendLoop_inv [OF l this pv lb cm ok] obtain xs where xs: "s' = s\<lparr>Entries := xs\<rparr>"
    "list_all entry_ok xs" "unat (SnapshotIndex s) + length xs < 2 ^ 64"
    "unat (CommitIndex s) \<le> unat (SnapshotIndex s) + length xs"
    "take (unat (CommitIndex s) - unat (SnapshotIndex s)) xs =
     take (unat (CommitIndex s) - unat (SnapshotIndex s)) (Entries s)"
    using pv room by fastforce
  show "raft_wf b s'" using raft_wf_entries [OF w xs(2-5)] xs(1) by simp
  show "\<exists>xs. s' = s\<lparr>Entries := xs\<rparr>" using xs(1) by blast
  show "committed s' = committed s" using xs(1,5) by (simp add: committed_def)
qed

lemma apply_commit_wf:
  assumes "raft_wf b s" and "applyThroughLocked s (min c (fst (lastLogLocked s))) = Inr s'"
  shows "raft_wf b s'" and "AppliedEpoch s \<le> AppliedEpoch s'"
    and "\<exists>c' a. s' = with_applied s c' a \<and> unat (CommitIndex s) \<le> unat c'"
proof -
  have "log_bound s" using assms(1) by (simp add: raft_wf_def)
  then have "unat (min c (fst (lastLogLocked s))) \<le> unat (SnapshotIndex s) + length (Entries s)"
    using last_index [of s] by (simp add: min_def word_le_nat_alt)
  from applyThroughLocked_wf [OF assms(1) this assms(2)] obtain a c' where
    "s' = with_applied s c' a" "raft_wf b s'" "unat (CommitIndex s) \<le> unat c'"
    "AppliedEpoch s \<le> AppliedEpoch s'" by (metis max.cobounded1)
  then show "raft_wf b s'" "AppliedEpoch s \<le> AppliedEpoch s'"
    "\<exists>c' a. s' = with_applied s c' a \<and> unat (CommitIndex s) \<le> unat c'" by auto
qed

text \<open>The accepting tail, case by case.\<close>

lemma acceptEntries_cases:
  obtains (loop_error) e s2 where "appendLoop (PrevLogIndex q) 0 s1 (ae_Entries q) = (Inl e, s2)"
      "acceptEntries io r s1 q = (Inl e, set_state r s2)"
  | (apply_error) e s2 where "appendLoop (PrevLogIndex q) 0 s1 (ae_Entries q) = (Inr (), s2)"
      "acceptEntries io r s1 q = (Inl e, set_state r s2)"
  | (accepted) s2 s3 m where "appendLoop (PrevLogIndex q) 0 s1 (ae_Entries q) = (Inr (), s2)"
      "s3 = s2 \<or> LeaderCommit q > CommitIndex s2
         \<and> applyThroughLocked s2 (min (LeaderCommit q) (fst (lastLogLocked s2))) = Inr s3"
      "acceptEntries io r s1 q = persist_then io (set_state r s3)
         \<lparr>aer_Term = CurrentTerm s3, Success = True, MatchIndex = m\<rparr>"
proof (cases "appendLoop (PrevLogIndex q) 0 s1 (ae_Entries q)")
  case (Pair res s2)
  let ?c = "if LeaderCommit q > CommitIndex s2
      then applyThroughLocked s2 (min (LeaderCommit q) (fst (lastLogLocked s2))) else Inr s2"
  show thesis
  proof (cases res)
    case (Inl e)
    then show thesis using loop_error Pair by (simp add: acceptEntries_def)
  next
    case res: (Inr u)
    show thesis
    proof (cases ?c)
      case (Inl e)
      then show thesis using apply_error [of s2 e] Pair res by (simp add: acceptEntries_def)
    next
      case (Inr s3)
      then show thesis using accepted [of s2 s3] Pair res
        by (auto simp: acceptEntries_def split: if_splits)
    qed
  qed
qed

lemma acceptEntries_wf:
  assumes w: "raft_wf b s" and room: "unat (SnapshotIndex s) + length (Entries s) + length (ae_Entries q) < 2 ^ 64"
    and p: "\<not> PrevLogIndex q < SnapshotIndex s" "\<not> PrevLogIndex q > fst (lastLogLocked s)"
  shows "raft_wf b (state (snd (acceptEntries io r s q)))"
  by (cases rule: acceptEntries_cases [of q s io r])
    (auto dest: AppendEntries_loop_wf(1) [OF assms] intro: apply_commit_wf)

lemma AppendEntries_wf:
  assumes "raft_wf b (state r)"
    and "unat (SnapshotIndex (state r)) + length (Entries (state r)) + length (ae_Entries q) < 2 ^ 64"
  shows "raft_wf b (state (snd (AppendEntries io r q)))"
  using assms by (simp add: AppendEntries_def Let_def acceptEntries_wf)

end
