(* ===== verification/Raft_System.thy ===== *)
theory Raft_System
  imports Raft_Ops
begin

text \<open>
  The Raft store as a transition system: its operations under any persistence outcome, and process
  restarts that reopen the state file. The properties of a single node are stated over it.
\<close>

subsection \<open>Operations as transitions\<close>

datatype raft_op =
    ObserveTermOp u64
  | ConfigureVotersOp "string list"
  | InstallSnapshotOp InstallSnapshotRequest
  | CompactCommittedOp
  | BeginElectionOp
  | RequestVoteOp RequestVoteRequest
  | AppendEntriesOp AppendEntriesRequest
  | AppendCommandOp u64 MetadataCommand
  | CommitWithQuorumOp u64 u64 int int
  | CommitWithVoterAcksOp u64 u64 "string list"

datatype raft_reply =
    Failed go_error
  | Done
  | Elect RequestVoteRequest
  | Vote RequestVoteResponse
  | Appended AppendEntriesResponse
  | Installed InstallSnapshotResponse
  | Index u64

definition reply :: "('a \<Rightarrow> raft_reply) \<Rightarrow> 'a result \<times> RaftStore \<Rightarrow> raft_reply \<times> RaftStore" where
  "reply f x = (case fst x of Inl e \<Rightarrow> Failed e | Inr v \<Rightarrow> f v, snd x)"

fun exec :: "persist_io \<Rightarrow> RaftStore \<Rightarrow> raft_op \<Rightarrow> raft_reply \<times> RaftStore" where
  "exec io r (ObserveTermOp t) = reply (\<lambda>_. Done) (ObserveTerm io r t)"
| "exec io r (ConfigureVotersOp vs) = reply (\<lambda>_. Done) (ConfigureVoters io r vs)"
| "exec io r (InstallSnapshotOp q) = reply Installed (InstallSnapshot io r q)"
| "exec io r CompactCommittedOp = reply (\<lambda>_. Done) (CompactCommitted io r)"
| "exec io r BeginElectionOp = reply Elect (BeginElection io r)"
| "exec io r (RequestVoteOp q) = reply Vote (RequestVote io r q)"
| "exec io r (AppendEntriesOp q) = reply Appended (AppendEntries io r q)"
| "exec io r (AppendCommandOp t c) = reply Index (AppendCommand io r t c)"
| "exec io r (CommitWithQuorumOp i t a n) = reply (\<lambda>_. Done) (CommitWithQuorum io r i t a n)"
| "exec io r (CommitWithVoterAcksOp i t a) = reply (\<lambda>_. Done) (CommitWithVoterAcks io r i t a)"

lemma snd_reply [simp]: "snd (reply f x) = snd x"
  by (simp add: reply_def)

text \<open>
  Log indices and terms are 64-bit counters: an operation that advances one of them needs room.
  A snapshot is only installed outside a joint configuration.
\<close>

fun op_room :: "RaftStore \<Rightarrow> raft_op \<Rightarrow> bool" where
  "op_room r (AppendEntriesOp q) =
     (unat (SnapshotIndex (state r)) + length (Entries (state r)) + length (ae_Entries q) < 2 ^ 64)"
| "op_room r (AppendCommandOp t c) =
     (unat (SnapshotIndex (state r)) + length (Entries (state r)) + 1 < 2 ^ 64)"
| "op_room r (InstallSnapshotOp q) = (JointOldVoters (state r) = [])"
| "op_room r BeginElectionOp = (unat (CurrentTerm (state r)) + 1 < 2 ^ 64)"
| "op_room r _ = True"

inductive raft_reach :: "string \<Rightarrow> RaftStore \<Rightarrow> bool" for node where
  opened: "OpenRaftStore io NoFile node 1 = Inr r \<Longrightarrow> raft_reach node r"
| operated: "raft_reach node r \<Longrightarrow> op_room r op \<Longrightarrow> raft_reach node (snd (exec io r op))"
| restarted: "raft_reach node r \<Longrightarrow> disk r = Some s \<Longrightarrow>
    OpenRaftStore io (StateFile s) node 1 = Inr r' \<Longrightarrow> raft_reach node r'"

lemma exec_wf:
  assumes "raft_wf 1 (state r)" and "op_room r op"
  shows "raft_wf 1 (state (snd (exec io r op)))"
  using assms
  by (cases op) (simp_all add: ObserveTerm_wf ConfigureVoters_wf InstallSnapshot_wf CompactCommitted_wf
      BeginElection_wf RequestVote_wf AppendEntries_wf AppendCommand_wf CommitWithQuorum_wf
      CommitWithVoterAcks_wf)

text \<open>An operation leaves the state file alone or writes the state it ends in.\<close>

definition writes_through :: "RaftStore \<Rightarrow> RaftStore \<Rightarrow> bool" where
  "writes_through r r' \<longleftrightarrow> nodeID r' = nodeID r \<and> (disk r' = disk r \<or> disk r' = Some (state r'))"

lemma writes_through_persist [simp]:
  "writes_through r (snd (persist_then io (set_state r s) x))" "writes_through r (set_state r s)"
  "writes_through r r"
  by (simp_all add: writes_through_def)

lemma commitEntry_writes: "writes_through r (snd (commitEntry io r i t))"
  by (simp add: commitEntry_def Let_def split: sum.splits)

lemma acceptEntries_writes: "writes_through r (snd (acceptEntries io r s q))"
  by (cases rule: acceptEntries_cases [of q s io r]) simp_all

lemma exec_writes: "writes_through r (snd (exec io r op))"
  by (cases op)
    (simp_all add: commitEntry_writes acceptEntries_writes ObserveTerm_def ConfigureVoters_def
      InstallSnapshot_def CompactCommitted_def BeginElection_def RequestVote_def AppendEntries_def
      AppendCommand_def CommitWithQuorum_def CommitWithVoterAcks_def Let_def
      split: sum.splits prod.splits)

lemma bootstrap_wf: "raft_wf 1 (bootstrapState 1)"
  by (simp add: raft_wf_def bootstrapState_def log_bound_def applied_ok_def replayStart_def
      appliedOf_def committed_def replay_rel_def)

lemma open_state_file:
  assumes "raft_wf 1 s" and "ValidNodeID node"
  shows "OpenRaftStore io (StateFile s) node 1 = Inr \<lparr>nodeID = node, state = s, disk = Some s\<rparr>"
proof -
  have "validateLocked 1 s = Inr s" using assms(1) validateLocked_iff [of s 1] by (simp add: raft_wf_def)
  then show ?thesis using assms(2) by (simp add: OpenRaftStore_def)
qed

lemma raft_reach_inv:
  assumes "raft_reach node r"
  shows "raft_wf 1 (state r) \<and> nodeID r = node \<and> ValidNodeID node \<and> (\<forall>d. disk r = Some d \<longrightarrow> raft_wf 1 d)"
  using assms
proof (induction rule: raft_reach.induct)
  case (opened io r)
  then show ?case
    by (cases io) (auto simp: OpenRaftStore_def persistLocked_def bootstrap_wf split: if_splits)
next
  case (operated r op io)
  then show ?case using exec_wf [of r op io] exec_writes [of r io op] by (auto simp: writes_through_def)
next
  case (restarted r s io r')
  then show ?case using open_state_file [of s node io] by auto
qed

subsection \<open>Committed entries are never lost\<close>

definition entry_at :: "raftPersistentState \<Rightarrow> nat \<Rightarrow> RaftEntry option" where
  "entry_at s i =
     (let n = unat (SnapshotIndex s) in
      if n < i \<and> i \<le> n + length (Entries s) then Some (Entries s ! (i - n - 1)) else None)"

definition log_safe :: "raftPersistentState \<Rightarrow> raftPersistentState \<Rightarrow> bool" where
  "log_safe s s' \<longleftrightarrow>
     CurrentTerm s \<le> CurrentTerm s' \<and> unat (SnapshotIndex s) \<le> unat (SnapshotIndex s')
     \<and> unat (CommitIndex s) \<le> unat (CommitIndex s')
     \<and> (\<forall>i. unat (SnapshotIndex s') < i \<longrightarrow> i \<le> unat (CommitIndex s) \<longrightarrow> entry_at s' i = entry_at s i)"

lemma log_safe_refl [simp]: "log_safe s s"
  by (simp add: log_safe_def)

lemma log_safe_trans: "log_safe s s' \<Longrightarrow> log_safe s' s'' \<Longrightarrow> log_safe s s''"
  by (simp add: log_safe_def) (metis le_trans order_le_less_trans order_trans)

lemma log_safe_term:
  "CurrentTerm s \<le> t \<Longrightarrow> log_safe s (s\<lparr>CurrentTerm := t, VotedFor := v\<rparr>)"
  "log_safe s (s\<lparr>VotedFor := v\<rparr>)" "log_safe s (s\<lparr>Voters := vs\<rparr>)"
  by (simp_all add: log_safe_def entry_at_def Let_def)

lemma log_safe_observe: "log_safe s (if t > CurrentTerm s then s\<lparr>CurrentTerm := t, VotedFor := []\<rparr> else s)"
  using log_safe_term(1) [of s t "[]"] by simp

lemma log_safe_with_applied: "unat (CommitIndex s) \<le> unat c \<Longrightarrow> log_safe s (with_applied s c a)"
  by (simp add: log_safe_def entry_at_def Let_def)

lemma log_safe_entries:
  assumes "unat (CommitIndex s) \<le> unat (SnapshotIndex s) + length xs"
    and "unat (CommitIndex s) \<le> unat (SnapshotIndex s) + length (Entries s)"
    and "take (unat (CommitIndex s) - unat (SnapshotIndex s)) xs =
         take (unat (CommitIndex s) - unat (SnapshotIndex s)) (Entries s)"
  shows "log_safe s (s\<lparr>Entries := xs\<rparr>)"
proof -
  have "xs ! k = Entries s ! k" if "k < unat (CommitIndex s) - unat (SnapshotIndex s)" for k
    using arg_cong [OF assms(3), of "\<lambda>l. l ! k"] that by simp
  then show ?thesis using assms(1,2) by (auto simp: log_safe_def entry_at_def Let_def)
qed

lemma log_safe_append:
  "raft_wf b s \<Longrightarrow> log_safe s (s\<lparr>Entries := Entries s @ es\<rparr>)"
  by (rule log_safe_entries) (auto simp: raft_wf_def)

lemma commitEntry_safe:
  assumes w: "raft_wf b (state r)"
  shows "log_safe (state r) (state (snd (commitEntry io r i t)))"
proof -
  have "log_bound (state r)" using w by (simp add: raft_wf_def)
  then have "log_safe (state r) s1"
    if "termAtLocked (state r) i = Inr t" "applyThroughLocked (state r) i = Inr s1" for s1
    using that termAtLocked_iff [of "state r" i t] applyThroughLocked_wf [OF w _ that(2)]
    by (metis le_add1 log_safe_with_applied max.cobounded1)
  then show ?thesis by (auto simp: commitEntry_def Let_def split: sum.splits)
qed

lemma AppendEntries_loop_safe:
  assumes w: "raft_wf b s" and room: "unat (SnapshotIndex s) + length (Entries s) + length es < 2 ^ 64"
    and p: "\<not> prev < SnapshotIndex s" "\<not> prev > fst (lastLogLocked s)"
    and l: "appendLoop prev 0 s es = (res, s')"
  shows "log_safe s s'"
proof -
  obtain xs where xs: "s' = s\<lparr>Entries := xs\<rparr>" using AppendEntries_loop_wf(2) [OF assms] by blast
  have le: "unat (CommitIndex s) \<le> unat (SnapshotIndex s) + length (Entries s)"
    "unat (CommitIndex s) \<le> unat (SnapshotIndex s) + length xs"
    using w AppendEntries_loop_wf(1) [OF assms] xs by (auto simp: raft_wf_def)
  have "log_bound s" "list_all entry_ok (Entries s)" using w by (auto simp: raft_wf_def)
  moreover have "unat (SnapshotIndex s) \<le> unat prev + 0"
    "unat prev + 0 \<le> unat (SnapshotIndex s) + length (Entries s)"
    using p last_index [OF calculation(1)] by (auto simp: word_less_nat_alt)
  ultimately obtain ys where "s' = s\<lparr>Entries := ys\<rparr>"
    "take (unat (CommitIndex s) - unat (SnapshotIndex s)) ys =
     take (unat (CommitIndex s) - unat (SnapshotIndex s)) (Entries s)"
    using appendLoop_inv [OF l] le(1) room by fastforce
  moreover have "ys = xs" using xs calculation(1) by (metis raftPersistentState.select_convs(14) raftPersistentState.surjective raftPersistentState.update_convs(14))
  ultimately show ?thesis using le log_safe_entries xs by simp
qed

lemma acceptEntries_safe:
  assumes w: "raft_wf b s" and room: "unat (SnapshotIndex s) + length (Entries s) + length (ae_Entries q) < 2 ^ 64"
    and p: "\<not> PrevLogIndex q < SnapshotIndex s" "\<not> PrevLogIndex q > fst (lastLogLocked s)"
  shows "log_safe s (state (snd (acceptEntries io r s q)))"
proof (cases rule: acceptEntries_cases [of q s io r])
  case (accepted s2 s3 m)
  have "log_safe s s2" "raft_wf b s2"
    using AppendEntries_loop_safe [OF assms accepted(1)] AppendEntries_loop_wf(1) [OF assms accepted(1)] .
  moreover have "log_safe s2 s3" using accepted(2) apply_commit_wf(3) [OF \<open>raft_wf b s2\<close>]
    by (auto intro: log_safe_with_applied)
  ultimately show ?thesis using accepted(3) by (auto intro: log_safe_trans)
qed (auto dest: AppendEntries_loop_safe [OF assms])

lemma AppendEntries_safe:
  assumes "raft_wf b (state r)"
    and "unat (SnapshotIndex (state r)) + length (Entries (state r)) + length (ae_Entries q) < 2 ^ 64"
  shows "log_safe (state r) (state (snd (AppendEntries io r q)))"
proof -
  let ?s = "state r"
  let ?s1 = "if ae_Term q > CurrentTerm ?s then ?s\<lparr>CurrentTerm := ae_Term q, VotedFor := []\<rparr> else ?s"
  have s1: "raft_wf b ?s1" "unat (SnapshotIndex ?s1) + length (Entries ?s1) + length (ae_Entries q) < 2 ^ 64"
    "log_safe ?s ?s1" using assms log_safe_observe by auto
  show ?thesis
    unfolding AppendEntries_def Let_def
    using s1 acceptEntries_safe [OF s1(1,2), THEN log_safe_trans [OF s1(3)]]
    by simp
qed

lemma CompactCommitted_safe:
  assumes w: "raft_wf b (state r)"
  shows "log_safe (state r) (state (snd (CompactCommitted io r)))"
proof -
  let ?s = "state r"
  have le: "unat (SnapshotIndex ?s) \<le> unat (CommitIndex ?s)" using w by (simp add: raft_wf_def)
  have "log_safe ?s (?s\<lparr>Entries := xs, SnapshotIndex := CommitIndex ?s,
      SnapshotTerm := t, SnapshotEpoch := AppliedEpoch ?s, SnapshotView := CommittedView ?s\<rparr>)" for xs t
    using le by (simp add: log_safe_def)
  then show ?thesis by (auto simp: CompactCommitted_def Let_def split: sum.splits)
qed

lemma InstallSnapshot_safe:
  assumes w: "raft_wf b (state r)"
  shows "log_safe (state r) (state (snd (InstallSnapshot io r q)))"
proof -
  have "log_safe (state r) (replaceBySnapshot s sn)"
    if "log_safe (state r) s" "raft_wf b s" "\<not> LastIncludedIndex sn \<le> CommitIndex s" for s sn
    using that by (intro log_safe_trans [OF that(1)])
      (auto simp: log_safe_def replaceBySnapshot_def raft_wf_def word_le_nat_alt)
  then show ?thesis using w log_safe_observe [of "state r" "is_Term q"]
    by (simp add: InstallSnapshot_def Let_def)
qed

lemma RequestVote_safe: "log_safe (state r) (state (snd (RequestVote io r q)))"
  using log_safe_term [of "state r"] by (simp add: RequestVote_def Let_def split: prod.splits)

lemma exec_safe:
  assumes "raft_wf b (state r)" and "op_room r op"
  shows "log_safe (state r) (state (snd (exec io r op)))"
proof (cases op)
  case BeginElectionOp
  then have "CurrentTerm (state r) \<le> CurrentTerm (state r) + 1"
    using assms(2) unat_add_small [of "CurrentTerm (state r)" 1] by (simp add: word_le_nat_alt)
  then show ?thesis using BeginElectionOp log_safe_term
    by (simp add: BeginElection_def Let_def split: prod.splits)
qed (use assms log_safe_term log_safe_observe in \<open>simp_all add: ObserveTerm_def ConfigureVoters_def
    AppendCommand_def CommitWithQuorum_def CommitWithVoterAcks_def Let_def commitEntry_safe
    AppendEntries_safe CompactCommitted_safe InstallSnapshot_safe RequestVote_safe log_safe_append
    split: sum.splits\<close>)

subsection \<open>What a successful AppendEntries did\<close>

lemma AppendEntries_successD:
  assumes "AppendEntries io r q = (Inr resp, r')" and "Success resp"
  obtains s1 where "s1 = (if ae_Term q > CurrentTerm (state r)
       then (state r)\<lparr>CurrentTerm := ae_Term q, VotedFor := []\<rparr> else state r)"
    and "\<not> PrevLogIndex q < SnapshotIndex s1" and "\<not> PrevLogIndex q > fst (lastLogLocked s1)"
    and "termAtLocked s1 (PrevLogIndex q) = Inr (PrevLogTerm q)"
    and "ae_Term q \<ge> CurrentTerm (state r)"
    and "acceptEntries io r s1 q = (Inr resp, r')"
proof -
  have P: False if "persist_then io r1 \<lparr>aer_Term = t, Success = False, MatchIndex = 0\<rparr> = (Inr resp, r')" for r1 t
    using arg_cong [OF that, of fst] assms(2) by (auto split: if_splits)
  show thesis
    using assms that by (auto simp: AppendEntries_def Let_def not_less dest!: P split: if_splits)
qed

lemma acceptEntries_successD:
  assumes "acceptEntries io r s1 q = (Inr resp, r')"
  obtains s2 s3 where "appendLoop (PrevLogIndex q) 0 s1 (ae_Entries q) = (Inr (), s2)"
    and "if LeaderCommit q > CommitIndex s2
         then applyThroughLocked s2 (min (LeaderCommit q) (fst (lastLogLocked s2))) = Inr s3 else s3 = s2"
    and "state r' = s3" and "disk r' = Some s3"
    and "resp = \<lparr>aer_Term = CurrentTerm s3, Success = True,
           MatchIndex = max (PrevLogIndex q) (SnapshotIndex s3) + of_nat (length (ae_Entries q))\<rparr>"
proof (cases "appendLoop (PrevLogIndex q) 0 s1 (ae_Entries q)")
  case (Pair res s2)
  let ?c = "if LeaderCommit q > CommitIndex s2
      then applyThroughLocked s2 (min (LeaderCommit q) (fst (lastLogLocked s2))) else Inr s2"
  obtain s3 where s3: "res = Inr ()" "?c = Inr s3" "persist_then io (set_state r s3)
        \<lparr>aer_Term = CurrentTerm s3, Success = True,
         MatchIndex = max (PrevLogIndex q) (SnapshotIndex s3) + of_nat (length (ae_Entries q))\<rparr> = (Inr resp, r')"
    using assms Pair by (cases res; cases ?c) (auto simp: acceptEntries_def)
  have "io = IO_ok" using arg_cong [OF s3(3), of fst] by (auto split: if_splits)
  then show thesis
    using that [of s2 s3] s3 Pair arg_cong [OF s3(3), of fst] arg_cong [OF s3(3), of snd]
    by (auto simp: persist_then_def persistLocked_def split: if_splits)
qed

lemma common_terms_agree:
  "j < length es \<Longrightarrow> b + j < length (merge_log b log es)
     \<and> Term (merge_log b log es ! (b + j)) = Term (es ! j)" if "b \<le> length log" for b log
  using that
proof (induction es arbitrary: b log j)
  case (Cons e es)
  show ?case
  proof (cases "b < length log \<and> Term (log ! b) = Term e")
    case True
    then have m: "merge_log b log (e # es) = merge_log (Suc b) log es" by (simp add: merge_log_match)
    show ?thesis
    proof (cases j)
      case 0
      have "take (Suc b) (merge_log (Suc b) log es) = take (Suc b) log"
        using True by (simp add: merge_log_def Let_def)
      then have "merge_log (Suc b) log es ! b = log ! b" "b < length (merge_log (Suc b) log es)"
        using True by (metis lessI nth_take, metis True Suc_le_eq length_take min_absorb2 min.bounded_iff min.cobounded1)
      then show ?thesis using 0 m True by simp
    next
      case (Suc k)
      then show ?thesis using Cons.IH [of k "Suc b" log] Cons.prems m True by simp
    qed
  next
    case False
    have m: "merge_log b log (e # es) = take b log @ e # es"
      by (rule merge_log_conflict [OF Cons.prems(2) False])
    show ?thesis using Cons.prems unfolding m by (simp add: nth_append)
  qed
qed simp

lemma merge_log_prefix: "b \<le> length log \<Longrightarrow> take b (merge_log b log es) = take b log"
  by (simp add: merge_log_def Let_def)

lemma apply_leader_commit:
  assumes w: "raft_wf b s2" and ap: "if c > CommitIndex s2
    then applyThroughLocked s2 (min c (fst (lastLogLocked s2))) = Inr s3 else s3 = s2"
  shows "Entries s3 = Entries s2 \<and> SnapshotIndex s3 = SnapshotIndex s2 \<and> unat (CommitIndex s3) =
    max (unat (CommitIndex s2)) (min (unat c) (unat (SnapshotIndex s2) + length (Entries s2)))"
proof -
  have lb: "log_bound s2" and cm: "unat (CommitIndex s2) \<le> unat (SnapshotIndex s2) + length (Entries s2)"
    using w by (auto simp: raft_wf_def)
  have t: "unat (min c (fst (lastLogLocked s2))) = min (unat c) (unat (SnapshotIndex s2) + length (Entries s2))"
    using last_index [OF lb] by (simp add: min_def word_le_nat_alt)
  show ?thesis
  proof (cases "c > CommitIndex s2")
    case True
    then have "applyThroughLocked s2 (min c (fst (lastLogLocked s2))) = Inr s3" using ap by simp
    from applyThroughLocked_wf [OF w _ this] t show ?thesis
      by (metis min.cobounded2 with_applied_simps(1,2,3))
  next
    case False
    then show ?thesis using ap cm by (simp add: word_less_nat_alt max_def min_def)
  qed
qed

subsection \<open>Properties of one node\<close>


definition sample_store :: RaftStore where
  "sample_store = \<lparr>nodeID = sample_node (CHR ''1''), state = bootstrapState 1, disk = Some (bootstrapState 1)\<rparr>"

definition sample_entry :: RaftEntry where
  "sample_entry =
     \<lparr>Term = 1, Command = \<lparr>Type = ''advance_epoch'', Epoch = 2, MembershipDigest = replicate 64 (CHR ''a''),
        CatalogDigest = replicate 64 (CHR ''a''), PlacementDigest = replicate 64 (CHR ''a''),
        CmdCapacityManifest = [], OldVoters = [], NewVoters = []\<rparr>\<rparr>"

definition sample_append :: AppendEntriesRequest where
  "sample_append =
     \<lparr>ae_Term = 1, LeaderID = sample_node (CHR ''2''), PrevLogIndex = 0, PrevLogTerm = 0,
      ae_Entries = [sample_entry], LeaderCommit = 1\<rparr>"

definition sample_appended :: RaftStore where
  "sample_appended = snd (AppendEntries IO_ok sample_store sample_append)"

lemma sample_store_reach: "raft_reach (sample_node (CHR ''1'')) sample_store"
  by (rule raft_reach.opened [of IO_ok])
    (simp add: OpenRaftStore_def persistLocked_def sample_store_def)

lemma sample_append_room: "op_room sample_store (AppendEntriesOp sample_append)"
  by (simp add: sample_store_def bootstrapState_def sample_append_def)

lemma sample_append_result:
  "AppendEntries IO_ok sample_store sample_append
     = (Inr \<lparr>aer_Term = 1, Success = True, MatchIndex = 1\<rparr>, sample_appended)"
  "disk sample_appended = Some (state sample_appended)"
  "CommitIndex (state sample_appended) = 1" "Entries (state sample_appended) = [sample_entry]"
  "Entries (state sample_store) = []" "SnapshotIndex (state sample_store) = 0"
  "SnapshotIndex (state sample_appended) = 0" "CurrentTerm (state sample_appended) = 1"
  by code_simp+

lemma sample_appended_reach: "raft_reach (sample_node (CHR ''1'')) sample_appended"
  using raft_reach.operated [OF sample_store_reach sample_append_room, of IO_ok]
  by (simp add: sample_appended_def)


text \<open>
  C11: no operation moves the term or the commit index back, and every committed entry that is not
  folded into the snapshot stays in the log with the same content.
\<close>

theorem committed_entries_kept:
  fixes io :: persist_io
  assumes "raft_reach node r" and "op_room r op"
  defines "s \<equiv> state r" and "s' \<equiv> state (snd (exec io r op))"
  shows "CurrentTerm s \<le> CurrentTerm s' \<and> CommitIndex s \<le> CommitIndex s'
    \<and> (\<forall>i. unat (SnapshotIndex s') < i \<longrightarrow> i \<le> unat (CommitIndex s) \<longrightarrow> entry_at s' i = entry_at s i)"
  using exec_safe [OF _ assms(2), of 1 io] raft_reach_inv [OF assms(1)]
  by (simp add: log_safe_def s_def s'_def word_le_nat_alt)

theorem committed_entries_kept_witness:
  "entry_at (state (snd (exec IO_failed sample_appended BeginElectionOp))) 1 = Some sample_entry"
proof -
  let ?s = "state (snd (exec IO_failed sample_appended BeginElectionOp))"
  have "op_room sample_appended BeginElectionOp" by (simp add: sample_append_result)
  moreover have "SnapshotIndex ?s = 0" by code_simp
  ultimately have "entry_at ?s 1 = entry_at (state sample_appended) 1"
    using committed_entries_kept [OF sample_appended_reach, of BeginElectionOp IO_failed]
    by (simp add: sample_append_result)
  then show ?thesis by (simp add: entry_at_def sample_append_result)
qed

text \<open>
  C12: a successful \<open>AppendEntries\<close> leaves the log that the reference merge gives, in memory and on
  disk: the received terms stand at their indices, the commit index moves to the leader's as far as
  the log reaches, and the reported match index is the last index the request covers.
\<close>

theorem AppendEntries_merges:
  assumes "raft_reach node r" and "op_room r (AppendEntriesOp q)"
    and "AppendEntries io r q = (Inr resp, r')" and "Success resp"
  shows "Entries (state r') =
      merge_log (unat (PrevLogIndex q) - unat (SnapshotIndex (state r))) (Entries (state r)) (ae_Entries q)
    \<and> (\<forall>j < length (ae_Entries q).
         map_option Term (entry_at (state r') (unat (PrevLogIndex q) + j + 1)) = Some (Term (ae_Entries q ! j)))
    \<and> unat (CommitIndex (state r')) =
        max (unat (CommitIndex (state r)))
            (min (unat (LeaderCommit q)) (unat (SnapshotIndex (state r)) + length (Entries (state r'))))
    \<and> unat (MatchIndex resp) = unat (PrevLogIndex q) + length (ae_Entries q)
    \<and> disk r' = Some (state r')"
proof -
  let ?s = "state r" and ?es = "ae_Entries q"
  let ?b = "unat (PrevLogIndex q) - unat (SnapshotIndex ?s)"
  have w: "raft_wf 1 ?s" using raft_reach_inv [OF assms(1)] by simp
  obtain s1 where s1: "s1 = (if ae_Term q > CurrentTerm ?s then ?s\<lparr>CurrentTerm := ae_Term q, VotedFor := []\<rparr> else ?s)"
    and g: "\<not> PrevLogIndex q < SnapshotIndex s1" "\<not> PrevLogIndex q > fst (lastLogLocked s1)"
    and acc: "acceptEntries io r s1 q = (Inr resp, r')"
    using AppendEntries_successD [OF assms(3,4)] by metis
  have same: "Entries s1 = Entries ?s" "SnapshotIndex s1 = SnapshotIndex ?s" "CommitIndex s1 = CommitIndex ?s"
    and w1: "raft_wf 1 s1" and room: "unat (SnapshotIndex s1) + length (Entries s1) + length ?es < 2 ^ 64"
    using w assms(2) by (auto simp: s1)
  obtain s2 s3 where lp: "appendLoop (PrevLogIndex q) 0 s1 ?es = (Inr (), s2)"
    and ap: "if LeaderCommit q > CommitIndex s2
         then applyThroughLocked s2 (min (LeaderCommit q) (fst (lastLogLocked s2))) = Inr s3 else s3 = s2"
    and r': "state r' = s3" "disk r' = Some s3"
    and rsp: "resp = \<lparr>aer_Term = CurrentTerm s3, Success = True,
           MatchIndex = max (PrevLogIndex q) (SnapshotIndex s3) + of_nat (length ?es)\<rparr>"
    using acceptEntries_successD [OF acc] by metis
  have lb: "log_bound s1" using w1 by (simp add: raft_wf_def)
  have pv: "unat (SnapshotIndex s1) \<le> unat (PrevLogIndex q) + 0"
    "unat (PrevLogIndex q) + 0 \<le> unat (SnapshotIndex s1) + length (Entries s1)"
    using g last_index [OF lb] by (auto simp: word_less_nat_alt)
  have rm: "unat (PrevLogIndex q) + 0 + length ?es < 2 ^ 64" using pv room by simp
  have s2: "s2 = s1\<lparr>Entries := merge_log ?b (Entries ?s) ?es\<rparr>"
    using appendLoop_merge [OF lp rm pv lb] same by simp
  have w2: "raft_wf 1 s2" by (rule AppendEntries_loop_wf(1) [OF w1 room g lp])
  have lb2: "log_bound s2" using w2 by (simp add: raft_wf_def)
  have s3: "Entries s3 = Entries s2 \<and> SnapshotIndex s3 = SnapshotIndex s2 \<and> unat (CommitIndex s3) =
        max (unat (CommitIndex s2)) (min (unat (LeaderCommit q)) (unat (SnapshotIndex s2) + length (Entries s2)))"
    using apply_leader_commit [OF w2 ap] .
  have b: "?b \<le> length (Entries ?s)" using pv same by simp
  have "map_option Term (entry_at s3 (unat (PrevLogIndex q) + j + 1)) = Some (Term (?es ! j))"
    if "j < length ?es" for j
    using common_terms_agree [OF b that] s3 s2 same pv by (auto simp: entry_at_def Let_def)
  moreover have "unat (PrevLogIndex q + of_nat (length ?es)) = unat (PrevLogIndex q) + length ?es"
    using rm by (simp add: unat_add_small)
  moreover have "max (PrevLogIndex q) (SnapshotIndex s3) = PrevLogIndex q"
    using pv(1) s3 s2 by (simp add: max_absorb1 word_le_nat_alt)
  ultimately show ?thesis using s3 s2 same r' rsp by simp
qed

theorem AppendEntries_merges_witness:
  "map_option Term (entry_at (state sample_appended) 1) = Some 1
   \<and> Entries (state sample_appended) = merge_log 0 [] [sample_entry]"
  using AppendEntries_merges [OF sample_store_reach sample_append_room sample_append_result(1)]
  by (simp add: sample_append_result) (simp add: sample_append_def sample_entry_def)

end
