(* ===== verification/Raft_Cluster.thy ===== *)
theory Raft_Cluster
  imports Raft_System
begin

text \<open>
  Several Raft stores, the ballots they answered with, and election safety: two candidates cannot
  both gather a quorum of votes in one term. Majorities are an interface with its own law.
\<close>

subsection \<open>Quorums\<close>

locale voter_quorum =
  fixes majority :: "string list \<Rightarrow> string set \<Rightarrow> bool"
  assumes overlap: "distinct vs \<Longrightarrow> majority vs A \<Longrightarrow> majority vs B \<Longrightarrow> \<exists>v \<in> set vs. v \<in> A \<and> v \<in> B"
    and member_mono: "majority vs A \<Longrightarrow> A \<inter> set vs \<subseteq> B \<Longrightarrow> majority vs B"
begin

lemma single_winner:
  assumes "distinct vs" and "majority vs A" and "majority vs B"
    and "\<And>v c c'. chose v c \<Longrightarrow> chose v c' \<Longrightarrow> c = c'"
    and "\<And>v. v \<in> A \<Longrightarrow> chose v x" and "\<And>v. v \<in> B \<Longrightarrow> chose v y"
  shows "x = y"
  using overlap [OF assms(1-3)] assms(4-6) by blast

lemma not_disjoint: "distinct vs \<Longrightarrow> majority vs A \<Longrightarrow> majority vs B \<Longrightarrow> A \<inter> B \<noteq> {}"
  using overlap by blast

end

lemma voterMajority_card:
  assumes "distinct vs"
  shows "voterMajority vs A \<longleftrightarrow> vs \<noteq> [] \<and> length vs < 2 * card (set vs \<inter> A)"
proof -
  have "set vs \<inter> A = set (filter (\<lambda>v. v \<in> A) vs)" by auto
  then have c: "card (set vs \<inter> A) = length (filter (\<lambda>v. v \<in> A) vs)"
    using distinct_card [of "filter (\<lambda>v. v \<in> A) vs"] assms by simp
  have "(length vs div 2 + 1 \<le> n) = (length vs < 2 * n)" for n :: nat by linarith
  then show ?thesis unfolding c voterMajority_def Let_def by simp
qed

lemma voterMajority_overlap:
  assumes "distinct vs" and "voterMajority vs A" and "voterMajority vs B"
  shows "\<exists>v \<in> set vs. v \<in> A \<and> v \<in> B"
proof (rule ccontr)
  assume "\<not> ?thesis"
  then have "(set vs \<inter> A) \<inter> (set vs \<inter> B) = {}" by blast
  then have "card (set vs \<inter> A) + card (set vs \<inter> B) = card ((set vs \<inter> A) \<union> (set vs \<inter> B))"
    by (simp add: card_Un_disjoint)
  also have "\<dots> \<le> length vs" using card_mono [of "set vs" "set vs \<inter> A \<union> set vs \<inter> B"] card_length [of vs]
    by (simp add: order_trans)
  finally show False using assms by (simp add: voterMajority_card)
qed

lemma voterMajority_mono:
  assumes "voterMajority vs A" and "A \<inter> set vs \<subseteq> B"
  shows "voterMajority vs B"
proof -
  have "length (filter (\<lambda>v. v \<in> A) vs) \<le> length (filter (\<lambda>v. v \<in> B) vs)"
    using assms(2) by (induction vs) auto
  then show ?thesis using assms(1) by (auto simp: voterMajority_def Let_def)
qed

interpretation vq: voter_quorum voterMajority
  by unfold_locales (auto intro: voterMajority_overlap voterMajority_mono)

subsection \<open>How an operation moves the vote\<close>

definition voted :: "raftPersistentState \<Rightarrow> u64 \<Rightarrow> string \<Rightarrow> bool" where
  "voted s t c \<longleftrightarrow> c \<noteq> [] \<and> (t < CurrentTerm s \<or> t = CurrentTerm s \<and> VotedFor s = c)"

definition vote_step :: "raftPersistentState \<Rightarrow> raftPersistentState \<Rightarrow> bool" where
  "vote_step s s' \<longleftrightarrow> CurrentTerm s < CurrentTerm s'
     \<or> CurrentTerm s' = CurrentTerm s \<and> (VotedFor s' = VotedFor s \<or> VotedFor s = [])"

definition same_vote :: "raftPersistentState \<Rightarrow> raftPersistentState \<Rightarrow> bool" where
  "same_vote s s' \<longleftrightarrow> CurrentTerm s' = CurrentTerm s \<and> VotedFor s' = VotedFor s"

lemma voted_step: "voted s t c \<Longrightarrow> vote_step s s' \<Longrightarrow> voted s' t c"
  by (auto simp: voted_def vote_step_def)

lemma same_vote_refl [simp]: "same_vote s s"
  by (simp add: same_vote_def)

lemma same_vote_trans [trans]: "same_vote s s' \<Longrightarrow> same_vote s' s'' \<Longrightarrow> same_vote s s''"
  by (simp add: same_vote_def)

lemma appendLoop_vote: "appendLoop prev off s es = (res, s') \<Longrightarrow> same_vote s s'"
proof (induction es arbitrary: off s)
  case (Cons e es)
  then show ?case
    by (fastforce simp: same_vote_def Let_def split: if_splits sum.splits)
qed simp

lemma applyThrough_vote: "applyThroughLocked s t = Inr s' \<Longrightarrow> same_vote s s'"
  by (auto simp: applyThroughLocked_def and_then_Inr_iff same_vote_def)

lemma replaceBySnapshot_vote: "same_vote s (replaceBySnapshot s sn)"
  by (simp add: same_vote_def replaceBySnapshot_def Let_def)

lemma validateLocked_vote: "validateLocked b s = Inr s' \<Longrightarrow> same_vote s s'"
  using validateLocked_result by (simp add: same_vote_def)

lemma acceptEntries_vote: "same_vote s (state (snd (acceptEntries io r s q)))"
  by (cases rule: acceptEntries_cases [of q s io r])
    (auto dest: appendLoop_vote applyThrough_vote intro: same_vote_trans)

lemma commitEntry_vote: "same_vote (state r) (state (snd (commitEntry io r i t)))"
  by (auto simp: commitEntry_def Let_def dest: applyThrough_vote split: sum.splits)

text \<open>
  The vote in memory is on disk: every operation whose write succeeds ends with its state on disk,
  or leaves the vote as it was, or leaves none.
\<close>

definition vote_durable :: "RaftStore \<Rightarrow> bool" where
  "vote_durable r \<longleftrightarrow>
     VotedFor (state r) \<noteq> [] \<longrightarrow> (\<exists>d. disk r = Some d \<and> same_vote d (state r))"

definition vote_moves :: "persist_io \<Rightarrow> RaftStore \<Rightarrow> RaftStore \<Rightarrow> bool" where
  "vote_moves io r r' \<longleftrightarrow> vote_step (state r) (state r')
     \<and> (io = IO_ok \<longrightarrow> disk r' = Some (state r')
          \<or> disk r' = disk r \<and> (same_vote (state r) (state r') \<or> VotedFor (state r') = []))"

lemma vote_step_same: "same_vote s s' \<Longrightarrow> vote_step s s'"
  by (simp add: vote_step_def same_vote_def)

lemma vote_moves_same [simp]:
  "same_vote (state r) s \<Longrightarrow> vote_moves io r (set_state r s)"
  "same_vote (state r) s \<Longrightarrow> vote_moves io r (snd (persist_then io (set_state r s) x))"
  "vote_moves io r r" "vote_moves io r (snd (persist_then io r x))"
  by (auto simp: vote_moves_def vote_step_same)

lemma vote_moves_persist:
  "vote_step (state r) s \<Longrightarrow> vote_moves io r (snd (persist_then io (set_state r s) x))"
  by (simp add: vote_moves_def)

lemma vote_step_observe:
  "vote_step s (if t > CurrentTerm s then s\<lparr>CurrentTerm := t, VotedFor := []\<rparr> else s)"
  by (simp add: vote_step_def)

lemma commitEntry_moves: "vote_moves io r (snd (commitEntry io r i t))"
  by (auto simp: commitEntry_def Let_def dest: applyThrough_vote split: sum.splits)

lemma acceptEntries_moves:
  assumes "s = (if t > CurrentTerm (state r) then (state r)\<lparr>CurrentTerm := t, VotedFor := []\<rparr> else state r)"
  shows "vote_moves io r (snd (acceptEntries io r s q))"
proof -
  have st: "vote_step (state r) s'" "same_vote (state r) s' \<or> VotedFor s' = []" if "same_vote s s'" for s'
    using that assms by (auto simp: vote_step_def same_vote_def)
  show ?thesis
  proof (cases rule: acceptEntries_cases [of q s io r])
    case (accepted s2 s3 m)
    then have "same_vote s s3" by (auto dest: appendLoop_vote applyThrough_vote intro: same_vote_trans)
    then show ?thesis using accepted(3) vote_moves_persist [OF st(1)] by simp
  qed (use st in \<open>auto simp: vote_moves_def dest!: appendLoop_vote\<close>)
qed

lemma AppendEntries_moves: "vote_moves io r (snd (AppendEntries io r q))"
  by (auto simp: AppendEntries_def Let_def vote_step_def
      intro!: vote_moves_persist acceptEntries_moves [where t = "ae_Term q"])

lemma InstallSnapshot_moves: "vote_moves io r (snd (InstallSnapshot io r q))"
proof -
  let ?s1 = "if is_Term q > CurrentTerm (state r)
    then (state r)\<lparr>CurrentTerm := is_Term q, VotedFor := []\<rparr> else state r"
  have "vote_step (state r) (replaceBySnapshot ?s1 sn)" for sn
    using vote_step_observe [of "state r" "is_Term q"] replaceBySnapshot_vote [of ?s1 sn]
    by (simp add: vote_step_def same_vote_def split: if_splits)
  then show ?thesis
    by (cases "CurrentTerm (state r) < is_Term q")
      (auto simp: InstallSnapshot_def Let_def vote_step_def intro!: vote_moves_persist)
qed

lemma RequestVote_moves: "vote_moves io r (snd (RequestVote io r q))"
  by (auto simp: RequestVote_def Let_def vote_step_def intro!: vote_moves_persist split: prod.splits)

lemma exec_moves:
  assumes "op_room r op"
  shows "vote_moves io r (snd (exec io r op))"
proof (cases op)
  case BeginElectionOp
  then have "unat (CurrentTerm (state r) + 1) = unat (CurrentTerm (state r)) + 1"
    using assms unat_add_small [of "CurrentTerm (state r)" 1] by simp
  then have "CurrentTerm (state r) < CurrentTerm (state r) + 1" by (simp add: word_less_nat_alt)
  then show ?thesis using BeginElectionOp
    by (auto simp: BeginElection_def Let_def vote_step_def intro!: vote_moves_persist split: prod.splits)
next
  case (ObserveTermOp t)
  then show ?thesis by (auto simp: ObserveTerm_def vote_step_def intro!: vote_moves_persist)
qed (auto simp: ConfigureVoters_def CompactCommitted_def AppendCommand_def CommitWithQuorum_def
    CommitWithVoterAcks_def Let_def commitEntry_moves AppendEntries_moves InstallSnapshot_moves
    RequestVote_moves same_vote_def split: sum.splits)

subsection \<open>Ballots\<close>

text \<open>What a node's answer promises: its vote for a candidate in a term.\<close>

fun ballots_of :: "string \<Rightarrow> raft_op \<Rightarrow> raft_reply \<Rightarrow> (string \<times> u64 \<times> string) set" where
  "ballots_of n (RequestVoteOp q) (Vote resp) =
     (if VoteGranted resp then {(n, rv_Term q, CandidateID q)} else {})"
| "ballots_of n BeginElectionOp (Elect q) = {(n, rv_Term q, CandidateID q)}"
| "ballots_of n _ _ = {}"

lemma RequestVote_ballot:
  assumes "RequestVote io r q = (Inr resp, r')" and "VoteGranted resp"
  shows "CandidateID q \<noteq> [] \<and> CurrentTerm (state r') = rv_Term q \<and> VotedFor (state r') = CandidateID q"
proof -
  have P: "x = resp \<and> state r' = s" if "persist_then io (set_state r s) x = (Inr resp, r')" for s x
    using arg_cong [OF that, of fst] arg_cong [OF that, of "\<lambda>p. state (snd p)"] by (simp split: if_splits)
  have v: "ValidNodeID (CandidateID q)" using assms by (auto simp: RequestVote_def Let_def split: if_splits)
  then have "CandidateID q \<noteq> []" by auto
  then show ?thesis using assms v
    by (auto simp: RequestVote_def Let_def dest!: P split: if_splits prod.splits)
qed

lemma BeginElection_ballot:
  assumes "BeginElection io r = (Inr q, r')"
  shows "CandidateID q = nodeID r \<and> CurrentTerm (state r') = rv_Term q \<and> VotedFor (state r') = nodeID r"
proof -
  have P: "x = q \<and> state r' = s" if "persist_then io (set_state r s) x = (Inr q, r')" for s x
    using arg_cong [OF that, of fst] arg_cong [OF that, of "\<lambda>p. state (snd p)"] by (simp split: if_splits)
  show ?thesis using assms by (auto simp: BeginElection_def Let_def dest!: P split: if_splits prod.splits)
qed

lemma exec_ballot:
  assumes "exec io r op = (rep, r')" and "(m, t, c) \<in> ballots_of n op rep" and "ValidNodeID (nodeID r)"
  shows "m = n \<and> c \<noteq> [] \<and> CurrentTerm (state r') = t \<and> VotedFor (state r') = c"
proof (cases op)
  case (RequestVoteOp q)
  then obtain resp where "RequestVote io r q = (Inr resp, r')" "VoteGranted resp" "(m, t, c) = (n, rv_Term q, CandidateID q)"
    using assms(1,2) by (cases "RequestVote io r q") (auto simp: reply_def split: sum.splits if_splits)
  then show ?thesis using RequestVote_ballot by auto
next
  case BeginElectionOp
  then obtain q where "BeginElection io r = (Inr q, r')" "(m, t, c) = (n, rv_Term q, CandidateID q)"
    using assms(1,2) by (cases "BeginElection io r") (auto simp: reply_def split: sum.splits)
  then show ?thesis using BeginElection_ballot assms(3) by auto
qed (use assms in auto)

subsection \<open>The cluster\<close>

text \<open>
  A node serves an operation and answers, with the state file written; or it stops at any point of
  an operation, whatever became of the write, and restarts from the file without having answered.
\<close>

record raft_cluster =
  stores :: "string \<rightharpoonup> RaftStore"
  ballots :: "(string \<times> u64 \<times> string) set"

inductive cluster_step :: "raft_cluster \<Rightarrow> raft_cluster \<Rightarrow> bool" where
  boot: "stores C n = None \<Longrightarrow> OpenRaftStore IO_ok NoFile n 1 = Inr r \<Longrightarrow>
    cluster_step C (C\<lparr>stores := (stores C)(n \<mapsto> r)\<rparr>)"
| serve: "stores C n = Some r \<Longrightarrow> op_room r op \<Longrightarrow> exec IO_ok r op = (rep, r') \<Longrightarrow>
    cluster_step C (C\<lparr>stores := (stores C)(n \<mapsto> r'), ballots := ballots C \<union> ballots_of n op rep\<rparr>)"
| crash: "stores C n = Some r \<Longrightarrow> op_room r op \<Longrightarrow> exec io r op = (rep, r1) \<Longrightarrow> disk r1 = Some d \<Longrightarrow>
    OpenRaftStore io' (StateFile d) n 1 = Inr r' \<Longrightarrow>
    cluster_step C (C\<lparr>stores := (stores C)(n \<mapsto> r')\<rparr>)"

inductive cluster_reach :: "raft_cluster \<Rightarrow> bool" where
  empty: "cluster_reach \<lparr>stores = Map.empty, ballots = {}\<rparr>"
| step: "cluster_reach C \<Longrightarrow> cluster_step C C' \<Longrightarrow> cluster_reach C'"

text \<open>A ballot is kept by the voter's memory and by its disk.\<close>

definition keeps_ballot :: "RaftStore \<Rightarrow> u64 \<Rightarrow> string \<Rightarrow> bool" where
  "keeps_ballot r t c \<longleftrightarrow> voted (state r) t c \<and> (\<exists>d. disk r = Some d \<and> voted d t c)"

definition cluster_inv :: "raft_cluster \<Rightarrow> bool" where
  "cluster_inv C \<longleftrightarrow>
     (\<forall>n r. stores C n = Some r \<longrightarrow> raft_reach n r \<and> vote_durable r)
     \<and> (\<forall>n t c. (n, t, c) \<in> ballots C \<longrightarrow> (\<exists>r. stores C n = Some r \<and> keeps_ballot r t c))
     \<and> (\<forall>n t c c'. (n, t, c) \<in> ballots C \<longrightarrow> (n, t, c') \<in> ballots C \<longrightarrow> c = c')"

lemma exec_keeps_ballot:
  assumes "keeps_ballot r t c" and "op_room r op" and "exec IO_ok r op = (rep, r')"
  shows "keeps_ballot r' t c"
  using exec_moves [OF assms(2), of IO_ok] assms(1,3)
  by (auto simp: vote_moves_def keeps_ballot_def intro: voted_step)

lemma exec_durable:
  assumes "vote_durable r" and "op_room r op" and "exec IO_ok r op = (rep, r')"
  shows "vote_durable r'"
  using exec_moves [OF assms(2), of IO_ok] assms(1,3)
  by (auto simp: vote_moves_def vote_durable_def same_vote_def)

lemma exec_new_ballot:
  assumes "vote_durable r'" and "exec io r op = (rep, r')" and "(m, t, c) \<in> ballots_of n op rep"
    and "ValidNodeID (nodeID r)"
  shows "m = n \<and> keeps_ballot r' t c" and "keeps_ballot r' t c0 \<Longrightarrow> c0 = c"
  using exec_ballot [OF assms(2-4)] assms(1)
  by (auto simp: keeps_ballot_def voted_def vote_durable_def same_vote_def)

lemma crash_restores:
  assumes "raft_reach n r" and "op_room r op" and "exec io r op = (rep, r1)" and "disk r1 = Some d"
    and "OpenRaftStore io' (StateFile d) n 1 = Inr r'"
  shows "raft_reach n r'" and "vote_durable r'" and "keeps_ballot r t c \<Longrightarrow> keeps_ballot r' t c"
proof -
  have r1: "raft_reach n r1" using raft_reach.operated [OF assms(1,2), of io] assms(3) by simp
  then show "raft_reach n r'" using assms(4,5) by (rule raft_reach.restarted)
  have r': "state r' = d" "disk r' = Some d"
    using raft_reach_inv [OF r1] assms(4,5) open_state_file [of d n io'] by auto
  then show "vote_durable r'" by (simp add: vote_durable_def)
  assume k: "keeps_ballot r t c"
  have "vote_step (state r) (state r1)" using exec_moves [OF assms(2), of io] assms(3) by (simp add: vote_moves_def)
  moreover have "disk r1 = disk r \<or> disk r1 = Some (state r1)"
    using exec_writes [of r io op] assms(3) by (simp add: writes_through_def)
  ultimately show "keeps_ballot r' t c" using k assms(4) r' voted_step by (auto simp: keeps_ballot_def)
qed

lemma cluster_step_inv:
  assumes "cluster_step C C'" and "cluster_inv C"
  shows "cluster_inv C'"
  using assms
proof (induction rule: cluster_step.induct)
  case (boot C n r)
  have "raft_reach n r" using boot(2) by (rule raft_reach.opened)
  moreover have "vote_durable r" using boot(2)
    by (auto simp: OpenRaftStore_def persistLocked_def vote_durable_def bootstrapState_def split: if_splits)
  ultimately show ?case using boot(1,3) by (fastforce simp: cluster_inv_def)
next
  case (serve C n r op rep r')
  have r: "raft_reach n r" "vote_durable r" using serve(1,4) by (auto simp: cluster_inv_def)
  have r': "raft_reach n r'" "vote_durable r'"
    using raft_reach.operated [OF r(1) serve(2), of IO_ok] exec_durable [OF r(2) serve(2,3)] serve(3) by auto
  have v: "ValidNodeID (nodeID r)" using raft_reach_inv [OF r(1)] by simp
  have new: "m = n \<and> keeps_ballot r' t c \<and> (\<forall>c0. keeps_ballot r' t c0 \<longrightarrow> c0 = c)"
    if "(m, t, c) \<in> ballots_of n op rep" for m t c
    using exec_new_ballot [OF r'(2) serve(3) that v] by simp
  have old: "keeps_ballot r' t c" if "(n, t, c) \<in> ballots C" for t c
    using that serve(1,4) exec_keeps_ballot [OF _ serve(2,3)] by (fastforce simp: cluster_inv_def)
  show ?case using serve(1,4) r' new old unfolding cluster_inv_def
    by (auto; metis)
next
  case (crash C n r op io rep r1 d io' r')
  have r: "raft_reach n r" using crash(1,6) by (auto simp: cluster_inv_def)
  note c = crash_restores [OF r crash(2-5)]
  show ?case using crash(1,6) c by (fastforce simp: cluster_inv_def)
qed

lemma cluster_reach_inv: "cluster_reach C \<Longrightarrow> cluster_inv C"
  by (induction rule: cluster_reach.induct) (simp add: cluster_inv_def, rule cluster_step_inv)

text \<open>The voter lists that a store asks a majority of.\<close>

definition voter_configs :: "RaftStore \<Rightarrow> string list set" where
  "voter_configs r =
     (if JointOldVoters (state r) \<noteq> [] then {JointOldVoters (state r), JointNewVoters (state r)}
      else {Voters (state r)})"

lemma HasVoterQuorum_majority:
  "HasVoterQuorum r acks \<longleftrightarrow> (\<forall>vs \<in> voter_configs r. voterMajority vs (set acks))"
  by (simp add: HasVoterQuorum_def voter_configs_def Let_def)

lemma voter_configs_distinct:
  "raft_reach n r \<Longrightarrow> vs \<in> voter_configs r \<Longrightarrow> distinct vs"
  using raft_reach_inv [of n r]
  by (auto simp: voter_configs_def raft_wf_def applied_ok_def appliedOf_def canonicalVoters_iff
      split: if_splits)


definition sample_voter :: RaftStore where
  "sample_voter = snd (exec IO_ok sample_store (ConfigureVotersOp [sample_node (CHR ''1'')]))"

definition sample_candidate :: RaftStore where
  "sample_candidate = snd (exec IO_ok sample_voter BeginElectionOp)"

definition sample_cluster :: raft_cluster where
  "sample_cluster =
     \<lparr>stores = [sample_node (CHR ''1'') \<mapsto> sample_candidate],
      ballots = {(sample_node (CHR ''1''), 1, sample_node (CHR ''1''))}\<rparr>"

lemma sample_candidate_facts:
  "exec IO_ok sample_store (ConfigureVotersOp [sample_node (CHR ''1'')]) = (Done, sample_voter)"
  "exec IO_ok sample_voter BeginElectionOp =
     (Elect \<lparr>rv_Term = 1, CandidateID = sample_node (CHR ''1''), LastLogIndex = 0, LastLogTerm = 0\<rparr>, sample_candidate)"
  "CurrentTerm (state sample_voter) = 0"
  "HasVoterQuorum sample_candidate [sample_node (CHR ''1'')]"
  by code_simp+

lemma sample_cluster_reach: "cluster_reach sample_cluster"
proof -
  let ?n = "sample_node (CHR ''1'')"
  have s0: "cluster_reach \<lparr>stores = [?n \<mapsto> sample_store], ballots = {}\<rparr>"
    using cluster_reach.step [OF cluster_reach.empty cluster_step.boot [of _ ?n sample_store]]
    by (simp add: OpenRaftStore_def persistLocked_def sample_store_def)
  have s1: "cluster_reach \<lparr>stores = [?n \<mapsto> sample_voter], ballots = {}\<rparr>"
    using cluster_reach.step [OF s0 cluster_step.serve [where n = ?n, OF _ _ sample_candidate_facts(1)]]
    by simp
  show ?thesis
    using cluster_reach.step [OF s1 cluster_step.serve [where n = ?n, OF _ _ sample_candidate_facts(2)]]
    by (simp add: sample_candidate_facts sample_cluster_def)
qed


text \<open>
  C15: an entry is committed by \<open>CommitWithVoterAcks\<close> only when it carries the leader's current term
  and the acknowledging voters form a quorum of every active configuration; that quorum then shares
  a voter with every quorum of a configuration that has a voter set in common, in particular with
  the one that elects the next leader, also across the joint phase of a membership change.
\<close>

theorem commit_needs_quorum:
  assumes "raft_reach n r" and "CommitWithVoterAcks io r i t acks = (Inr (), r')"
  shows "HasVoterQuorum r acks \<and> t = CurrentTerm (state r)
    \<and> map_option Term (entry_at (state r) (unat i)) = Some t
    \<and> unat (CommitIndex (state r')) = max (unat (CommitIndex (state r))) (unat i)
    \<and> disk r' = Some (state r')
    \<and> (\<forall>other acks'. voter_configs r \<inter> voter_configs other \<noteq> {} \<longrightarrow> HasVoterQuorum other acks' \<longrightarrow>
         set acks \<inter> set acks' \<noteq> {})"
proof -
  let ?s = "state r"
  have w: "raft_wf 1 ?s" using raft_reach_inv [OF assms(1)] by simp
  then have lb: "log_bound ?s" by (simp add: raft_wf_def)
  have q: "HasVoterQuorum r acks" and c: "commitEntry io r i t = (Inr (), r')"
    using assms(2) by (auto simp: CommitWithVoterAcks_def HasVoterQuorum_def Let_def split: if_splits)
  then obtain s1 where s1: "t = CurrentTerm ?s" "\<not> i \<le> SnapshotIndex ?s" "termAtLocked ?s i = Inr t"
      "applyThroughLocked ?s i = Inr s1" "persist_then io (set_state r s1) () = (Inr (), r')"
    by (auto simp: commitEntry_def Let_def split: if_splits sum.splits)
  have i: "unat (SnapshotIndex ?s) < unat i" "unat i \<le> unat (SnapshotIndex ?s) + length (Entries ?s)"
      "t = Term (Entries ?s ! (unat i - unat (SnapshotIndex ?s) - 1))"
    using s1(2,3) termAtLocked_iff [OF lb, of i t] by (auto simp: word_le_nat_alt)
  have io: "io = IO_ok" using arg_cong [OF s1(5), of fst] by (simp split: if_splits)
  have r': "state r' = s1" "disk r' = Some s1"
    using arg_cong [OF s1(5), of "\<lambda>p. state (snd p)"] arg_cong [OF s1(5), of "\<lambda>p. disk (snd p)"] io by simp_all
  have "unat (CommitIndex s1) = max (unat (CommitIndex ?s)) (unat i)"
    using applyThroughLocked_wf [OF w i(2) s1(4)] by (metis with_applied_simps(1))
  moreover have "set acks \<inter> set acks' \<noteq> {}"
    if "voter_configs r \<inter> voter_configs other \<noteq> {}" "HasVoterQuorum other acks'" for other acks'
    using that q voter_configs_distinct [OF assms(1)] vq.not_disjoint [of _ "set acks" "set acks'"]
    by (auto simp: HasVoterQuorum_majority)
  ultimately show ?thesis using q s1(1) i r' by (simp add: entry_at_def)
qed

definition sample_leader :: RaftStore where
  "sample_leader = snd (exec IO_ok sample_candidate (AppendCommandOp 1 (Command sample_entry)))"

definition sample_committed :: RaftStore where
  "sample_committed = snd (CommitWithVoterAcks IO_ok sample_leader 1 1 [sample_node (CHR ''1'')])"

lemma sample_leader_facts:
  "CommitWithVoterAcks IO_ok sample_leader 1 1 [sample_node (CHR ''1'')] = (Inr (), sample_committed)"
  "CommitIndex (state sample_committed) = 1" "CommitIndex (state sample_leader) = 0"
  "Entries (state sample_candidate) = []" "SnapshotIndex (state sample_candidate) = 0"
  by code_simp+

lemma sample_leader_reach: "raft_reach (sample_node (CHR ''1'')) sample_leader"
proof -
  let ?n = "sample_node (CHR ''1'')"
  have "raft_reach ?n sample_candidate"
    using cluster_reach_inv [OF sample_cluster_reach] by (simp add: cluster_inv_def sample_cluster_def)
  from raft_reach.operated [OF this, of "AppendCommandOp 1 (Command sample_entry)" IO_ok]
  show ?thesis using sample_leader_facts(4,5) by (simp add: sample_leader_def)
qed

theorem commit_needs_quorum_witness:
  "map_option Term (entry_at (state sample_leader) 1) = Some 1 \<and> CommitIndex (state sample_committed) = 1"
  using commit_needs_quorum [OF sample_leader_reach sample_leader_facts(1)] sample_leader_facts(2) by simp

subsection \<open>Where the code falls short\<close>










subsection \<open>Replication batches\<close>

text \<open>
  C28: a batch read from the leader's log is the contiguous run of entries from the requested index,
  at most \<open>limit\<close> of them, preceded by the index and term that \<open>AppendEntries\<close> matches on; it is
  empty only when the requested index is the next free one.
\<close>

theorem LogBatch_contiguous:
  assumes "raft_reach n r" and "LogBatch r nxt limit = Inr (term, commit, prev, prevTerm, es)"
  shows "term = CurrentTerm (state r) \<and> commit = CommitIndex (state r) \<and> prev + 1 = nxt
    \<and> termAtLocked (state r) prev = Inr prevTerm \<and> length es \<le> nat limit
    \<and> (\<forall>j < length es. entry_at (state r) (unat nxt + j) = Some (es ! j))
    \<and> (es = [] \<longleftrightarrow> nxt = fst (lastLogLocked (state r)) + 1)"
proof -
  let ?s = "state r"
  let ?k = "unat (nxt - SnapshotIndex ?s - 1)"
  have lb: "log_bound ?s" using raft_reach_inv [OF assms(1)] by (simp add: raft_wf_def)
  have g: "SnapshotIndex ?s < nxt" "nxt \<le> fst (lastLogLocked ?s) + 1" "1 \<le> limit"
    and t: "termAtLocked ?s prev = Inr prevTerm" "prev = nxt - 1"
    and es: "es = take (min (length (Entries ?s)) (?k + nat limit) - ?k) (drop ?k (Entries ?s))"
    and o: "term = CurrentTerm ?s" "commit = CommitIndex ?s"
    using assms(2) by (auto simp: LogBatch_def Let_def and_then_Inr_iff not_le not_less split: if_splits)
  have k: "?k = unat nxt - unat (SnapshotIndex ?s) - 1" by (rule unat_minus_Suc [OF g(1)])
  have n0: "0 < unat nxt" "unat (SnapshotIndex ?s) < unat nxt" using g(1) by (auto simp: word_less_nat_alt)
  then have p: "unat prev = unat nxt - 1" using t(2) unat_minus [of 1 nxt] by (simp add: word_le_nat_alt)
  then have le: "unat nxt - 1 \<le> unat (SnapshotIndex ?s) + length (Entries ?s)"
    using t(1) termAtLocked_iff [OF lb, of prev prevTerm] by auto
  have len: "length es = min (length (Entries ?s) - ?k) (nat limit)"
    using es by (auto simp: min_def)
  have "nxt = fst (lastLogLocked ?s) + 1 \<longleftrightarrow> prev = fst (lastLogLocked ?s)"
    using t(2) by (metis add_diff_cancel diff_add_cancel)
  also have "\<dots> \<longleftrightarrow> unat nxt - 1 = unat (SnapshotIndex ?s) + length (Entries ?s)"
    using p last_index [OF lb] by (simp add: word_unat_eq_iff)
  also have "\<dots> \<longleftrightarrow> es = []" using len k n0 le g(3) by (auto simp flip: length_0_conv)
  finally have emp: "es = [] \<longleftrightarrow> nxt = fst (lastLogLocked ?s) + 1" by blast
  have "entry_at ?s (unat nxt + j) = Some (es ! j)" if j: "j < length es" for j
  proof -
    have "es ! j = Entries ?s ! (?k + j)" using j es by simp
    moreover have "?k + j < length (Entries ?s)" using j len by auto
    moreover have "unat nxt + j - unat (SnapshotIndex ?s) - 1 = ?k + j" using k n0 by simp
    ultimately show ?thesis using n0 k by (simp add: entry_at_def Let_def)
  qed
  then show ?thesis using o t emp len by simp
qed

theorem LogBatch_contiguous_witness:
  "\<exists>prevTerm. LogBatch sample_leader 1 8 = Inr (1, 0, 0, prevTerm, [sample_entry])
     \<and> termAtLocked (state sample_leader) 0 = Inr prevTerm"
proof -
  have "LogBatch sample_leader 1 8 = Inr (1, 0, 0, 0, [sample_entry])" by code_simp
  then show ?thesis using LogBatch_contiguous [OF sample_leader_reach] by blast
qed

end
