(* ===== verification/Crc_Detect.thy ===== *)
theory Crc_Detect
  imports Go_Lib
begin

text \<open>
  CRC-32C is linear over exclusive or and its byte step is injective in the running checksum and in
  the byte, so a change confined to one byte always changes the checksum. The logs and the
  replication state of the database rely on this to refuse damaged records.
\<close>

lemma xor_cancel:
  fixes a b c :: u32
  shows "a XOR c = b XOR c \<Longrightarrow> a = b" and "c XOR a = c XOR b \<Longrightarrow> a = b" and "a XOR b = 0 \<Longrightarrow> a = b"
  by (auto simp: bit_eq_iff bit_xor_iff)

lemma crc_shift_linear: "crc_shift (a XOR b) = crc_shift a XOR crc_shift b"
  by (rule bit_word_eqI) (auto simp: crc_shift_def bit_xor_iff bit_drop_bit_eq)

lemma crc_shift_pow_linear: "(crc_shift ^^ n) (a XOR b) = (crc_shift ^^ n) a XOR (crc_shift ^^ n) b"
  by (induction n) (simp_all add: crc_shift_linear)

lemma crc_poly_bit: "bit crc_poly 31"
  by (simp add: crc_poly_def)

lemma crc_shift_zero: "crc_shift c = 0 \<Longrightarrow> c = 0"
proof (rule ccontr)
  assume z: "crc_shift c = 0" and nz: "c \<noteq> 0"
  show False
  proof (cases "bit c 0")
    case True
    have "bit (crc_shift c) 31 = (bit (drop_bit 1 c) 31 \<noteq> bit crc_poly 31)"
      using True by (simp add: crc_shift_def bit_xor_iff)
    moreover have "\<not> bit (drop_bit 1 c) 31"
      using bit_imp_le_length [of c 32] by (auto simp: bit_drop_bit_eq)
    ultimately show False using z crc_poly_bit by simp
  next
    case False
    obtain k where k: "bit c k" using nz by (metis bit_0_eq bit_eq_iff bot_apply bot_bool_def)
    then have "bit (crc_shift c) (k - 1)" using False by (cases k) (auto simp: crc_shift_def bit_drop_bit_eq)
    then show False using z by simp
  qed
qed

lemma crc_shift_pow_zero: "(crc_shift ^^ n) c = 0 \<Longrightarrow> c = 0"
  by (induction n arbitrary: c) (auto simp: funpow_swap1 dest: crc_shift_zero)

text \<open>A word whose low bits are clear is only shifted.\<close>

lemma crc_shift_pow_high:
  "(\<And>k. k < n \<Longrightarrow> \<not> bit c k) \<Longrightarrow> (crc_shift ^^ n) c = drop_bit n c"
proof (induction n)
  case (Suc n)
  then have "(crc_shift ^^ n) c = drop_bit n c" by simp
  moreover have "\<not> bit (drop_bit n c) 0" using Suc.prems [of n] by (simp add: bit_drop_bit_eq)
  ultimately show ?case by (simp add: crc_shift_def [of "drop_bit n c"])
qed simp

text \<open>The table step is eight bit steps of the checksum combined with the byte.\<close>

lemma crc_step_shift: "crc_step v c = (crc_shift ^^ 8) (c XOR ucast v)"
proof -
  let ?x = "c XOR ucast v"
  let ?l = "take_bit 8 ?x"
  have split: "?x = ?l XOR (?x XOR ?l)" by (rule bit_word_eqI) (auto simp: bit_xor_iff)
  have low: "ucast (ucast c XOR v) = ?l"
    by (rule bit_word_eqI)
      (auto simp: bit_ucast_iff bit_xor_iff bit_take_bit_iff dest: bit_imp_le_length [of v])
  have "(crc_shift ^^ 8) (?x XOR ?l) = drop_bit 8 (?x XOR ?l)"
    by (rule crc_shift_pow_high) (auto simp: bit_xor_iff bit_take_bit_iff)
  also have "\<dots> = drop_bit 8 c"
    by (rule bit_word_eqI) (auto simp: bit_drop_bit_eq bit_xor_iff bit_take_bit_iff bit_ucast_iff
        dest: bit_imp_le_length [of v])
  finally have "(crc_shift ^^ 8) ?x = crc_table (ucast c XOR v) XOR drop_bit 8 c"
    using arg_cong [OF split, of "crc_shift ^^ 8"] low
    by (simp add: crc_shift_pow_linear crc_table_def)
  then show ?thesis by (simp add: crc_step_def)
qed

lemma crc_shift_pow_inject: "(crc_shift ^^ n) a = (crc_shift ^^ n) b \<Longrightarrow> a = b"
  using crc_shift_pow_zero [of n "a XOR b"] xor_cancel(3)
  by (simp add: crc_shift_pow_linear)

lemma ucast_u8_inject: "(ucast (v::u8) :: u32) = ucast w \<Longrightarrow> v = w"
  by (auto simp: bit_eq_iff bit_ucast_iff dest: bit_imp_le_length)

lemma crc_step_inject_state: "crc_step v c = crc_step v d \<Longrightarrow> c = d"
  using crc_shift_pow_inject [of 8 "c XOR ucast v" "d XOR ucast v"]
  by (auto simp: crc_step_shift dest: xor_cancel)

lemma crc_step_inject_byte: "crc_step v c = crc_step w c \<Longrightarrow> v = w"
  using crc_shift_pow_inject [of 8 "c XOR ucast v" "c XOR ucast w"] ucast_u8_inject
  by (auto simp: crc_step_shift dest: xor_cancel)

lemma crc_fold_inject: "fold crc_step p c = fold crc_step p d \<Longrightarrow> c = d"
  by (induction p arbitrary: c d) (auto dest: crc_step_inject_state)

lemma crc32_one_byte_changed:
  assumes "crc32_update c (p @ v # q) = crc32_update c (p @ w # q)"
  shows "v = w"
proof -
  have "fold crc_step q (crc_step v (fold crc_step p (NOT c))) = fold crc_step q (crc_step w (fold crc_step p (NOT c)))"
    using assms by (simp add: crc32_update_def)
  then show ?thesis using crc_fold_inject crc_step_inject_byte by blast
qed

end
