(* ===== verification/Wal.thy ===== *)
theory Wal
  imports Crc_Detect
begin

text \<open>
  \<open>internal/wal/wal.go\<close>: the write-ahead log of a shard, byte by byte. A log is the content of its
  file, the file position, the sync mode and the next sequence number. Outcomes of system calls are
  arguments; the callback that applies a record is a function on a state of any type.
\<close>

subsection \<open>Records and their encoding\<close>

definition headerSize :: nat where
  "headerSize = 28"

definition formatVersion :: u16 where
  "formatVersion = 1"

definition maximumPayload :: nat where
  "maximumPayload = 64 * 2 ^ 20"

definition magic :: bytes where
  "magic = [0x56, 0x44, 0x42, 0x57]"

definition OperationUpsert :: u8 where
  "OperationUpsert = 1"

definition OperationDelete :: u8 where
  "OperationDelete = 2"

definition OperationBatchUpsert :: u8 where
  "OperationBatchUpsert = 3"

definition validOperation :: "u8 \<Rightarrow> bool" where
  "validOperation operation =
     (\<not> (operation \<noteq> OperationUpsert \<and> operation \<noteq> OperationDelete \<and> operation \<noteq> OperationBatchUpsert))"

record Record =
  LSN :: u64
  Operation :: u8
  Payload :: bytes

text \<open>Bytes 4 to 24 of the header, the part the checksum covers.\<close>

definition headerBody :: "u64 \<Rightarrow> u8 \<Rightarrow> bytes \<Rightarrow> bytes" where
  "headerBody lsn operation payload =
     put_le 2 formatVersion @ [0, 0] @ put_le 4 (of_nat (length payload) :: u32) @ put_le 8 lsn
     @ [operation] @ [0, 0, 0]"

definition encodeHeader :: "u64 \<Rightarrow> u8 \<Rightarrow> bytes \<Rightarrow> bytes" where
  "encodeHeader lsn operation payload =
     (let body = headerBody lsn operation payload;
          checksum = crc32_update (crc32_update 0 body) payload in
      magic @ body @ put_le 4 checksum)"

subsection \<open>Recovery\<close>

definition slice :: "'a list \<Rightarrow> nat \<Rightarrow> nat \<Rightarrow> 'a list" where
  "slice xs a b = take (b - a) (drop a xs)"

text \<open>The checks on a complete header; the result is the payload length, the LSN and the operation.\<close>

definition checkHeader :: "u64 \<Rightarrow> bytes \<Rightarrow> (nat \<times> u64 \<times> u8) result" where
  "checkHeader lastLSN header =
     (if slice header 0 4 \<noteq> magic then Inl (ErrMsg ''WAL corruption: invalid magic'')
      else if (get_le (slice header 4 6) :: u16) \<noteq> formatVersion then Inl (ErrMsg ''WAL version is unsupported'')
      else if (get_le (slice header 6 8) :: u16) \<noteq> 0 \<or> header ! 21 \<noteq> 0 \<or> header ! 22 \<noteq> 0 \<or> header ! 23 \<noteq> 0
      then Inl (ErrMsg ''WAL corruption: reserved fields are nonzero'')
      else
        let len = unat (get_le (slice header 8 12) :: u32);
            lsn = (get_le (slice header 12 20) :: u64);
            operation = header ! 20 in
        if len > maximumPayload then Inl (ErrMsg ''WAL corruption: payload length'')
        else if \<not> validOperation operation then Inl (ErrMsg ''WAL corruption: operation'')
        else if lastLSN \<noteq> 0 \<and> lsn \<noteq> lastLSN + 1 then Inl (ErrMsg ''WAL corruption: non-contiguous LSN'')
        else Inr (len, lsn, operation))"

type_synonym 'st apply_fun = "(Record \<Rightarrow> 'st \<Rightarrow> 'st result) option"

definition applyRecord :: "'st apply_fun \<Rightarrow> u64 \<Rightarrow> Record \<Rightarrow> 'st \<Rightarrow> 'st result" where
  "applyRecord apply replayAfter rec st =
     (case apply of
        None \<Rightarrow> Inr st
      | Some f \<Rightarrow> if LSN rec > replayAfter then f rec st else Inr st)"

function recoverLoop ::
  "'st apply_fun \<Rightarrow> u64 \<Rightarrow> bytes \<Rightarrow> u64 \<Rightarrow> nat \<Rightarrow> 'st \<Rightarrow> (u64 \<times> nat) result \<times> 'st" where
  "recoverLoop apply replayAfter file lastLSN validBytes st =
     (let header = take headerSize file; rest = drop headerSize file in
      if length header < headerSize then (Inr (lastLSN, validBytes), st)
      else case checkHeader lastLSN header of
        Inl e \<Rightarrow> (Inl e, st)
      | Inr (len, lsn, operation) \<Rightarrow>
          let payload = take len rest in
          if length payload < len then (Inr (lastLSN, validBytes), st)
          else if crc32_update (crc32_update 0 (slice header 4 24)) payload \<noteq> get_le (slice header 24 28)
          then (Inl (ErrMsg ''WAL corruption: checksum mismatch''), st)
          else case applyRecord apply replayAfter \<lparr>LSN = lsn, Operation = operation, Payload = payload\<rparr> st of
            Inl e \<Rightarrow> (Inl e, st)
          | Inr st' \<Rightarrow>
              recoverLoop apply replayAfter (drop len rest) lsn (validBytes + headerSize + len) st')"
  by pat_completeness auto
termination
  by (relation "measure (\<lambda>(a, ra, file, l, v, st). length file)") (auto simp: headerSize_def)

declare recoverLoop.simps [simp del]

definition recoverFile ::
  "bytes \<Rightarrow> u64 \<Rightarrow> 'st apply_fun \<Rightarrow> 'st \<Rightarrow> (u64 \<times> nat) result \<times> 'st" where
  "recoverFile file replayAfter apply st = recoverLoop apply replayAfter file 0 0 st"

subsection \<open>The log\<close>

record Log =
  content :: bytes
  position :: nat
  mode :: string
  nextLSN :: u64

record OpenOptions =
  SyncMode :: string
  InitialLSN :: u64
  ReplayAfter :: u64

text \<open>Which of the system calls around the recovery succeed.\<close>

record open_io =
  prepared :: bool
  statted :: bool
  truncated :: bool
  seeked :: bool

definition OpenWithOptions ::
  "open_io \<Rightarrow> bytes option \<Rightarrow> OpenOptions \<Rightarrow> 'st apply_fun \<Rightarrow> 'st \<Rightarrow> Log result \<times> 'st" where
  "OpenWithOptions io file options apply st =
     (if SyncMode options \<noteq> ''always'' \<and> SyncMode options \<noteq> ''async''
      then (Inl (ErrMsg ''unsupported WAL sync mode''), st)
      else if \<not> prepared io then (Inl ErrIO, st)
      else
        let bytes = (case file of None \<Rightarrow> [] | Some b \<Rightarrow> b);
            initial = (if InitialLSN options = 0 then 1 else InitialLSN options) in
        case recoverFile bytes (ReplayAfter options) apply st of
          (Inl e, st') \<Rightarrow> (Inl e, st')
        | (Inr (lastLSN, validBytes), st') \<Rightarrow>
            if \<not> statted io then (Inl ErrIO, st')
            else if length bytes \<noteq> validBytes \<and> \<not> truncated io then (Inl ErrIO, st')
            else if \<not> seeked io then (Inl ErrIO, st')
            else
              let kept = take validBytes bytes;
                  next_lsn = (if lastLSN = 0 then initial else lastLSN + 1) in
              (Inr \<lparr>content = kept, position = length kept, mode = SyncMode options,
                    nextLSN = next_lsn\<rparr>, st'))"

definition OpenLog ::
  "open_io \<Rightarrow> bytes option \<Rightarrow> string \<Rightarrow> 'st apply_fun \<Rightarrow> 'st \<Rightarrow> Log result \<times> 'st" where
  "OpenLog io file sync_mode apply st =
     OpenWithOptions io file \<lparr>SyncMode = sync_mode, InitialLSN = 1, ReplayAfter = 0\<rparr> apply st"

text \<open>
  A write at the file position; the position moves behind it. Writing past the end fills the gap
  with zero bytes.
\<close>

definition write_at :: "Log \<Rightarrow> bytes \<Rightarrow> Log" where
  "write_at l data =
     l\<lparr>content := take (position l) (content l) @ replicate (position l - length (content l)) 0
                  @ data @ drop (position l + length data) (content l),
       position := position l + length data\<rparr>"

text \<open>
  \<open>rollbackLocked\<close> ignores the errors of its truncation and of its seek.
\<close>

definition rollbackLocked :: "bool \<Rightarrow> bool \<Rightarrow> Log \<Rightarrow> nat \<Rightarrow> Log" where
  "rollbackLocked truncate_ok seek_ok l offset =
     (let l1 = (if truncate_ok then l\<lparr>content := take offset (content l)\<rparr> else l) in
      if seek_ok then l1\<lparr>position := offset\<rparr> else l1)"

text \<open>
  What happens to the bytes of an append: everything is written and, where asked, synced; the seek
  fails; the write stops after some bytes; or the sync fails. The two flags are those of the rollback.
\<close>

datatype append_io =
    Written
  | SeekFailed
  | WriteStopped nat bool bool
  | SyncFailed bool bool

definition Append :: "append_io \<Rightarrow> Log \<Rightarrow> u8 \<Rightarrow> bytes \<Rightarrow> u64 result \<times> Log" where
  "Append io l operation payload =
     (if \<not> validOperation operation then (Inl (ErrMsg ''invalid WAL operation''), l)
      else if length payload > maximumPayload then (Inl (ErrMsg ''WAL payload exceeds limit''), l)
      else
        let lsn = nextLSN l; start = position l;
            data = encodeHeader lsn operation payload @ payload in
        case io of
          SeekFailed \<Rightarrow> (Inl ErrIO, l)
        | WriteStopped n tr sk \<Rightarrow> (Inl ErrIO, rollbackLocked tr sk (write_at l (take n data)) start)
        | SyncFailed tr sk \<Rightarrow>
            if mode l = ''always''
            then (Inl ErrIO, rollbackLocked tr sk (write_at l data) start)
            else (Inr lsn, (write_at l data)\<lparr>nextLSN := lsn + 1\<rparr>)
        | Written \<Rightarrow> (Inr lsn, (write_at l data)\<lparr>nextLSN := lsn + 1\<rparr>))"

definition LastLSN :: "Log \<Rightarrow> u64" where
  "LastLSN l = (if nextLSN l = 0 then 0 else nextLSN l - 1)"

text \<open>The truncation, the seek and the sync of \<open>Reset\<close>.\<close>

definition Reset :: "bool \<Rightarrow> bool \<Rightarrow> bool \<Rightarrow> Log \<Rightarrow> u64 \<Rightarrow> unit result \<times> Log" where
  "Reset truncate_ok seek_ok sync_ok l next_lsn =
     (if next_lsn = 0 then (Inl (ErrMsg ''next LSN must be positive''), l)
      else if \<not> truncate_ok then (Inl ErrIO, l)
      else
        let l1 = l\<lparr>content := []\<rparr> in
        if \<not> seek_ok then (Inl ErrIO, l1)
        else
          let l2 = l1\<lparr>position := 0\<rparr> in
          if \<not> sync_ok then (Inl ErrIO, l2)
          else (Inr (), l2\<lparr>nextLSN := next_lsn\<rparr>))"

subsection \<open>Encoding and decoding one record\<close>

definition encode_record :: "Record \<Rightarrow> bytes" where
  "encode_record r = encodeHeader (LSN r) (Operation r) (Payload r) @ Payload r"

definition encode_log :: "Record list \<Rightarrow> bytes" where
  "encode_log rs = concat (map encode_record rs)"

definition record_ok :: "Record \<Rightarrow> bool" where
  "record_ok r \<longleftrightarrow> validOperation (Operation r) \<and> length (Payload r) \<le> maximumPayload"

fun contiguous :: "u64 \<Rightarrow> Record list \<Rightarrow> bool" where
  "contiguous l [] = True"
| "contiguous l (r # rs) = ((l \<noteq> 0 \<longrightarrow> LSN r = l + 1) \<and> contiguous (LSN r) rs)"

lemma length_headerBody [simp]: "length (headerBody lsn op p) = 20"
  by (simp add: headerBody_def)

lemma length_encodeHeader [simp]: "length (encodeHeader lsn op p) = headerSize"
  by (simp add: encodeHeader_def Let_def headerSize_def magic_def)

lemma length_encode_record: "length (encode_record r) = headerSize + length (Payload r)"
  by (simp add: encode_record_def)

lemma slice_append:
  "slice (xs @ ys) a b = (if b \<le> length xs then slice xs a b
     else if length xs \<le> a then slice ys (a - length xs) (b - length xs)
     else drop a xs @ slice ys 0 (b - length xs))"
  by (auto simp: slice_def)

lemma slice_all: "b = length xs \<Longrightarrow> slice xs 0 b = xs"
  by (simp add: slice_def)

text \<open>The fields of an encoded header.\<close>

lemma encodeHeader_fields:
  fixes lsn :: u64 and op :: u8 and p :: bytes
  defines "h \<equiv> encodeHeader lsn op p"
  shows "slice h 0 4 = magic" and "slice h 4 6 = put_le 2 formatVersion" and "slice h 6 8 = [0, 0]"
    and "slice h 8 12 = put_le 4 (of_nat (length p) :: u32)" and "slice h 12 20 = put_le 8 lsn"
    and "h ! 20 = op" and "h ! 21 = 0" and "h ! 22 = 0" and "h ! 23 = 0"
    and "slice h 4 24 = headerBody lsn op p"
    and "slice h 24 28 = put_le 4 (crc32_update (crc32_update 0 (headerBody lsn op p)) p)"
  unfolding h_def encodeHeader_def Let_def
  by (simp_all add: slice_append slice_all magic_def headerBody_def nth_append)
    (simp_all add: slice_def)

lemma checkHeader_encoded:
  assumes "record_ok r" and "l \<noteq> 0 \<longrightarrow> LSN r = l + 1"
  shows "checkHeader l (encodeHeader (LSN r) (Operation r) (Payload r))
    = Inr (length (Payload r), LSN r, Operation r)"
proof -
  have "length (Payload r) < 2 ^ 32" using assms(1) by (simp add: record_ok_def maximumPayload_def)
  then have "unat (of_nat (length (Payload r)) :: u32) = length (Payload r)"
    by (simp add: unat_of_nat take_bit_nat_eq_self)
  moreover have "get_le [0 :: u8, 0] = (0 :: u16)" by simp
  ultimately show ?thesis using assms
    by (auto simp: checkHeader_def encodeHeader_fields record_ok_def Let_def)
qed

lemma Record_eta [simp]: "\<lparr>LSN = LSN r, Operation = Operation r, Payload = Payload r\<rparr> = r"
  by simp

lemma recoverLoop_record:
  assumes "record_ok r" and "l \<noteq> 0 \<longrightarrow> LSN r = l + 1"
  shows "recoverLoop ap ra (encode_record r @ tail) l v st =
    (case applyRecord ap ra r st of
       Inl e \<Rightarrow> (Inl e, st)
     | Inr st' \<Rightarrow> recoverLoop ap ra tail (LSN r) (v + length (encode_record r)) st')"
  using checkHeader_encoded [OF assms]
  by (subst recoverLoop.simps)
    (simp add: encode_record_def Let_def encodeHeader_fields add.assoc split: sum.splits)

text \<open>A torn record at the end of the file ends the recovery without an error.\<close>

lemma recoverLoop_torn:
  assumes "record_ok r" and "l \<noteq> 0 \<longrightarrow> LSN r = l + 1" and "n < length (encode_record r)"
  shows "recoverLoop ap ra (take n (encode_record r)) l v st = (Inr (l, v), st)"
proof (cases "n < headerSize")
  case True
  then show ?thesis by (subst recoverLoop.simps) (simp add: Let_def length_encode_record)
next
  case False
  then have "take headerSize (take n (encode_record r)) = encodeHeader (LSN r) (Operation r) (Payload r)"
    "length (drop headerSize (take n (encode_record r))) < length (Payload r)"
    using assms(3) by (auto simp: encode_record_def)
  then show ?thesis using checkHeader_encoded [OF assms(1,2)]
    by (subst recoverLoop.simps) (simp add: Let_def)
qed

subsection \<open>Recovery of a whole log\<close>

lemma encode_log_simps [simp]:
  "encode_log [] = []" "encode_log (r # rs) = encode_record r @ encode_log rs"
  "encode_log (rs @ rs') = encode_log rs @ encode_log rs'"
  by (simp_all add: encode_log_def)

text \<open>How many records are complete in the first \<open>n\<close> bytes.\<close>

fun complete_records :: "nat \<Rightarrow> Record list \<Rightarrow> nat" where
  "complete_records n [] = 0"
| "complete_records n (r # rs) =
     (if length (encode_record r) \<le> n then Suc (complete_records (n - length (encode_record r)) rs) else 0)"

definition last_lsn :: "u64 \<Rightarrow> Record list \<Rightarrow> u64" where
  "last_lsn l rs = (if rs = [] then l else LSN (last rs))"

lemma last_lsn_simps [simp]: "last_lsn l [] = l" "last_lsn l (r # rs) = last_lsn (LSN r) rs"
  by (simp_all add: last_lsn_def)

lemma contiguous_append: "contiguous l (rs @ rs') \<longleftrightarrow> contiguous l rs \<and> contiguous (last_lsn l rs) rs'"
  by (induction l rs rule: contiguous.induct) auto

lemma recoverLoop_prefix:
  assumes "list_all record_ok rs" and "contiguous l rs"
    and "foldR (applyRecord ap ra) (take (complete_records n rs) rs) st = Inr st'"
  shows "recoverLoop ap ra (take n (encode_log rs)) l v st =
    (Inr (last_lsn l (take (complete_records n rs) rs),
          v + length (encode_log (take (complete_records n rs) rs))), st')"
  using assms
proof (induction rs arbitrary: n l v st)
  case Nil
  then show ?case by (subst recoverLoop.simps) (simp add: headerSize_def)
next
  case (Cons r rs)
  show ?case
  proof (cases "length (encode_record r) \<le> n")
    case True
    then obtain st1 where "applyRecord ap ra r st = Inr st1"
      "foldR (applyRecord ap ra) (take (complete_records (n - length (encode_record r)) rs) rs) st1 = Inr st'"
      using Cons.prems(3) by (auto simp: and_then_Inr_iff)
    then show ?thesis using Cons.prems(1,2) True
        Cons.IH [of "LSN r" "n - length (encode_record r)" st1 "v + length (encode_record r)"]
      by (simp add: recoverLoop_record add.assoc)
  next
    case False
    then show ?thesis using Cons.prems recoverLoop_torn [of r l n ap ra v st] by simp
  qed
qed

lemma complete_records_all: "complete_records (length (encode_log rs)) rs = length rs"
  by (induction rs) auto

lemma complete_records_append:
  "length (encode_log rs) \<le> n \<Longrightarrow>
   complete_records n (rs @ rs') = length rs + complete_records (n - length (encode_log rs)) rs'"
  by (induction rs arbitrary: n) (auto simp: add.commute)

subsection \<open>The invariant of an open log\<close>

definition log_inv :: "Log \<Rightarrow> Record list \<Rightarrow> bool" where
  "log_inv l rs \<longleftrightarrow>
     content l = encode_log rs \<and> position l = length (content l)
     \<and> (mode l = ''always'' \<or> mode l = ''async'')
     \<and> list_all record_ok rs \<and> contiguous 0 rs \<and> list_all (\<lambda>r. LSN r \<noteq> 0) rs
     \<and> nextLSN l \<noteq> 0 \<and> (rs \<noteq> [] \<longrightarrow> nextLSN l = LSN (last rs) + 1)"

definition all_ok :: open_io where
  "all_ok = \<lparr>prepared = True, statted = True, truncated = True, seeked = True\<rparr>"

lemma write_at_end:
  "position l = length (content l) \<Longrightarrow>
   write_at l data = l\<lparr>content := content l @ data, position := length (content l) + length data\<rparr>"
  by (simp add: write_at_def)

lemma write_rolled_back:
  assumes "position l = length (content l)"
  shows "rollbackLocked True True (write_at l data) (position l) = l"
  using assms by (simp add: rollbackLocked_def write_at_end)

lemma Append_log_inv:
  assumes "log_inv l rs" and "Append Written l op p = (Inr lsn, l')" and "nextLSN l + 1 \<noteq> 0"
  shows "lsn = nextLSN l" and "log_inv l' (rs @ [\<lparr>LSN = lsn, Operation = op, Payload = p\<rparr>])"
proof -
  let ?r = "\<lparr>LSN = nextLSN l, Operation = op, Payload = p\<rparr>"
  have ok: "record_ok ?r" and l': "lsn = nextLSN l"
    "l' = (write_at l (encode_record ?r))\<lparr>nextLSN := nextLSN l + 1\<rparr>"
    using assms(2) by (auto simp: Append_def Let_def record_ok_def encode_record_def split: if_splits)
  show "lsn = nextLSN l" by (rule l')
  have "contiguous 0 (rs @ [?r])"
    using assms(1) by (auto simp: log_inv_def contiguous_append last_lsn_def)
  then show "log_inv l' (rs @ [\<lparr>LSN = lsn, Operation = op, Payload = p\<rparr>])"
    using assms(1,3) ok l' by (auto simp: log_inv_def write_at_end)
qed

subsection \<open>Properties of the log\<close>

lemma recoverFile_prefix:
  assumes "list_all record_ok rs" and "contiguous 0 rs"
    and "foldR (applyRecord ap ra) (take (complete_records n rs) rs) st = Inr st'"
  shows "recoverFile (take n (encode_log rs)) ra ap st =
    (Inr (last_lsn 0 (take (complete_records n rs) rs),
          length (encode_log (take (complete_records n rs) rs))), st')"
  using recoverLoop_prefix [OF assms, of 0] by (simp add: recoverFile_def)

lemma OpenWithOptions_recovered:
  assumes "recoverFile bytes (ReplayAfter opts) ap st = (Inr (lsn, v), st')" and "take v bytes = kept"
    and "SyncMode opts = ''always'' \<or> SyncMode opts = ''async''"
  shows "OpenWithOptions all_ok (Some bytes) opts ap st =
    (Inr \<lparr>content = kept, position = length kept, mode = SyncMode opts,
          nextLSN = (if lsn = 0 then if InitialLSN opts = 0 then 1 else InitialLSN opts else lsn + 1)\<rparr>, st')"
  using assms by (auto simp: OpenWithOptions_def all_ok_def Let_def)

text \<open>
  C14: crash safety. Whatever part of an append in flight reached the file, reopening it succeeds,
  applies the records past \<open>ReplayAfter\<close> of exactly the completed appends in order, cuts the torn
  tail, and leaves a log ready to continue with the next sequence number.
\<close>

theorem wal_crash_recovery:
  assumes "log_inv l rs" and "record_ok r" and "LSN r = nextLSN l" and "nextLSN l + 1 \<noteq> 0"
    and "n \<le> length (encode_record r)"
    and "ks = (if n = length (encode_record r) then rs @ [r] else rs)"
    and "foldR (applyRecord ap (ReplayAfter opts)) ks st = Inr st'"
    and "SyncMode opts = ''always'' \<or> SyncMode opts = ''async''"
  shows "\<exists>l'. OpenWithOptions all_ok (Some (content l @ take n (encode_record r))) opts ap st = (Inr l', st')
    \<and> log_inv l' ks
    \<and> nextLSN l' = (if ks = [] then if InitialLSN opts = 0 then 1 else InitialLSN opts else LSN (last ks) + 1)"
proof -
  have inv: "content l = encode_log rs" "list_all record_ok (rs @ [r])" "contiguous 0 (rs @ [r])"
    "list_all (\<lambda>r. LSN r \<noteq> 0) (rs @ [r])" and nz: "nextLSN l \<noteq> 0"
    using assms(1-3) by (auto simp: log_inv_def contiguous_append last_lsn_def)
  let ?m = "length (encode_log rs) + n"
  have fl: "content l @ take n (encode_record r) = take ?m (encode_log (rs @ [r]))" using inv(1) by simp
  have k: "take (complete_records ?m (rs @ [r])) (rs @ [r]) = ks"
    using assms(5,6) complete_records_append [of rs ?m "[r]"] by auto
  have rec: "recoverFile (content l @ take n (encode_record r)) (ReplayAfter opts) ap st =
      (Inr (last_lsn 0 ks, length (encode_log ks)), st')"
    unfolding fl by (rule recoverFile_prefix [OF inv(2,3), where n = ?m, unfolded k, OF assms(7)])
  have kept: "take (length (encode_log ks)) (content l @ take n (encode_record r)) = encode_log ks"
    using assms(6) inv(1) by auto
  have ks: "list_all record_ok ks" "contiguous 0 ks" "list_all (\<lambda>r. LSN r \<noteq> 0) ks"
    using inv assms(6) by (auto simp: contiguous_append)
  moreover have "ks \<noteq> [] \<longrightarrow> LSN (last ks) \<noteq> 0" using ks(3) last_in_set by (auto simp: list_all_iff)
  moreover have "ks \<noteq> [] \<longrightarrow> LSN (last ks) + 1 \<noteq> 0"
    using assms(1,3,4,6) nz by (auto simp: log_inv_def)
  ultimately show ?thesis using assms(8) unfolding OpenWithOptions_recovered [OF rec kept assms(8)]
    by (auto simp: log_inv_def last_lsn_def)
qed

definition sample_log :: Log where
  "sample_log = \<lparr>content = [], position = 0, mode = ''always'', nextLSN = 1\<rparr>"

definition sample_record :: Record where
  "sample_record = \<lparr>LSN = 1, Operation = OperationDelete, Payload = [7]\<rparr>"

definition collect :: "Record list apply_fun" where
  "collect = Some (\<lambda>r st. Inr (st @ [r]))"

lemma sample_log_inv: "log_inv sample_log []"
  by (simp add: log_inv_def sample_log_def)

lemma sample_record_ok: "record_ok sample_record" "LSN sample_record = nextLSN sample_log"
  "nextLSN sample_log + 1 \<noteq> 0" "length (encode_record sample_record) = 29"
  by (simp_all add: record_ok_def sample_record_def validOperation_def OperationDelete_def
      maximumPayload_def sample_log_def length_encode_record headerSize_def)

theorem wal_crash_recovery_witness:
  "\<exists>l'. OpenWithOptions all_ok (Some (content sample_log @ take 29 (encode_record sample_record)))
      \<lparr>SyncMode = ''always'', InitialLSN = 1, ReplayAfter = 0\<rparr> collect [] = (Inr l', [sample_record])
     \<and> log_inv l' [sample_record] \<and> nextLSN l' = 2"
  using wal_crash_recovery [OF sample_log_inv sample_record_ok(1-3), of 29 "[sample_record]" collect
      "\<lparr>SyncMode = ''always'', InitialLSN = 1, ReplayAfter = 0\<rparr>" "[]" "[sample_record]"]
  by (simp add: sample_record_ok(4) collect_def applyRecord_def) (simp add: sample_record_def)

text \<open>
  C29: an append either fails and leaves the log as it was, or returns the next sequence number and
  the log holds exactly one more record (the rollback of a failed write is assumed to succeed).
\<close>

theorem append_all_or_nothing:
  assumes "log_inv l rs" and "nextLSN l + 1 \<noteq> 0" and "Append io l op p = (res, l')"
    and "io \<in> {Written, SeekFailed, WriteStopped n True True, SyncFailed True True}"
  shows "case res of
      Inl e \<Rightarrow> l' = l
    | Inr lsn \<Rightarrow> lsn = nextLSN l \<and> LastLSN l' = lsn
        \<and> log_inv l' (rs @ [\<lparr>LSN = lsn, Operation = op, Payload = p\<rparr>])"
proof -
  have pos: "position l = length (content l)" using assms(1) by (simp add: log_inv_def)
  show ?thesis
  proof (cases res)
    case (Inl e)
    then show ?thesis using assms(3,4) write_rolled_back [OF pos]
      by (auto simp: Append_def Let_def split: if_splits append_io.splits)
  next
    case (Inr lsn)
    then have w: "Append Written l op p = (Inr lsn, l')" using assms(3,4)
      by (auto simp: Append_def Let_def split: if_splits append_io.splits)
    then have "nextLSN l' = nextLSN l + 1" by (auto simp: Append_def Let_def split: if_splits)
    then show ?thesis using Append_log_inv [OF assms(1) w assms(2)] Inr assms(2)
      by (simp add: LastLSN_def)
  qed
qed

theorem append_all_or_nothing_witness:
  "Append (WriteStopped 5 True True) sample_log OperationDelete [7] = (Inl ErrIO, sample_log)"
proof -
  obtain l' where l': "Append (WriteStopped 5 True True) sample_log OperationDelete [7] = (Inl ErrIO, l')"
    using sample_record_ok(1) by (auto simp: Append_def record_ok_def sample_record_def Let_def)
  then show ?thesis
    using append_all_or_nothing [OF sample_log_inv sample_record_ok(3) l', of 5] by simp
qed

text \<open>
  C32: a payload byte damaged anywhere in the log is never applied. Recovery reports a checksum
  mismatch at that record, having applied just the records before it.
\<close>

theorem damaged_payload_detected:
  assumes "list_all record_ok (pre @ [r])" and "contiguous 0 (pre @ [r])"
    and "Payload r = p @ v # q" and "w \<noteq> v"
    and "foldR (applyRecord ap ra) pre st = Inr st'"
  shows "recoverFile (encode_log pre @ encodeHeader (LSN r) (Operation r) (Payload r) @ (p @ w # q) @ tail) ra ap st
    = (Inl (ErrMsg ''WAL corruption: checksum mismatch''), st')"
proof -
  let ?h = "encodeHeader (LSN r) (Operation r) (Payload r)"
  have r: "record_ok r" "last_lsn 0 pre \<noteq> 0 \<longrightarrow> LSN r = last_lsn 0 pre + 1"
    using assms(1,2) by (auto simp: contiguous_append)
  have ne: "crc32_update (crc32_update 0 (headerBody (LSN r) (Operation r) (Payload r))) (p @ w # q)
      \<noteq> crc32_update (crc32_update 0 (headerBody (LSN r) (Operation r) (Payload r))) (Payload r)"
    using crc32_one_byte_changed assms(3,4) by metis
  have bad: "recoverLoop ap ra (?h @ (p @ w # q) @ tail) (last_lsn 0 pre) x st'
      = (Inl (ErrMsg ''WAL corruption: checksum mismatch''), st')" for x
    using checkHeader_encoded [OF r] ne assms(3)
    by (subst recoverLoop.simps) (simp add: Let_def encodeHeader_fields)
  have "recoverLoop ap ra (encode_log rs @ rest) l x s = recoverLoop ap ra rest (last_lsn l rs) (x + length (encode_log rs)) s'"
    if "list_all record_ok rs" "contiguous l rs" "foldR (applyRecord ap ra) rs s = Inr s'" for rs rest l x s s'
    using that
    by (induction rs arbitrary: l x s) (auto simp: recoverLoop_record and_then_Inr_iff add.assoc)
  from this [of pre 0 st st' "?h @ (p @ w # q) @ tail" 0] show ?thesis
    using assms(1,2,5) bad by (simp add: recoverFile_def contiguous_append)
qed

theorem damaged_payload_detected_witness:
  "recoverFile (encodeHeader 1 OperationDelete [7] @ [9]) 0 collect []
     = (Inl (ErrMsg ''WAL corruption: checksum mismatch''), [])"
  using damaged_payload_detected [of "[]" sample_record "[]" 7 "[]" 9 collect 0 "[]" "[]" "[]"]
    sample_record_ok(1) by (simp add: sample_record_def)



end
