(* ===== verification/Meta_Value.thy ===== *)
theory Meta_Value
  imports Go_Lib
begin

text \<open>
  Metadata values of \<open>internal/metadata/filter.go\<close>: their dynamic types, their canonical keys, their
  reading as numbers and their comparison. A \<open>float64\<close> is its 64 bits; comparison of finite values
  is the comparison of their sign-magnitude order keys.
\<close>

subsection \<open>Floating-point numbers\<close>

type_synonym f64 = u64

definition f64_exp :: "f64 \<Rightarrow> u64" where
  "f64_exp x = take_bit 11 (drop_bit 52 x)"

definition f64_frac :: "f64 \<Rightarrow> u64" where
  "f64_frac x = take_bit 52 x"

definition f64_finite :: "f64 \<Rightarrow> bool" where
  "f64_finite x \<longleftrightarrow> f64_exp x \<noteq> 2047"

text \<open>Order key: the magnitude bits with the sign. Both zeros have key 0.\<close>

definition f64_key :: "f64 \<Rightarrow> int" where
  "f64_key x = (let m = uint (take_bit 63 x) in if bit x 63 then - m else m)"

function bit_length :: "int \<Rightarrow> nat" where
  "bit_length n = (if n \<le> 0 then 0 else Suc (bit_length (n div 2)))"
  by pat_completeness auto
termination by (relation "measure nat") auto

declare bit_length.simps [simp del]

text \<open>The conversions \<open>float64(i)\<close> of an integer (round to nearest, ties to even) and of a \<open>float32\<close>.\<close>

definition float64_of_int :: "int \<Rightarrow> f64" where
  "float64_of_int i =
     (if i = 0 then 0
      else
        let m = \<bar>i\<bar>; e = bit_length m - 1;
            q = (if e \<le> 52 then m * 2 ^ (52 - e)
                 else
                   let d = 2 ^ (e - 52); q0 = m div d; r = m mod d in
                   if 2 * r > d \<or> 2 * r = d \<and> odd q0 then q0 + 1 else q0);
            bits = (int e + 1023) * 2 ^ 52 + (q - 2 ^ 52) in
        of_int bits OR (if i < 0 then push_bit 63 1 else 0))"

definition float64_of_float32 :: "u32 \<Rightarrow> f64" where
  "float64_of_float32 x =
     (let s = (if bit x 31 then push_bit 63 1 else 0);
          e = uint (take_bit 8 (drop_bit 23 x)); f = uint (take_bit 23 x) in
      if e = 255 then s OR push_bit 52 2047 OR push_bit 29 (of_int f)
      else if e \<noteq> 0 then s OR push_bit 52 (of_int (e + 896)) OR push_bit 29 (of_int f)
      else if f = 0 then s
      else
        let k = bit_length f - 1 in
        s OR push_bit 52 (of_int (int k + 874)) OR of_int ((f - 2 ^ k) * 2 ^ (52 - k)))"

lemma float64_of_int_examples:
  "float64_of_int 1 = 0x3FF0000000000000" "float64_of_int (-2) = 0xC000000000000000"
  "float64_of_float32 0x3FC00000 = 0x3FF8000000000000" "float64_of_float32 1 = 0x36A0000000000000"
  by code_simp+

subsection \<open>Values\<close>

text \<open>
  Go's \<open>any\<close>. The signed integer types are read alike by every function below, and so are the
  unsigned ones; each family is one constructor. \<open>VGeo\<close> is the parsed operand of a radius filter.
\<close>

record GeoRadius =
  LatField :: string
  LonField :: string
  Lat :: f64
  Lon :: f64
  Meters :: f64

datatype Value =
    VNil
  | VString string
  | VBool bool
  | VSigned int
  | VUnsigned nat
  | VFloat32 u32
  | VFloat64 f64
  | VNumber string
  | VList "Value list"
  | VObject "(string \<times> Value) list"
  | VGeo GeoRadius

text \<open>
  Shortest decimal formatting and parsing of floating-point numbers (\<open>strconv\<close>), the printed form of
  composite values (\<open>fmt.Sprint\<close>) and word splitting by Unicode classes (\<open>strings.FieldsFunc\<close>) enter as
  functions; nothing is assumed of them.
\<close>

record text_lib =
  FormatFloat64 :: "f64 \<Rightarrow> string"
  FormatFloat32 :: "u32 \<Rightarrow> string"
  ParseFloat :: "string \<Rightarrow> f64 option"
  Sprint :: "Value \<Rightarrow> string"
  textWords :: "string \<Rightarrow> string list"

definition FormatInt :: "int \<Rightarrow> string" where
  "FormatInt i = (if i < 0 then CHR ''-'' # show_nat (nat (- i)) else show_nat (nat i))"

text \<open>\<open>strconv.ParseInt(s, 10, 64)\<close> and \<open>strconv.ParseUint(s, 10, 64)\<close>.\<close>

definition ParseUint :: "string \<Rightarrow> nat option" where
  "ParseUint s =
     (if s \<noteq> [] \<and> list_all is_digit s \<and> read_nat s < 2 ^ 64 then Some (read_nat s) else None)"

definition ParseInt :: "string \<Rightarrow> int option" where
  "ParseInt s =
     (case s of
        [] \<Rightarrow> None
      | c # cs \<Rightarrow>
          let digits = (if c = CHR ''-'' \<or> c = CHR ''+'' then cs else s);
              value = int (read_nat digits) in
          if digits = [] \<or> \<not> list_all is_digit digits then None
          else if c = CHR ''-'' then (if value \<le> 2 ^ 63 then Some (- value) else None)
          else if value < 2 ^ 63 then Some value else None)"

definition canonical :: "text_lib \<Rightarrow> Value \<Rightarrow> string" where
  "canonical T value =
     (case value of
        VNil \<Rightarrow> ''n:''
      | VString s \<Rightarrow> ''s:'' @ s
      | VBool b \<Rightarrow> ''b:'' @ (if b then ''true'' else ''false'')
      | VSigned i \<Rightarrow> ''d:'' @ FormatInt i
      | VUnsigned n \<Rightarrow> ''d:'' @ show_nat n
      | VFloat32 x \<Rightarrow> ''d:'' @ FormatFloat32 T x
      | VFloat64 x \<Rightarrow> ''d:'' @ FormatFloat64 T x
      | VNumber s \<Rightarrow>
          (case ParseInt s of
             Some i \<Rightarrow> ''d:'' @ FormatInt i
           | None \<Rightarrow>
               (case ParseUint s of
                  Some n \<Rightarrow> ''d:'' @ show_nat n
                | None \<Rightarrow>
                    (case ParseFloat T s of
                       Some x \<Rightarrow> ''d:'' @ FormatFloat64 T x
                     | None \<Rightarrow> ''?:'' @ s)))
      | _ \<Rightarrow> ''?:'' @ Sprint T value)"

definition finite_or_none :: "f64 \<Rightarrow> f64 option" where
  "finite_or_none x = (if f64_finite x then Some x else None)"

definition number :: "text_lib \<Rightarrow> Value \<Rightarrow> f64 option" where
  "number T value =
     (case value of
        VFloat64 x \<Rightarrow> finite_or_none x
      | VFloat32 x \<Rightarrow> finite_or_none (float64_of_float32 x)
      | VSigned i \<Rightarrow> finite_or_none (float64_of_int i)
      | VUnsigned n \<Rightarrow> finite_or_none (float64_of_int (int n))
      | VNumber s \<Rightarrow> Option.bind (ParseFloat T s) finite_or_none
      | _ \<Rightarrow> None)"

definition validateScalar :: "text_lib \<Rightarrow> Value \<Rightarrow> unit result" where
  "validateScalar T value =
     (case value of
        VNil \<Rightarrow> Inr () | VString _ \<Rightarrow> Inr () | VBool _ \<Rightarrow> Inr () | VSigned _ \<Rightarrow> Inr () | VUnsigned _ \<Rightarrow> Inr ()
      | VList _ \<Rightarrow> Inl (ErrInvalidArgument ''filter values must be JSON scalars'')
      | VObject _ \<Rightarrow> Inl (ErrInvalidArgument ''filter values must be JSON scalars'')
      | VGeo _ \<Rightarrow> Inl (ErrInvalidArgument ''filter values must be JSON scalars'')
      | _ \<Rightarrow> if number T value \<noteq> None then Inr ()
             else Inl (ErrInvalidArgument ''numeric filter values must be finite''))"

text \<open>\<open>strings.Compare\<close>: bytewise.\<close>

definition string_compare :: "string \<Rightarrow> string \<Rightarrow> int" where
  "string_compare a b = (if a = b then 0 else if a < b then -1 else 1)"

definition compare :: "text_lib \<Rightarrow> Value \<Rightarrow> Value \<Rightarrow> int option" where
  "compare T left right =
     (case number T left of
        Some a \<Rightarrow>
          (case number T right of
             None \<Rightarrow> None
           | Some b \<Rightarrow> if f64_key a < f64_key b then Some (-1) else if f64_key a > f64_key b then Some 1 else Some 0)
      | None \<Rightarrow>
          (case (left, right) of
             (VString a, VString b) \<Rightarrow> Some (string_compare a b)
           | _ \<Rightarrow> None))"

definition containsWords :: "text_lib \<Rightarrow> string \<Rightarrow> string list \<Rightarrow> bool" where
  "containsWords T value wanted = list_all (\<lambda>w. w \<in> set (textWords T value)) wanted"

subsection \<open>Operators and expressions\<close>

datatype Operator = OpEq | OpNe | OpGT | OpGTE | OpLT | OpLTE | OpIn | OpNotIn | OpExists | OpText

datatype Kind = KindPredicate | KindAnd | KindOr | KindNot | KindGeo

text \<open>A nil \<open>*Expr\<close> is \<open>None\<close>.\<close>

datatype Expr = Expr (ex_kind: Kind) (ex_field: string) (ex_op: Operator) (ex_value: Value)
  (ex_children: "Expr option list")

definition rangeMatches :: "f64 \<Rightarrow> Operator \<Rightarrow> f64 \<Rightarrow> bool" where
  "rangeMatches value op target =
     (case op of
        OpGT \<Rightarrow> f64_key value > f64_key target
      | OpGTE \<Rightarrow> f64_key value \<ge> f64_key target
      | OpLT \<Rightarrow> f64_key value < f64_key target
      | OpLTE \<Rightarrow> f64_key value \<le> f64_key target
      | _ \<Rightarrow> False)"

definition compareMatches :: "Operator \<Rightarrow> int \<Rightarrow> bool" where
  "compareMatches op comparison =
     (op = OpGT \<and> comparison > 0 \<or> op = OpGTE \<and> comparison \<ge> 0
      \<or> op = OpLT \<and> comparison < 0 \<or> op = OpLTE \<and> comparison \<le> 0)"

end
