(* ===== verification/Bitset.thy ===== *)
theory Bitset
  imports Prelude
begin

text \<open>
  The dense ordinal bitmap of \<open>internal/metadata/filter.go\<close> (\<open>Set\<close>), with its cached cardinality, and
  its refinement to a finite set of ordinals. A nil \<open>*Set\<close> is \<open>None\<close>.
\<close>

subsection \<open>The bitmap\<close>

record Set =
  "words" :: "u64 list"
  "count" :: int

definition newSet :: "u64 \<Rightarrow> Set" where
  "newSet maxID = \<lparr>words = replicate (unat (maxID div 64) + 1) 0, count = 0\<rparr>"

definition bit_mask :: "u64 \<Rightarrow> u64" where
  "bit_mask n = push_bit (unat (n mod 64)) 1"

definition SetAdd :: "Set \<Rightarrow> u64 \<Rightarrow> Set" where
  "SetAdd s n =
     (let word = unat (n div 64);
          ws = (if word \<ge> length (words s) then words s @ replicate (word - length (words s) + 1) 0
                else words s) in
      if ws ! word AND bit_mask n = 0
      then s\<lparr>words := ws[word := ws ! word OR bit_mask n], count := count s + 1\<rparr>
      else s\<lparr>words := ws\<rparr>)"

definition SetRemove :: "Set option \<Rightarrow> u64 \<Rightarrow> Set option" where
  "SetRemove os n =
     (case os of
        None \<Rightarrow> None
      | Some s \<Rightarrow>
          if unat (n div 64) \<ge> length (words s) then Some s
          else
            let word = unat (n div 64) in
            if words s ! word AND bit_mask n \<noteq> 0
            then Some (s\<lparr>words := (words s)[word := words s ! word AND NOT (bit_mask n)], count := count s - 1\<rparr>)
            else Some s)"

definition SetContains :: "Set option \<Rightarrow> u64 \<Rightarrow> bool" where
  "SetContains os n =
     (case os of
        None \<Rightarrow> False
      | Some s \<Rightarrow> unat (n div 64) < length (words s) \<and> words s ! unat (n div 64) AND bit_mask n \<noteq> 0)"

definition SetLen :: "Set option \<Rightarrow> int" where
  "SetLen os = (case os of None \<Rightarrow> 0 | Some s \<Rightarrow> count s)"

text \<open>\<open>bits.OnesCount64\<close>.\<close>

definition OnesCount64 :: "u64 \<Rightarrow> int" where
  "OnesCount64 w = int (length (filter (bit w) [0..<64]))"

definition recount :: "Set \<Rightarrow> Set" where
  "recount s = s\<lparr>count := fold (\<lambda>w c. c + OnesCount64 w) (words s) 0\<rparr>"

definition clone :: "Set option \<Rightarrow> Set" where
  "clone source = (case source of None \<Rightarrow> newSet 0 | Some s \<Rightarrow> \<lparr>words = words s, count = count s\<rparr>)"

definition set_union :: "Set option \<Rightarrow> Set option \<Rightarrow> Set" where
  "set_union a b =
     (let result = clone a in
      case b of
        None \<Rightarrow> result
      | Some t \<Rightarrow>
          let ws = words result @ replicate (length (words t) - length (words result)) 0 in
          recount (result\<lparr>words := map (\<lambda>p. if p < length (words t) then ws ! p OR words t ! p else ws ! p)
                                    [0..<length ws]\<rparr>))"

definition set_intersect :: "Set option \<Rightarrow> Set option \<Rightarrow> Set" where
  "set_intersect a b =
     (case (a, b) of
        (Some s, Some t) \<Rightarrow>
          recount \<lparr>words = map (\<lambda>p. words s ! p AND words t ! p) [0..<min (length (words s)) (length (words t))],
                   count = 0\<rparr>
      | _ \<Rightarrow> newSet 0)"

definition set_difference :: "Set option \<Rightarrow> Set option \<Rightarrow> Set" where
  "set_difference a b =
     (let result = clone a in
      case b of
        None \<Rightarrow> result
      | Some t \<Rightarrow>
          let ws = words result in
          recount (result\<lparr>words := map (\<lambda>p. if p < length (words t) then ws ! p AND NOT (words t ! p) else ws ! p)
                                    [0..<length ws]\<rparr>))"

subsection \<open>Abstraction to sets\<close>

definition members :: "Set \<Rightarrow> nat set" where
  "members s = {n. n div 64 < length (words s) \<and> bit (words s ! (n div 64)) (n mod 64)}"

definition omembers :: "Set option \<Rightarrow> nat set" where
  "omembers os = (case os of None \<Rightarrow> {} | Some s \<Rightarrow> members s)"

lemma omembers_simps [simp]: "omembers None = {}" "omembers (Some s) = members s"
  by (simp_all add: omembers_def)

text \<open>The cached count is the cardinality.\<close>

definition set_inv :: "Set \<Rightarrow> bool" where
  "set_inv s \<longleftrightarrow> count s = int (card (members s))"

lemma mask_bit: "bit (bit_mask n) k \<longleftrightarrow> k = unat n mod 64"
  by (auto simp: bit_mask_def bit_exp_iff unat_mod)

lemma zeros_nth [simp]: "i \<le> k \<Longrightarrow> (x # replicate k x) ! i = x"
  by (cases i) auto

lemma mask_test: "(w AND bit_mask n = 0) = (\<not> bit w (unat n mod 64))"
proof
  assume "w AND bit_mask n = 0"
  then have "\<not> bit (w AND bit_mask n) (unat n mod 64)" by simp
  then show "\<not> bit w (unat n mod 64)" by (simp add: bit_and_iff mask_bit)
next
  assume "\<not> bit w (unat n mod 64)"
  then show "w AND bit_mask n = 0" by (intro bit_word_eqI) (auto simp: bit_and_iff mask_bit)
qed

lemma unat_div_64 [simp]: "unat ((n::u64) div 64) = unat n div 64"
  by (simp add: unat_div)

lemma members_finite [simp]: "finite (members s)"
proof -
  have "members s \<subseteq> {..< 64 * length (words s)}"
    by (auto simp: members_def)
  then show ?thesis by (rule finite_subset) simp
qed

lemma members_newSet [simp]: "members (newSet n) = {}"
  by (auto simp: members_def newSet_def nth_append)

lemma set_inv_newSet [simp]: "set_inv (newSet n)"
  by (simp add: set_inv_def) (simp add: newSet_def)

lemma members_SetContains: "SetContains os n \<longleftrightarrow> unat n \<in> omembers os"
  by (auto simp: SetContains_def members_def mask_test split: option.splits)

lemma members_SetAdd: "members (SetAdd s n) = insert (unat n) (members s)"
proof -
  let ?w = "unat n div 64"
  let ?ws = "if ?w \<ge> length (words s) then words s @ replicate (?w - length (words s) + 1) 0 else words s"
  have len: "?w < length ?ws" by simp
  have same: "k < length ?ws \<Longrightarrow> bit (?ws ! k) j \<longleftrightarrow> k < length (words s) \<and> bit (words s ! k) j" for k j
    by (auto simp: nth_append diff_le_mono split: if_splits)
  have upd: "{m. m div 64 < length ?ws \<and> bit (?ws[?w := ?ws ! ?w OR bit_mask n] ! (m div 64)) (m mod 64)}
      = insert (unat n) (members s)"
  proof (rule set_eqI)
    fix m
    show "m \<in> {m. m div 64 < length ?ws \<and> bit (?ws[?w := ?ws ! ?w OR bit_mask n] ! (m div 64)) (m mod 64)}
      \<longleftrightarrow> m \<in> insert (unat n) (members s)"
    proof (cases "m div 64 = ?w")
      case True
      then have "m = unat n \<longleftrightarrow> m mod 64 = unat n mod 64" by (metis div_mult_mod_eq)
      then show ?thesis using True len same [of ?w "m mod 64"]
        by (auto simp: members_def bit_or_iff mask_bit)
    next
      case False
      then have "m \<noteq> unat n" by auto
      then show ?thesis using False same [of "m div 64" "m mod 64"] by (auto simp: members_def)
    qed
  qed
  show ?thesis
  proof (cases "bit (?ws ! ?w) (unat n mod 64)")
    case True
    then have "unat n \<in> members s" using len same by (simp add: members_def)
    moreover have "members (s\<lparr>words := ?ws\<rparr>) = members s"
      using same by (auto simp: members_def split: if_splits)
    ultimately show ?thesis using True by (auto simp: SetAdd_def Let_def mask_test)
  next
    case False
    then have "SetAdd s n = s\<lparr>words := ?ws[?w := ?ws ! ?w OR bit_mask n], count := count s + 1\<rparr>"
      by (simp add: SetAdd_def Let_def mask_test)
    then show ?thesis using upd by (simp add: members_def)
  qed
qed

lemma set_inv_SetAdd: "set_inv s \<Longrightarrow> set_inv (SetAdd s n)"
proof -
  assume inv: "set_inv s"
  let ?w = "unat n div 64"
  let ?ws = "if ?w \<ge> length (words s) then words s @ replicate (?w - length (words s) + 1) 0 else words s"
  have "bit (?ws ! ?w) (unat n mod 64) \<longleftrightarrow> unat n \<in> members s"
    by (auto simp: members_def nth_append)
  then have "count (SetAdd s n) = (if unat n \<in> members s then count s else count s + 1)"
    by (auto simp: SetAdd_def Let_def mask_test)
  then show ?thesis using inv by (auto simp: set_inv_def members_SetAdd insert_absorb)
qed

lemma SetRemove_Some: "\<exists>t. SetRemove (Some s) n = Some t \<and> members t = members s - {unat n} \<and> (set_inv s \<longrightarrow> set_inv t)"
proof (cases "unat n \<in> members s")
  case True
  let ?w = "unat n div 64"
  let ?t = "s\<lparr>words := (words s)[?w := words s ! ?w AND NOT (bit_mask n)], count := count s - 1\<rparr>"
  have w: "?w < length (words s)" "bit (words s ! ?w) (unat n mod 64)" using True by (auto simp: members_def)
  have "members ?t = members s - {unat n}"
  proof (rule set_eqI)
    fix m
    show "m \<in> members ?t \<longleftrightarrow> m \<in> members s - {unat n}"
    proof (cases "m div 64 = ?w")
      case eq: True
      then have "m = unat n \<longleftrightarrow> m mod 64 = unat n mod 64" by (metis div_mult_mod_eq)
      then show ?thesis using eq w(1)
        by (auto simp: members_def bit_and_iff bit_not_iff mask_bit dest: bit_imp_le_length)
    next
      case False
      then have "m \<noteq> unat n" by auto
      then show ?thesis using False by (simp add: members_def)
    qed
  qed
  moreover have "SetRemove (Some s) n = Some ?t" using w by (simp add: SetRemove_def mask_test Let_def)
  moreover have "set_inv ?t" if "set_inv s"
  proof -
    have "0 < card (members s)" using True by (auto simp: card_gt_0_iff)
    moreover have "card (members s - {unat n}) = card (members s) - 1"
      using True by (rule card_Diff_singleton)
    ultimately show ?thesis
      using that \<open>members ?t = members s - {unat n}\<close> by (simp add: set_inv_def of_nat_diff)
  qed
  ultimately show ?thesis by blast
next
  case False
  then have "SetRemove (Some s) n = Some s" by (auto simp: SetRemove_def mask_test members_def Let_def)
  then show ?thesis using False by auto
qed

lemma SetRemove_None [simp]: "SetRemove None n = None"
  by (simp add: SetRemove_def)

lemma omembers_SetRemove: "omembers (SetRemove os n) = omembers os - {unat n}"
proof (cases os)
  case (Some s)
  obtain t where "SetRemove (Some s) n = Some t" "members t = members s - {unat n}"
    using SetRemove_Some [of s n] by blast
  then show ?thesis using Some by simp
qed simp

subsection \<open>Whole-set operations\<close>

definition word_members :: "u64 list \<Rightarrow> nat set" where
  "word_members ws = {n. n div 64 < length ws \<and> bit (ws ! (n div 64)) (n mod 64)}"

lemma members_words: "members s = word_members (words s)"
  by (simp add: members_def word_members_def)

lemma word_members_snoc:
  "word_members (ws @ [w]) = word_members ws \<union> (\<lambda>k. 64 * length ws + k) ` {k. bit w k}"
proof (rule set_eqI)
  fix n
  show "n \<in> word_members (ws @ [w]) \<longleftrightarrow> n \<in> word_members ws \<union> (\<lambda>k. 64 * length ws + k) ` {k. bit w k}"
  proof (cases "n div 64 < length ws")
    case True
    then have "n < 64 * length ws" by simp
    then show ?thesis using True by (auto simp: word_members_def nth_append)
  next
    case False
    have "n \<in> word_members (ws @ [w]) \<longleftrightarrow> n div 64 = length ws \<and> bit w (n mod 64)"
      using False by (auto simp: word_members_def nth_append less_Suc_eq)
    also have "\<dots> \<longleftrightarrow> n \<in> (\<lambda>k. 64 * length ws + k) ` {k. bit w k}"
    proof
      assume "n div 64 = length ws \<and> bit w (n mod 64)"
      then show "n \<in> (\<lambda>k. 64 * length ws + k) ` {k. bit w k}"
        using mult_div_mod_eq [of 64 n] by (intro image_eqI [of _ _ "n mod 64"]) auto
    next
      assume "n \<in> (\<lambda>k. 64 * length ws + k) ` {k. bit w k}"
      then obtain k where "n = 64 * length ws + k" "bit w k" by auto
      moreover have "k < 64" using \<open>bit w k\<close> bit_imp_le_length by fastforce
      ultimately show "n div 64 = length ws \<and> bit w (n mod 64)" by simp
    qed
    finally show ?thesis using False by (auto simp: word_members_def)
  qed
qed

lemma OnesCount64_card: "OnesCount64 w = int (card {k. bit w k})"
proof -
  have "{k. bit w k} = set (filter (bit w) [0..<64])" using bit_imp_le_length by fastforce
  then show ?thesis using distinct_card [of "filter (bit w) [0..<64]"] by (simp add: OnesCount64_def)
qed

lemma card_word_members: "int (card (word_members ws)) = fold (\<lambda>w c. c + OnesCount64 w) ws 0"
proof (induction ws rule: rev_induct)
  case Nil
  then show ?case by (simp add: word_members_def)
next
  case (snoc w ws)
  have fin: "finite (word_members ws)" "finite {k. bit w k}"
    using members_finite [of "\<lparr>words = ws, count = 0\<rparr>"] finite_subset [of "{k. bit w k}" "{..<64}"]
      bit_imp_le_length by (fastforce simp: members_words)+
  have "word_members ws \<inter> (\<lambda>k. 64 * length ws + k) ` {k. bit w k} = {}"
    by (auto simp: word_members_def)
  moreover have "card ((\<lambda>k. 64 * length ws + k) ` {k. bit w k}) = card {k. bit w k}"
    by (rule card_image) (simp add: inj_on_def)
  ultimately have "card (word_members (ws @ [w])) = card (word_members ws) + card {k. bit w k}"
    unfolding word_members_snoc using fin by (simp add: card_Un_disjoint)
  then show ?case using snoc by (simp add: OnesCount64_card)
qed

lemma recount_props [simp]:
  "members (recount s) = members s" "set_inv (recount s)" "words (recount s) = words s"
  by (simp_all add: recount_def members_words set_inv_def card_word_members)

definition oset_inv :: "Set option \<Rightarrow> bool" where
  "oset_inv os \<longleftrightarrow> (\<forall>s. os = Some s \<longrightarrow> set_inv s)"

lemma oset_inv_simps [simp]: "oset_inv None" "oset_inv (Some s) = set_inv s"
  by (simp_all add: oset_inv_def)

lemma members_clone [simp]: "members (clone os) = omembers os"
  by (cases os) (simp add: clone_def, simp add: clone_def members_words)

lemma set_inv_clone: "oset_inv os \<Longrightarrow> set_inv (clone os)"
  by (cases os) (simp add: clone_def, simp add: clone_def set_inv_def members_words)

lemma oset_inv_SetRemove: "oset_inv os \<Longrightarrow> oset_inv (SetRemove os n)"
proof (cases os)
  case (Some s)
  obtain t where "SetRemove (Some s) n = Some t" "set_inv s \<longrightarrow> set_inv t"
    using SetRemove_Some [of s n] by blast
  then show "oset_inv os \<Longrightarrow> oset_inv (SetRemove os n)" using Some by simp
qed simp

lemma set_union_props:
  "members (set_union a b) = omembers a \<union> omembers b"
  "oset_inv a \<Longrightarrow> set_inv (set_union a b)"
proof -
  have "members (set_union a (Some t)) = omembers a \<union> members t" for t
  proof -
    let ?r = "words (clone a)"
    let ?ws = "?r @ replicate (length (words t) - length ?r) 0"
    have "word_members (map (\<lambda>p. if p < length (words t) then ?ws ! p OR words t ! p else ?ws ! p) [0..<length ?ws])
        = word_members ?r \<union> word_members (words t)"
      by (auto simp: word_members_def nth_append bit_or_iff split: if_splits)
    then show ?thesis by (simp add: set_union_def Let_def members_words flip: members_clone)
  qed
  then show "members (set_union a b) = omembers a \<union> omembers b"
    by (cases b) (auto simp: set_union_def)
  show "oset_inv a \<Longrightarrow> set_inv (set_union a b)"
    by (cases b) (simp_all add: set_union_def Let_def set_inv_clone)
qed

lemma set_intersect_props [simp]:
  "members (set_intersect a b) = omembers a \<inter> omembers b" "set_inv (set_intersect a b)"
proof -
  have "word_members (map (\<lambda>p. v ! p AND w ! p) [0..<min (length v) (length w)])
      = word_members v \<inter> word_members w" for v w
    by (auto simp: word_members_def bit_and_iff)
  then show "members (set_intersect a b) = omembers a \<inter> omembers b"
    by (cases a; cases b) (simp_all add: set_intersect_def, simp add: members_words)
  show "set_inv (set_intersect a b)" by (cases a; cases b) (simp_all add: set_intersect_def)
qed

lemma set_difference_props:
  "members (set_difference a b) = omembers a - omembers b"
  "oset_inv a \<Longrightarrow> set_inv (set_difference a b)"
proof -
  have "members (set_difference a (Some t)) = omembers a - members t" for t
  proof -
    let ?ws = "words (clone a)"
    have "word_members (map (\<lambda>p. if p < length (words t) then ?ws ! p AND NOT (words t ! p) else ?ws ! p) [0..<length ?ws])
        = word_members ?ws - word_members (words t)"
      by (auto simp: word_members_def bit_and_iff bit_not_iff dest: bit_imp_le_length split: if_splits)
    then show ?thesis by (simp add: set_difference_def Let_def members_words flip: members_clone)
  qed
  then show "members (set_difference a b) = omembers a - omembers b"
    by (cases b) (auto simp: set_difference_def)
  show "oset_inv a \<Longrightarrow> set_inv (set_difference a b)"
    by (cases b) (simp_all add: set_difference_def Let_def set_inv_clone)
qed

end
