(* ===== verification/Posting.thy ===== *)
theory Posting
  imports Bitset
begin

text \<open>
  The interface that ordinal sets share (members, insertion, removal, cardinality), its
  interpretation on the bitmap, and the posting list of \<open>internal/metadata/filter.go\<close> that moves
  from a singleton over a hash set to a bitmap while it grows.
\<close>

subsection \<open>The interface\<close>

lemma inj_unat: "inj (unat :: u64 \<Rightarrow> nat)"
  by (rule injI) (simp add: word_unat_eq_iff)

locale ordinal_set =
  fixes mem :: "'s \<Rightarrow> nat set"
    and inv :: "'s \<Rightarrow> bool"
    and add :: "'s \<Rightarrow> u64 \<Rightarrow> 's"
    and remove :: "'s \<Rightarrow> u64 \<Rightarrow> 's"
    and size :: "'s \<Rightarrow> int"
  assumes mem_add: "inv s \<Longrightarrow> mem (add s n) = insert (unat n) (mem s)"
    and mem_remove: "inv s \<Longrightarrow> mem (remove s n) = mem s - {unat n}"
    and inv_add: "inv s \<Longrightarrow> inv (add s n)"
    and inv_remove: "inv s \<Longrightarrow> inv (remove s n)"
    and finite_mem: "inv s \<Longrightarrow> finite (mem s)"
    and size_card: "inv s \<Longrightarrow> size s = int (card (mem s))"
begin

lemma add_all:
  "inv s \<Longrightarrow> inv (fold (\<lambda>n t. add t n) ns s) \<and> mem (fold (\<lambda>n t. add t n) ns s) = mem s \<union> unat ` set ns"
  by (induction ns arbitrary: s) (auto simp: inv_add mem_add)

lemma size_add: "inv s \<Longrightarrow> size (add s n) - size s = (if unat n \<in> mem s then 0 else 1)"
  by (simp add: size_card inv_add mem_add finite_mem insert_absorb)

lemma size_remove: "inv s \<Longrightarrow> size s - size (remove s n) = (if unat n \<in> mem s then 1 else 0)"
proof -
  assume i: "inv s"
  have "unat n \<in> mem s \<Longrightarrow> 0 < card (mem s)" using finite_mem [OF i] by (auto simp: card_gt_0_iff)
  then show ?thesis using i by (simp add: size_card inv_remove mem_remove card_Diff_singleton)
    (auto simp: of_nat_diff Suc_le_eq)
qed

lemma run:
  assumes "inv s" and "mem s = unat ` A"
  shows "inv (fold (\<lambda>(b, n) t. if b then add t n else remove t n) ops s)
    \<and> mem (fold (\<lambda>(b, n) t. if b then add t n else remove t n) ops s)
      = unat ` fold (\<lambda>(b, n) B. if b then insert n B else B - {n}) ops A"
  using assms
proof (induction ops arbitrary: s A)
  case (Cons a ops)
  obtain b n where a: "a = (b, n)" by (cases a)
  show ?case
  proof (cases b)
    case True
    have "inv (add s n)" "mem (add s n) = unat ` insert n A" using Cons.prems by (simp_all add: inv_add mem_add)
    from Cons.IH [OF this] show ?thesis using a True by simp
  next
    case False
    have "inv (remove s n)" "mem (remove s n) = unat ` (A - {n})"
      using Cons.prems by (simp_all add: inv_remove mem_remove image_set_diff [OF inj_unat])
    from Cons.IH [OF this] show ?thesis using a False by simp
  qed
qed simp

end

interpretation bs: ordinal_set members set_inv SetAdd "\<lambda>s n. the (SetRemove (Some s) n)" count
proof
  fix s :: Set and n :: u64
  obtain t where t: "SetRemove (Some s) n = Some t" "members t = members s - {unat n}" "set_inv s \<longrightarrow> set_inv t"
    using SetRemove_Some [of s n] by blast
  assume "set_inv s"
  then show "members (the (SetRemove (Some s) n)) = members s - {unat n}"
    "set_inv (the (SetRemove (Some s) n))" using t by simp_all
  show "count s = int (card (members s))" using \<open>set_inv s\<close> by (simp add: set_inv_def)
qed (simp_all add: members_SetAdd set_inv_SetAdd)

subsection \<open>Posting lists\<close>

text \<open>The hash set is the list of its keys in iteration order.\<close>

record posting =
  singleton :: u64
  sparse :: "u64 list"
  dense :: "Set option"
  p_count :: int

definition emptyPosting :: posting where
  "emptyPosting = \<lparr>singleton = 0, sparse = [], dense = None, p_count = 0\<rparr>"

definition postingAdd :: "posting \<Rightarrow> u64 \<Rightarrow> posting" where
  "postingAdd p n =
     (case dense p of
        Some d \<Rightarrow>
          let d' = SetAdd d n in p\<lparr>dense := Some d', p_count := p_count p + (SetLen (Some d') - SetLen (Some d))\<rparr>
      | None \<Rightarrow>
          if p_count p = 0 then p\<lparr>singleton := n, p_count := 1\<rparr>
          else if p_count p = 1 then
            (if singleton p = n then p else p\<lparr>sparse := [singleton p, n], p_count := 2\<rparr>)
          else if n \<in> set (sparse p) then p
          else
            let p1 = p\<lparr>sparse := sparse p @ [n], p_count := p_count p + 1\<rparr> in
            if p_count p1 \<ge> 64
            then p1\<lparr>dense := Some (fold (\<lambda>v d. SetAdd d v) (sparse p1) (newSet n)), sparse := []\<rparr>
            else p1)"

definition postingRemove :: "posting \<Rightarrow> u64 \<Rightarrow> posting" where
  "postingRemove p n =
     (if p_count p = 0 then p
      else case dense p of
        Some d \<Rightarrow>
          let d' = SetRemove (Some d) n in p\<lparr>dense := d', p_count := p_count p - (SetLen (Some d) - SetLen d')\<rparr>
      | None \<Rightarrow>
          if p_count p = 1 then (if singleton p = n then p\<lparr>p_count := 0\<rparr> else p)
          else
            let p1 = (if n \<in> set (sparse p)
                      then p\<lparr>sparse := remove1 n (sparse p), p_count := p_count p - 1\<rparr> else p) in
            if p_count p1 = 1
            then p1\<lparr>singleton := fold (\<lambda>v _. v) (sparse p1) (singleton p1), sparse := []\<rparr>
            else p1)"

text \<open>\<open>(p *posting) Set\<close>; a nil posting is \<open>None\<close>.\<close>

definition postingSetOf :: "posting option \<Rightarrow> u64 \<Rightarrow> Set" where
  "postingSetOf op maxID =
     (case op of
        None \<Rightarrow> newSet 0
      | Some p \<Rightarrow>
          if p_count p = 0 then newSet 0
          else case dense p of
            Some d \<Rightarrow> clone (Some d)
          | None \<Rightarrow>
              if p_count p = 1 then SetAdd (newSet maxID) (singleton p)
              else fold (\<lambda>v d. SetAdd d v) (sparse p) (newSet maxID))"

definition pmembers :: "posting \<Rightarrow> nat set" where
  "pmembers p =
     (case dense p of
        Some d \<Rightarrow> members d
      | None \<Rightarrow> if p_count p = 0 then {} else if p_count p = 1 then {unat (singleton p)}
               else unat ` set (sparse p))"

definition posting_inv :: "posting \<Rightarrow> bool" where
  "posting_inv p \<longleftrightarrow>
     (case dense p of
        Some d \<Rightarrow> set_inv d \<and> p_count p = count d
      | None \<Rightarrow> p_count p \<ge> 0 \<and> (p_count p \<ge> 2 \<longrightarrow> distinct (sparse p) \<and> p_count p = int (length (sparse p))))"

lemma fold_last: "xs \<noteq> [] \<Longrightarrow> fold (\<lambda>v _. v) xs a = last xs"
  by (induction xs arbitrary: a) auto

lemma unat_image_iff: "unat (n::u64) \<in> unat ` A \<longleftrightarrow> n \<in> A"
  by (rule inj_image_mem_iff [OF inj_unat])

lemma unat_image_diff: "unat ` (A - {n::u64}) = unat ` A - {unat n}"
  using image_set_diff [OF inj_unat, of A "{n}"] by simp

lemma fold_SetAdd:
  "set_inv s \<Longrightarrow> set_inv (fold (\<lambda>v d. SetAdd d v) vs s)
     \<and> members (fold (\<lambda>v d. SetAdd d v) vs s) = members s \<union> unat ` set vs"
  by (rule bs.add_all)

lemma count_fold_SetAdd:
  "distinct vs \<Longrightarrow> count (fold (\<lambda>v d. SetAdd d v) vs (newSet m)) = int (length vs)"
proof -
  assume d: "distinct vs"
  let ?f = "fold (\<lambda>v d. SetAdd d v) vs (newSet m)"
  have "set_inv ?f" "members ?f = unat ` set vs" using fold_SetAdd [of "newSet m" vs] by simp_all
  then have "count ?f = int (card (unat ` set vs))" by (simp add: set_inv_def)
  also have "card (unat ` set vs) = length vs"
    using d by (simp add: card_image inj_on_def word_unat_eq_iff distinct_card)
  finally show ?thesis .
qed

lemma posting_add_props:
  assumes "posting_inv p"
  shows "pmembers (postingAdd p n) = insert (unat n) (pmembers p)" and "posting_inv (postingAdd p n)"
proof -
  let ?xs = "sparse p @ [n]"
  have d: "set_inv (fold (\<lambda>v d. SetAdd d v) ?xs (newSet n))"
    "members (fold (\<lambda>v d. SetAdd d v) ?xs (newSet n)) = unat ` set ?xs"
    using fold_SetAdd [of "newSet n" ?xs] by simp_all
  have c: "distinct ?xs \<Longrightarrow> count (fold (\<lambda>v d. SetAdd d v) ?xs (newSet n)) = int (length ?xs)"
    by (rule count_fold_SetAdd)
  show "pmembers (postingAdd p n) = insert (unat n) (pmembers p)"
    using assms d(2)
    by (auto simp: postingAdd_def pmembers_def posting_inv_def Let_def members_SetAdd split: option.splits)
  show "posting_inv (postingAdd p n)"
    using assms d(1) c
    by (auto simp: postingAdd_def posting_inv_def Let_def set_inv_SetAdd SetLen_def split: option.splits)
qed

text \<open>Taking a key out of a hash set of two or more keys.\<close>

lemma sparse_remove:
  assumes "distinct (sparse p)" and "2 \<le> length (sparse p)" and "n \<in> set (sparse p)"
  defines "xs \<equiv> remove1 n (sparse p)"
  shows "distinct xs" and "set xs = set (sparse p) - {n}" and "int (length xs) = int (length (sparse p)) - 1"
    and "xs \<noteq> []" and "length xs = 1 \<Longrightarrow> fold (\<lambda>v _. v) xs a = hd xs \<and> set xs = {hd xs}"
proof -
  show l: "int (length xs) = int (length (sparse p)) - 1"
    using assms(2,3) by (simp add: xs_def length_remove1 of_nat_diff)
  show "distinct xs" "set xs = set (sparse p) - {n}" using assms(1) by (simp_all add: xs_def)
  show "xs \<noteq> []" using l assms(2) by auto
  show "length xs = 1 \<Longrightarrow> fold (\<lambda>v _. v) xs a = hd xs \<and> set xs = {hd xs}"
    by (cases xs) auto
qed

lemma posting_remove_props:
  assumes inv: "posting_inv p"
  shows "pmembers (postingRemove p n) = pmembers p - {unat n}" and "posting_inv (postingRemove p n)"
proof -
  have "pmembers (postingRemove p n) = pmembers p - {unat n} \<and> posting_inv (postingRemove p n)"
  proof (cases "p_count p = 0")
    case True
    then have "pmembers p = {}" using inv
      by (auto simp: pmembers_def posting_inv_def set_inv_def split: option.splits)
    then show ?thesis using True inv by (simp add: postingRemove_def)
  next
    case nz: False
    show ?thesis
    proof (cases "dense p")
      case (Some d)
      obtain t where t: "SetRemove (Some d) n = Some t" "members t = members d - {unat n}" "set_inv d \<longrightarrow> set_inv t"
        using SetRemove_Some [of d n] by blast
      then show ?thesis using Some nz inv
        by (simp add: postingRemove_def pmembers_def posting_inv_def Let_def SetLen_def)
    next
      case None
      show ?thesis
      proof (cases "p_count p = 1")
        case True
        then show ?thesis using None inv
          by (auto simp: postingRemove_def pmembers_def posting_inv_def word_unat_eq_iff)
      next
        case False
        then have sp: "distinct (sparse p)" "p_count p = int (length (sparse p))" "2 \<le> length (sparse p)"
          using None nz inv by (auto simp: posting_inv_def neq_Nil_conv)
        show ?thesis
        proof (cases "n \<in> set (sparse p)")
          case True
          note r = sparse_remove [OF sp(1,3) True]
          have im: "unat ` set (remove1 n (sparse p)) = unat ` set (sparse p) - {unat n}"
            using r(2) unat_image_diff by metis
          show ?thesis
          proof (cases "length (remove1 n (sparse p)) = 1")
            case one: True
            then have "p_count p - 1 = 1" using r(3) sp(2) by simp
            then show ?thesis using im r(5) [OF one] None nz False True
              by (simp add: postingRemove_def pmembers_def posting_inv_def Let_def)
          next
            case more: False
            then have "p_count p - 1 \<noteq> 1" "p_count p - 1 \<noteq> 0" using r(3,4) sp(2,3) by auto
            then show ?thesis using im r(1,3) sp None nz False True
              by (simp add: postingRemove_def pmembers_def posting_inv_def Let_def)
          qed
        next
          case False
          then show ?thesis using sp None nz \<open>p_count p \<noteq> 1\<close> inv
            by (simp add: postingRemove_def pmembers_def unat_image_iff)
        qed
      qed
    qed
  qed
  then show "pmembers (postingRemove p n) = pmembers p - {unat n}" "posting_inv (postingRemove p n)" by blast+
qed

lemma pmembers_finite [simp]: "finite (pmembers p)"
  by (simp add: pmembers_def split: option.splits)

lemma posting_count: "posting_inv p \<Longrightarrow> p_count p = int (card (pmembers p))"
  by (auto simp: posting_inv_def pmembers_def set_inv_def card_image inj_on_def word_unat_eq_iff distinct_card
      split: option.splits)

interpretation ps: ordinal_set pmembers posting_inv postingAdd postingRemove p_count
  by unfold_locales
    (simp_all add: posting_add_props posting_remove_props posting_count)

lemma emptyPosting_props [simp]: "pmembers emptyPosting = {}" "posting_inv emptyPosting"
  by (simp_all add: emptyPosting_def pmembers_def posting_inv_def)

definition opmembers :: "posting option \<Rightarrow> nat set" where
  "opmembers op = (case op of None \<Rightarrow> {} | Some p \<Rightarrow> pmembers p)"

definition oposting_inv :: "posting option \<Rightarrow> bool" where
  "oposting_inv op = (case op of None \<Rightarrow> True | Some p \<Rightarrow> posting_inv p)"

lemma opmembers_simps [simp]:
  "opmembers None = {}" "opmembers (Some p) = pmembers p" "oposting_inv None" "oposting_inv (Some p) = posting_inv p"
  by (simp_all add: opmembers_def oposting_inv_def)

lemma postingSetOf_Some:
  assumes "posting_inv p"
  shows "members (postingSetOf (Some p) m) = pmembers p \<and> set_inv (postingSetOf (Some p) m)"
proof -
  have f: "set_inv (fold (\<lambda>v d. SetAdd d v) (sparse p) (newSet m))"
    "members (fold (\<lambda>v d. SetAdd d v) (sparse p) (newSet m)) = unat ` set (sparse p)"
    using fold_SetAdd [of "newSet m" "sparse p"] by simp_all
  show ?thesis
  proof (cases "dense p")
    case None
    then show ?thesis using f by (simp add: postingSetOf_def pmembers_def members_SetAdd set_inv_SetAdd)
  next
    case (Some d)
    then have "set_inv d" "p_count p = int (card (members d))"
      using assms by (simp_all add: posting_inv_def set_inv_def)
    then show ?thesis using Some by (simp add: postingSetOf_def pmembers_def set_inv_clone)
  qed
qed

lemma postingSetOf_props:
  assumes "oposting_inv op"
  shows "members (postingSetOf op m) = opmembers op" and "set_inv (postingSetOf op m)"
  using assms postingSetOf_Some by (cases op; simp add: postingSetOf_def)+

text \<open>A history of additions (\<open>True\<close>) and removals (\<open>False\<close>), on a posting and on a plain set.\<close>

definition posting_run :: "(bool \<times> u64) list \<Rightarrow> posting" where
  "posting_run ops = fold (\<lambda>(b, n) p. if b then postingAdd p n else postingRemove p n) ops emptyPosting"

definition set_run :: "(bool \<times> u64) list \<Rightarrow> u64 set" where
  "set_run ops = fold (\<lambda>(b, n) s. if b then insert n s else s - {n}) ops {}"

lemma posting_run_inv: "posting_inv (posting_run ops) \<and> pmembers (posting_run ops) = unat ` set_run ops"
  unfolding posting_run_def set_run_def by (rule ps.run) simp_all

text \<open>
  C31: A posting list refines a plain set of ordinals: whatever history of additions and removals it went
  through, and so whichever of its three representations it is in (one inline ordinal, a hash set, a
  bitmap), its members are those of the set, its count is the cardinality, and the bitmap it is
  converted to for evaluation has the same members.
\<close>

theorem posting_refines_set:
  "pmembers (posting_run ops) = unat ` set_run ops
    \<and> p_count (posting_run ops) = int (card (set_run ops))
    \<and> members (postingSetOf (Some (posting_run ops)) m) = unat ` set_run ops"
proof -
  have inv: "posting_inv (posting_run ops)" and mem: "pmembers (posting_run ops) = unat ` set_run ops"
    using posting_run_inv by simp_all
  have "card (unat ` set_run ops) = card (set_run ops)"
    by (rule card_image) (rule inj_on_subset [OF inj_unat], simp)
  then show ?thesis using mem posting_count [OF inv] postingSetOf_props(1) [of "Some (posting_run ops)"] inv by simp
qed

end
