(* ===== verification/Meta_Index.thy ===== *)
theory Meta_Index
  imports Meta_Value Posting "HOL-Library.AList"
begin

text \<open>
  The per-segment metadata index of \<open>internal/metadata/filter.go\<close>: values, postings, presence bitmaps
  and the two-level numeric index, with its updates. Go maps are association lists with one entry
  per key; the order of the entries is the iteration order.
\<close>

subsection \<open>The numeric index\<close>

record numericEntry =
  ne_value :: f64
  ne_id :: u64

record numericField =
  base :: "numericEntry list"
  delta :: "numericEntry list"
  current :: "(u64 \<times> f64) list"
  invalidBase :: Set
  stale :: int

definition emptyNumeric :: numericField where
  "emptyNumeric = \<lparr>base = [], delta = [], current = [], invalidBase = newSet 0, stale = 0\<rparr>"

definition deltaLimit :: nat where
  "deltaLimit = 4096"

text \<open>The merge sorts by value and, for equal values, by ordinal.\<close>

definition sortEntries :: "numericEntry list \<Rightarrow> numericEntry list" where
  "sortEntries es = sort_key (\<lambda>e. f64_key (ne_value e)) (sort_key ne_id es)"

definition mergeIfNeeded :: "numericField \<Rightarrow> numericField" where
  "mergeIfNeeded n =
     (if length (delta n) < deltaLimit \<and> stale n < int deltaLimit then n
      else n\<lparr>base := sortEntries (map (\<lambda>(i, v). \<lparr>ne_value = v, ne_id = i\<rparr>) (current n)),
             delta := [], invalidBase := newSet 0, stale := 0\<rparr>)"

subsection \<open>The index\<close>

record Index =
  universe :: Set
  "values" :: "(string \<times> (u64 \<times> Value) list) list"
  postings :: "(string \<times> (string \<times> posting) list) list"
  present :: "(string \<times> Set) list"
  numeric :: "(string \<times> numericField) list"

definition NewIndex :: Index where
  "NewIndex = \<lparr>universe = newSet 0, values = [], postings = [], present = [], numeric = []\<rparr>"

definition fieldValues :: "Index \<Rightarrow> string \<Rightarrow> (u64 \<times> Value) list" where
  "fieldValues i field = (case map_of (values i) field of None \<Rightarrow> [] | Some vs \<Rightarrow> vs)"

definition insertNumeric :: "Index \<Rightarrow> string \<Rightarrow> numericEntry \<Rightarrow> Index" where
  "insertNumeric i field entry =
     (let n = (case map_of (numeric i) field of None \<Rightarrow> emptyNumeric | Some n \<Rightarrow> n);
          n1 = n\<lparr>current := AList.update (ne_id entry) (ne_value entry) (current n), delta := delta n @ [entry]\<rparr> in
      i\<lparr>numeric := AList.update field (mergeIfNeeded n1) (numeric i)\<rparr>)"

definition deleteNumeric :: "Index \<Rightarrow> string \<Rightarrow> f64 \<Rightarrow> u64 \<Rightarrow> Index" where
  "deleteNumeric i field value n =
     (case map_of (numeric i) field of
        None \<Rightarrow> i
      | Some f \<Rightarrow>
          (case map_of (current f) n of
             None \<Rightarrow> i
           | Some x \<Rightarrow>
               if f64_key x = f64_key value
               then
                 let f1 = f\<lparr>current := AList.delete n (current f), invalidBase := SetAdd (invalidBase f) n,
                            stale := stale f + 1\<rparr> in
                 i\<lparr>numeric := AList.update field (mergeIfNeeded f1) (numeric i)\<rparr>
               else i))"

text \<open>One iteration of the loop of \<open>Delete\<close> over the fields.\<close>

definition deleteField :: "text_lib \<Rightarrow> u64 \<Rightarrow> string \<Rightarrow> Index \<Rightarrow> Index" where
  "deleteField T n field i =
     (case map_of (values i) field of
        None \<Rightarrow> i
      | Some vs \<Rightarrow>
          (case map_of vs n of
             None \<Rightarrow> i
           | Some v \<Rightarrow>
               let i1 = i\<lparr>values := AList.update field (AList.delete n vs) (values i)\<rparr>;
                   key = canonical T v;
                   i2 = (case map_of (postings i1) field of
                           None \<Rightarrow> i1
                         | Some ps \<Rightarrow>
                             (case map_of ps key of
                                None \<Rightarrow> i1
                              | Some p \<Rightarrow>
                                  i1\<lparr>postings := AList.update field (AList.update key (postingRemove p n) ps) (postings i1)\<rparr>));
                   i3 = (case map_of (present i2) field of
                           None \<Rightarrow> i2
                         | Some s \<Rightarrow> i2\<lparr>present := AList.update field (the (SetRemove (Some s) n)) (present i2)\<rparr>) in
               (case number T v of None \<Rightarrow> i3 | Some x \<Rightarrow> deleteNumeric i3 field x n)))"

definition Delete :: "text_lib \<Rightarrow> Index \<Rightarrow> u64 \<Rightarrow> Index" where
  "Delete T i n =
     (let i1 = i\<lparr>universe := the (SetRemove (Some (universe i)) n)\<rparr> in
      fold (deleteField T n) (map fst (values i1)) i1)"

text \<open>One iteration of the loop of \<open>Upsert\<close> over the metadata.\<close>

definition upsertField :: "text_lib \<Rightarrow> u64 \<Rightarrow> string \<times> Value \<Rightarrow> Index \<Rightarrow> Index" where
  "upsertField T n fv i =
     (let (field, value) = fv in
      if validateScalar T value \<noteq> Inr () then i
      else
        let vs = fieldValues i field;
            i1 = i\<lparr>values := AList.update field (AList.update n value vs) (values i)\<rparr>;
            key = canonical T value;
            ps = (case map_of (postings i1) field of None \<Rightarrow> [] | Some ps \<Rightarrow> ps);
            p = (case map_of ps key of None \<Rightarrow> emptyPosting | Some p \<Rightarrow> p);
            i2 = i1\<lparr>postings := AList.update field (AList.update key (postingAdd p n) ps) (postings i1)\<rparr>;
            s = (case map_of (present i2) field of None \<Rightarrow> newSet n | Some s \<Rightarrow> s);
            i3 = i2\<lparr>present := AList.update field (SetAdd s n) (present i2)\<rparr> in
        (case number T value of
           None \<Rightarrow> i3
         | Some x \<Rightarrow> insertNumeric i3 field \<lparr>ne_value = x, ne_id = n\<rparr>))"

definition Upsert :: "text_lib \<Rightarrow> Index \<Rightarrow> u64 \<Rightarrow> (string \<times> Value) list \<Rightarrow> Index" where
  "Upsert T i n metadata =
     (let i1 = Delete T i n; i2 = i1\<lparr>universe := SetAdd (universe i1) n\<rparr> in
      fold (upsertField T n) metadata i2)"

text \<open>The number of bits the universe spans, used to size results.\<close>

definition universeBits :: "Index \<Rightarrow> u64" where
  "universeBits i = of_nat (length (words (universe i)) * 64)"

definition numericRange :: "Index \<Rightarrow> string \<Rightarrow> Operator \<Rightarrow> f64 \<Rightarrow> Set" where
  "numericRange i field op target =
     (let result = newSet (universeBits i) in
      case map_of (numeric i) field of
        None \<Rightarrow> result
      | Some n \<Rightarrow>
          let len = length (base n);
              at = (\<lambda>p. f64_key (ne_value (base n ! p)));
              t = f64_key target;
              start = (if op = OpGT then go_search len (\<lambda>p. at p > t)
                       else if op = OpGTE then go_search len (\<lambda>p. at p \<ge> t) else 0);
              stop = (if op = OpLT then go_search len (\<lambda>p. at p \<ge> t)
                      else if op = OpLTE then go_search len (\<lambda>p. at p > t) else len);
              r1 = fold (\<lambda>e r. if \<not> SetContains (Some (invalidBase n)) (ne_id e) then SetAdd r (ne_id e) else r)
                     (take (stop - start) (drop start (base n))) result in
          fold (\<lambda>e r. case map_of (current n) (ne_id e) of
                        None \<Rightarrow> r
                      | Some x \<Rightarrow> if f64_key x = f64_key (ne_value e) \<and> rangeMatches (ne_value e) op target
                                 then SetAdd r (ne_id e) else r) (delta n) r1)"

subsection \<open>Invariant of the numeric index\<close>

definition num_ok :: "numericField \<Rightarrow> (u64 \<Rightarrow> f64 option) \<Rightarrow> bool" where
  "num_ok n g \<longleftrightarrow>
     distinct (map fst (current n)) \<and> map_of (current n) = g
     \<and> sorted (map (\<lambda>e. f64_key (ne_value e)) (base n))
     \<and> (\<forall>e \<in> set (base n). unat (ne_id e) \<notin> members (invalidBase n) \<longrightarrow> g (ne_id e) = Some (ne_value e))
     \<and> (\<forall>i x. g i = Some x \<longrightarrow>
          \<lparr>ne_value = x, ne_id = i\<rparr> \<in> set (base n) \<and> unat i \<notin> members (invalidBase n)
          \<or> \<lparr>ne_value = x, ne_id = i\<rparr> \<in> set (delta n))"

lemma length_dom: "distinct (map fst al) \<Longrightarrow> length al = card (dom (map_of al))"
  by (metis distinct_card dom_map_of_conv_image_fst length_map set_map)

lemma update_append: "k \<notin> fst ` set al \<Longrightarrow> AList.update k v al = al @ [(k, v)]"
  by (induction al) auto

lemma set_sortEntries [simp]: "set (sortEntries es) = set es"
  by (simp add: sortEntries_def)

lemma sorted_sortEntries: "sorted (map (\<lambda>e. f64_key (ne_value e)) (sortEntries es))"
  by (simp add: sortEntries_def)

lemma mergeIfNeeded_ok: "num_ok n g \<Longrightarrow> num_ok (mergeIfNeeded n) g"
  by (auto simp: mergeIfNeeded_def num_ok_def sorted_sortEntries
      intro!: map_of_is_SomeI rev_image_eqI dest!: map_of_SomeD)

lemma num_ok_empty: "num_ok emptyNumeric (\<lambda>_. None)"
  by (simp add: num_ok_def emptyNumeric_def)

lemma num_ok_insert:
  assumes "num_ok n g" and "g i = None"
  shows "num_ok (n\<lparr>current := AList.update i x (current n), delta := delta n @ [\<lparr>ne_value = x, ne_id = i\<rparr>]\<rparr>) (g(i \<mapsto> x))"
  using assms by (auto simp: num_ok_def update_conv' distinct_update)

lemma num_ok_delete:
  assumes "num_ok n g"
  shows "num_ok (n\<lparr>current := AList.delete i (current n), invalidBase := SetAdd (invalidBase n) i, stale := s\<rparr>) (g(i := None))"
  using assms by (auto simp: num_ok_def delete_conv' distinct_delete members_SetAdd word_unat_eq_iff)

definition onum_ok :: "numericField option \<Rightarrow> (u64 \<Rightarrow> f64 option) \<Rightarrow> bool" where
  "onum_ok on g = (case on of None \<Rightarrow> g = (\<lambda>_. None) | Some n \<Rightarrow> num_ok n g)"

lemma onum_insertNumeric:
  assumes "onum_ok (map_of (numeric i) f) g" and "g n = None"
  shows "onum_ok (map_of (numeric (insertNumeric i f \<lparr>ne_value = x, ne_id = n\<rparr>)) f) (g(n \<mapsto> x))"
proof (cases "map_of (numeric i) f")
  case None
  then have "g = (\<lambda>_. None)" using assms(1) by (simp add: onum_ok_def)
  then show ?thesis
    using None mergeIfNeeded_ok [OF num_ok_insert [OF num_ok_empty, where i = n and x = x]]
    by (simp add: insertNumeric_def onum_ok_def update_conv' Let_def)
next
  case (Some m)
  then have "num_ok m g" using assms(1) by (simp add: onum_ok_def)
  then show ?thesis
    using Some mergeIfNeeded_ok [OF num_ok_insert [of m g n x]] assms(2)
    by (simp add: insertNumeric_def onum_ok_def update_conv' Let_def)
qed

lemma onum_deleteNumeric:
  assumes "onum_ok (map_of (numeric i) f) g" and "g n = Some x"
  shows "onum_ok (map_of (numeric (deleteNumeric i f x n)) f) (g(n := None))"
proof (cases "map_of (numeric i) f")
  case None
  then show ?thesis using assms by (simp add: onum_ok_def)
next
  case (Some m)
  then have m: "num_ok m g" using assms(1) by (simp add: onum_ok_def)
  then have "map_of (current m) n = Some x" using assms(2) by (simp add: num_ok_def)
  then show ?thesis
    using Some mergeIfNeeded_ok [OF num_ok_delete [OF m]]
    by (simp add: deleteNumeric_def onum_ok_def update_conv' Let_def)
qed

lemma insertNumeric_frame [simp]:
  "universe (insertNumeric i f e) = universe i" "values (insertNumeric i f e) = values i"
  "postings (insertNumeric i f e) = postings i" "present (insertNumeric i f e) = present i"
  "f' \<noteq> f \<Longrightarrow> map_of (numeric (insertNumeric i f e)) f' = map_of (numeric i) f'"
  by (simp_all add: insertNumeric_def Let_def update_conv')

lemma deleteNumeric_frame [simp]:
  "universe (deleteNumeric i f x n) = universe i" "values (deleteNumeric i f x n) = values i"
  "postings (deleteNumeric i f x n) = postings i" "present (deleteNumeric i f x n) = present i"
  "f' \<noteq> f \<Longrightarrow> map_of (numeric (deleteNumeric i f x n)) f' = map_of (numeric i) f'"
  by (simp_all add: deleteNumeric_def Let_def update_conv' split: option.splits)

lemma fieldValues_frame [simp]:
  "fieldValues (deleteNumeric i f x n) f' = fieldValues i f'" "fieldValues (insertNumeric i f e) f' = fieldValues i f'"
  by (simp_all add: fieldValues_def)

subsection \<open>Invariant of one field\<close>

text \<open>
  \<open>g\<close> says which value each ordinal has for the field. The four maps of the index are read through
  the entries they have for it.
\<close>

definition with_key :: "text_lib \<Rightarrow> (u64 \<Rightarrow> Value option) \<Rightarrow> string \<Rightarrow> nat set" where
  "with_key T g k = unat ` {n. \<exists>v. g n = Some v \<and> canonical T v = k}"

definition numbers_of :: "text_lib \<Rightarrow> (u64 \<Rightarrow> Value option) \<Rightarrow> u64 \<Rightarrow> f64 option" where
  "numbers_of T g n = Option.bind (g n) (number T)"

definition get2 :: "('a \<times> ('b \<times> 'c) list) list \<Rightarrow> 'a \<Rightarrow> 'b \<Rightarrow> 'c option" where
  "get2 m a = (\<lambda>b. Option.bind (map_of m a) (\<lambda>x. map_of x b))"

definition field_ok :: "text_lib \<Rightarrow> Index \<Rightarrow> string \<Rightarrow> (u64 \<Rightarrow> Value option) \<Rightarrow> bool" where
  "field_ok T i f g \<longleftrightarrow>
     get2 (values i) f = g \<and> distinct (map fst (fieldValues i f))
     \<and> (\<forall>k. opmembers (get2 (postings i) f k) = with_key T g k \<and> oposting_inv (get2 (postings i) f k))
     \<and> omembers (map_of (present i) f) = unat ` dom g \<and> oset_inv (map_of (present i) f)
     \<and> onum_ok (map_of (numeric i) f) (numbers_of T g)"

lemma field_ok_cong:
  assumes "map_of (values j) f = map_of (values i) f" "map_of (postings j) f = map_of (postings i) f"
    "map_of (present j) f = map_of (present i) f" "map_of (numeric j) f = map_of (numeric i) f"
  shows "field_ok T j f g = field_ok T i f g"
  using assms by (simp add: field_ok_def get2_def fieldValues_def)

lemma numbers_of_upd: "numbers_of T (g(n := ov)) = (numbers_of T g)(n := Option.bind ov (number T))"
  by (auto simp: numbers_of_def)

lemma with_key_remove: "with_key T (g(n := None)) k = with_key T g k - {unat n}"
proof -
  have "{m. \<exists>v. (g(n := None)) m = Some v \<and> canonical T v = k} = {m. \<exists>v. g m = Some v \<and> canonical T v = k} - {n}"
    by auto
  then show ?thesis by (simp add: with_key_def unat_image_diff)
qed

lemma with_key_insert:
  assumes "g n = None"
  shows "with_key T (g(n \<mapsto> v)) k = (if canonical T v = k then insert (unat n) (with_key T g k) else with_key T g k)"
proof -
  have "{m. \<exists>w. (g(n \<mapsto> v)) m = Some w \<and> canonical T w = k}
      = {m. \<exists>w. g m = Some w \<and> canonical T w = k} \<union> (if canonical T v = k then {n} else {})"
    using assms by auto
  then show ?thesis by (simp add: with_key_def image_Un)
qed

lemma with_key_other: "g n = Some v \<Longrightarrow> canonical T v \<noteq> k \<Longrightarrow> unat n \<notin> with_key T g k"
  by (simp add: with_key_def unat_image_iff)

lemma present_removed:
  "omembers (Some (the (SetRemove (Some s) n))) = members s - {unat n}"
  "set_inv s \<Longrightarrow> set_inv (the (SetRemove (Some s) n))"
proof -
  obtain t where "SetRemove (Some s) n = Some t" "members t = members s - {unat n}" "set_inv s \<longrightarrow> set_inv t"
    using SetRemove_Some [of s n] by blast
  then show "omembers (Some (the (SetRemove (Some s) n))) = members s - {unat n}"
    "set_inv s \<Longrightarrow> set_inv (the (SetRemove (Some s) n))" by simp_all
qed

lemma deleteField_other:
  assumes "f' \<noteq> f"
  shows "field_ok T (deleteField T n f i) f' g = field_ok T i f' g"
  by (rule field_ok_cong)
    (use assms in \<open>simp_all add: deleteField_def Let_def update_conv' split: option.splits\<close>)

lemma upsertField_other:
  assumes "f' \<noteq> f"
  shows "field_ok T (upsertField T n (f, v) i) f' g = field_ok T i f' g"
  by (rule field_ok_cong)
    (use assms in \<open>simp_all add: upsertField_def Let_def update_conv' split: option.splits\<close>)

lemma field_universe [simp]:
  "universe (deleteField T n f i) = universe i" "universe (upsertField T n fv i) = universe i"
  by (simp_all add: deleteField_def upsertField_def Let_def split: option.splits prod.splits)

lemma get2_update [simp]:
  "get2 (AList.update f m ms) f = map_of m"
  by (simp add: get2_def update_conv')

lemma get2_Some: "map_of ms f = Some m \<Longrightarrow> get2 ms f = map_of m"
  by (simp add: get2_def)

lemma get2_default: "map_of (case map_of ms f of None \<Rightarrow> [] | Some m \<Rightarrow> m) = get2 ms f"
  by (auto simp: get2_def fun_eq_iff split: option.splits)

text \<open>Deleting an ordinal from a field, the value of which is \<open>v\<close>.\<close>

lemma deleteField_ok:
  assumes ok: "field_ok T i f g"
  shows "field_ok T (deleteField T n f i) f (g(n := None))"
proof (cases "g n")
  case None
  moreover have "deleteField T n f i = i"
    using None ok by (auto simp: field_ok_def deleteField_def get2_def split: option.splits)
  ultimately show ?thesis using ok by (simp add: fun_upd_idem)
next
  case (Some v)
  obtain vs where vs: "map_of (values i) f = Some vs" "map_of vs = g" "map_of vs n = Some v"
    using ok Some by (auto simp: field_ok_def get2_def bind_eq_Some_conv split: option.splits)
  have P: "opmembers (get2 (postings i) f k) = with_key T g k" "oposting_inv (get2 (postings i) f k)" for k
    using ok by (auto simp: field_ok_def)
  have "unat n \<in> with_key T g (canonical T v)" using Some by (auto simp: with_key_def)
  then obtain ps p where ps: "map_of (postings i) f = Some ps" "map_of ps (canonical T v) = Some p"
    using P(1) [of "canonical T v"] by (auto simp: get2_def opmembers_def split: option.splits bind_splits)
  have p: "pmembers p = with_key T g (canonical T v)" "posting_inv p"
    using P [of "canonical T v"] ps by (simp_all add: get2_def)
  have "unat n \<in> unat ` dom g" using Some by auto
  then obtain s where s: "map_of (present i) f = Some s" "members s = unat ` dom g" "set_inv s"
    using ok by (cases "map_of (present i) f") (auto simp: field_ok_def)
  define j where "j = i\<lparr>values := AList.update f (AList.delete n vs) (values i),
    postings := AList.update f (AList.update (canonical T v) (postingRemove p n) ps) (postings i),
    present := AList.update f (the (SetRemove (Some s) n)) (present i)\<rparr>"
  have D: "deleteField T n f i = (case number T v of None \<Rightarrow> j | Some x \<Rightarrow> deleteNumeric j f x n)"
    using vs ps s by (cases "number T v") (simp_all add: deleteField_def j_def Let_def)
  have post: "opmembers (get2 (postings j) f k) = with_key T (g(n := None)) k \<and> oposting_inv (get2 (postings j) f k)" for k
  proof (cases "k = canonical T v")
    case True
    then show ?thesis using p posting_remove_props [of p n] by (simp add: j_def update_conv' with_key_remove)
  next
    case False
    then show ?thesis
      using P [of k] ps with_key_other [of g n v T k] Some
      by (simp add: j_def update_conv' with_key_remove get2_Some [OF ps(1)])
  qed
  have "get2 (values j) f = g(n := None)" "distinct (map fst (fieldValues j f))"
    using vs(1,2) ok by (simp_all add: j_def delete_conv' update_conv' distinct_delete fieldValues_def field_ok_def)
  moreover have "omembers (map_of (present j) f) = unat ` dom (g(n := None))" "oset_inv (map_of (present j) f)"
    using s present_removed [of s n] by (simp_all add: j_def update_conv' unat_image_diff)
  moreover have "onum_ok (map_of (numeric j) f) (numbers_of T g)" using ok by (simp add: j_def field_ok_def)
  moreover have "onum_ok (map_of (numeric j) f) (numbers_of T (g(n := None)))" if "number T v = None"
    using that Some calculation(5) by (simp add: numbers_of_upd fun_upd_idem numbers_of_def)
  moreover have "onum_ok (map_of (numeric (deleteNumeric j f x n)) f) (numbers_of T (g(n := None)))"
    if "number T v = Some x" for x
    using that Some calculation(5) onum_deleteNumeric [of j f "numbers_of T g" n x]
    by (simp add: numbers_of_upd) (simp add: numbers_of_def)
  ultimately show ?thesis using post by (simp add: D field_ok_def split: option.splits)
qed

lemma upsertField_ok:
  assumes ok: "field_ok T i f g" and "g n = None" and "validateScalar T v = Inr ()"
  shows "field_ok T (upsertField T n (f, v) i) f (g(n \<mapsto> v))"
proof -
  define vs where "vs = fieldValues i f"
  define ps where "ps = (case map_of (postings i) f of None \<Rightarrow> [] | Some ps \<Rightarrow> ps)"
  define p where "p = (case map_of ps (canonical T v) of None \<Rightarrow> emptyPosting | Some p \<Rightarrow> p)"
  define s where "s = (case map_of (present i) f of None \<Rightarrow> newSet n | Some s \<Rightarrow> s)"
  define j where "j = i\<lparr>values := AList.update f (AList.update n v vs) (values i),
    postings := AList.update f (AList.update (canonical T v) (postingAdd p n) ps) (postings i),
    present := AList.update f (SetAdd s n) (present i)\<rparr>"
  have D: "upsertField T n (f, v) i = (case number T v of None \<Rightarrow> j | Some x \<Rightarrow> insertNumeric j f \<lparr>ne_value = x, ne_id = n\<rparr>)"
    using assms(3) by (cases "number T v") (simp_all add: upsertField_def j_def vs_def ps_def p_def s_def Let_def)
  have P: "opmembers (map_of ps k) = with_key T g k" "oposting_inv (map_of ps k)" for k
    using ok by (simp_all add: field_ok_def ps_def get2_default)
  have p: "pmembers p = with_key T g (canonical T v)" "posting_inv p"
    using P [of "canonical T v"] by (cases "map_of ps (canonical T v)"; simp add: p_def)+
  have s: "members s = unat ` dom g" "set_inv s"
    using ok by (cases "map_of (present i) f"; simp add: s_def field_ok_def)+
  have "opmembers (get2 (postings j) f k) = with_key T (g(n \<mapsto> v)) k \<and> oposting_inv (get2 (postings j) f k)" for k
    using P [of k] p posting_add_props [of p n] assms(2)
    by (auto simp: j_def update_conv' with_key_insert)
  moreover have "get2 (values j) f = g(n \<mapsto> v)" "distinct (map fst (fieldValues j f))"
    using ok get2_default [of "values i" f]
    by (simp_all add: j_def update_conv' vs_def field_ok_def fieldValues_def distinct_update)
  moreover have "omembers (map_of (present j) f) = unat ` dom (g(n \<mapsto> v))" "oset_inv (map_of (present j) f)"
    using s by (simp_all add: j_def update_conv' members_SetAdd set_inv_SetAdd)
  moreover have "onum_ok (map_of (numeric j) f) (numbers_of T g)" using ok by (simp add: j_def field_ok_def)
  moreover have "onum_ok (map_of (numeric j) f) (numbers_of T (g(n \<mapsto> v)))" if "number T v = None"
    using that assms(2) calculation(6) by (simp add: numbers_of_upd fun_upd_idem numbers_of_def)
  moreover have "onum_ok (map_of (numeric (insertNumeric j f \<lparr>ne_value = x, ne_id = n\<rparr>)) f) (numbers_of T (g(n \<mapsto> v)))"
    if "number T v = Some x" for x
    using that assms(2) calculation(6) onum_insertNumeric [of j f "numbers_of T g" n x]
    by (simp add: numbers_of_upd) (simp add: numbers_of_def)
  ultimately show ?thesis by (simp add: D field_ok_def split: option.splits)
qed

subsection \<open>Invariant of the index\<close>

text \<open>
  What the index stands for: for every live ordinal the scalar fields of its metadata.
\<close>

type_synonym doc = "string \<Rightarrow> Value option"

definition doc_of :: "text_lib \<Rightarrow> (string \<times> Value) list \<Rightarrow> doc" where
  "doc_of T md f =
     (case map_of md f of
        None \<Rightarrow> None
      | Some v \<Rightarrow> if validateScalar T v = Inr () then Some v else None)"

definition column :: "(u64 \<Rightarrow> doc option) \<Rightarrow> string \<Rightarrow> u64 \<Rightarrow> Value option" where
  "column rows f n = Option.bind (rows n) (\<lambda>d. d f)"

definition index_ok :: "text_lib \<Rightarrow> Index \<Rightarrow> (u64 \<Rightarrow> doc option) \<Rightarrow> bool" where
  "index_ok T i rows \<longleftrightarrow>
     members (universe i) = unat ` dom rows \<and> set_inv (universe i) \<and> (\<forall>f. field_ok T i f (column rows f))"

lemma NewIndex_ok: "index_ok T NewIndex (\<lambda>_. None)"
proof -
  have "column (\<lambda>_. None) f = (\<lambda>_. None)" for f by (simp add: column_def fun_eq_iff)
  moreover have "numbers_of T (\<lambda>_. None) = (\<lambda>_. None)" by (simp add: numbers_of_def fun_eq_iff)
  ultimately show ?thesis
    by (simp add: index_ok_def NewIndex_def field_ok_def get2_def fieldValues_def with_key_def onum_ok_def)
qed

lemma field_ok_universe [simp]: "field_ok T (i\<lparr>universe := u\<rparr>) f g = field_ok T i f g"
  by (rule field_ok_cong) simp_all

lemma universe_fold [simp]:
  "universe (fold (deleteField T n) fs i) = universe i"
  "universe (fold (upsertField T n) md i) = universe i"
  by (induction fs arbitrary: i, simp_all) (induction md arbitrary: i, simp_all)

lemma fold_deleteField:
  "field_ok T i f g \<Longrightarrow> field_ok T (fold (deleteField T n) fs i) f (if f \<in> set fs then g(n := None) else g)"
proof (induction fs arbitrary: i g)
  case (Cons f' fs)
  show ?case
  proof (cases "f' = f")
    case True
    then show ?thesis using Cons.IH [OF deleteField_ok [OF Cons.prems, of n]] by (cases "f \<in> set fs") simp_all
  next
    case False
    then have "field_ok T (deleteField T n f' i) f g" using Cons.prems by (simp add: deleteField_other)
    from Cons.IH [OF this] show ?thesis using False by simp
  qed
qed simp

lemma fold_upsertField_other:
  "f \<notin> fst ` set md \<Longrightarrow> field_ok T (fold (upsertField T n) md i) f g = field_ok T i f g"
proof (induction md arbitrary: i)
  case (Cons a md)
  obtain f' v where "a = (f', v)" by (cases a)
  then show ?case using Cons by (auto simp: upsertField_other)
qed simp

lemma upsertField_invalid: "validateScalar T v \<noteq> Inr () \<Longrightarrow> upsertField T n (f, v) i = i"
  by (simp add: upsertField_def)

lemma fold_upsertField:
  assumes "distinct (map fst md)" and "field_ok T i f g" and "g n = None"
  shows "field_ok T (fold (upsertField T n) md i) f (g(n := doc_of T md f))"
  using assms
proof (induction md arbitrary: i)
  case Nil
  then show ?case by (simp add: doc_of_def fun_upd_idem)
next
  case (Cons a md)
  obtain f' v where a: "a = (f', v)" by (cases a)
  show ?case
  proof (cases "f' = f")
    case False
    then have "field_ok T (upsertField T n a i) f g" using Cons.prems(2) a by (simp add: upsertField_other)
    moreover have "doc_of T (a # md) f = doc_of T md f" using False a by (simp add: doc_of_def)
    ultimately show ?thesis using Cons by simp
  next
    case True
    then have nin: "f \<notin> fst ` set md" using Cons.prems(1) a by auto
    show ?thesis
    proof (cases "validateScalar T v = Inr ()")
      case valid: True
      then have "field_ok T (upsertField T n a i) f (g(n \<mapsto> v))"
        using upsertField_ok [OF Cons.prems(2,3) valid] True a by simp
      moreover have "doc_of T (a # md) f = Some v" using True a valid by (simp add: doc_of_def)
      ultimately show ?thesis by (simp only: fold_simps fold_upsertField_other [OF nin])
    next
      case False
      then have "doc_of T (a # md) f = None" "upsertField T n a i = i"
        using True a by (simp_all add: doc_of_def upsertField_invalid)
      then show ?thesis
        using Cons.prems(2,3) by (simp only: fold_simps fold_upsertField_other [OF nin] fun_upd_idem)
    qed
  qed
qed

lemma column_upd: "column (rows(n := r)) f = (column rows f)(n := Option.bind r (\<lambda>d. d f))"
  by (auto simp: column_def)

lemma Delete_ok:
  assumes "index_ok T i rows"
  shows "index_ok T (Delete T i n) (rows(n := None))"
proof -
  let ?i = "i\<lparr>universe := the (SetRemove (Some (universe i)) n)\<rparr>"
  have "members (universe (Delete T i n)) = unat ` dom (rows(n := None))" "set_inv (universe (Delete T i n))"
    using assms present_removed [of "universe i" n]
    by (simp_all add: Delete_def index_ok_def Let_def unat_image_diff)
  moreover have "field_ok T (Delete T i n) f (column (rows(n := None)) f)" for f
  proof -
    have ok: "field_ok T i f (column rows f)" using assms by (simp add: index_ok_def)
    then have "field_ok T ?i f (column rows f)" by simp
    from fold_deleteField [OF this, of n "map fst (values i)"]
    have "field_ok T (Delete T i n) f
        (if f \<in> set (map fst (values i)) then (column rows f)(n := None) else column rows f)"
      by (simp add: Delete_def Let_def)
    moreover have "column rows f = (\<lambda>_. None)" if "f \<notin> set (map fst (values i))"
    proof -
      have "map_of (values i) f = None" using that by (simp add: map_of_eq_None_iff)
      then show ?thesis using ok by (auto simp: field_ok_def get2_def)
    qed
    ultimately show ?thesis by (cases "f \<in> set (map fst (values i))") (simp_all add: column_upd fun_upd_idem)
  qed
  ultimately show ?thesis by (simp add: index_ok_def)
qed

lemma Upsert_ok:
  assumes "index_ok T i rows" and "distinct (map fst md)"
  shows "index_ok T (Upsert T i n md) (rows(n \<mapsto> doc_of T md))"
proof -
  have d: "index_ok T (Delete T i n) (rows(n := None))" by (rule Delete_ok [OF assms(1)])
  then have "members (universe (Upsert T i n md)) = unat ` dom (rows(n \<mapsto> doc_of T md))"
    "set_inv (universe (Upsert T i n md))"
    by (simp_all add: Upsert_def index_ok_def Let_def members_SetAdd set_inv_SetAdd unat_image_diff)
  moreover have "field_ok T (Upsert T i n md) f (column (rows(n \<mapsto> doc_of T md)) f)" for f
  proof -
    let ?i = "(Delete T i n)\<lparr>universe := SetAdd (universe (Delete T i n)) n\<rparr>"
    have "field_ok T ?i f ((column rows f)(n := None))" using d by (simp add: index_ok_def column_upd)
    from fold_upsertField [OF assms(2) this, of n]
    show ?thesis by (simp add: Upsert_def Let_def column_upd)
  qed
  ultimately show ?thesis by (simp add: index_ok_def)
qed

end
