(* ===== verification/Meta_Eval.thy ===== *)
theory Meta_Eval
  imports Meta_Index
begin

text \<open>
  Filter evaluation of \<open>internal/metadata/filter.go\<close>: predicates and boolean expressions over the index,
  and a reading of the same expressions on one record's metadata, which the evaluator implements.
\<close>

subsection \<open>Predicates\<close>

definition postingSet :: "text_lib \<Rightarrow> Index \<Rightarrow> string \<Rightarrow> Value \<Rightarrow> Set" where
  "postingSet T i field value =
     (let maxID = (if length (words (universe i)) > 0 then of_nat (length (words (universe i)) * 64 - 1) else 0) in
      postingSetOf (get2 (postings i) field (canonical T value)) maxID)"

text \<open>The loop over all values of a field, which adds the ordinals whose value passes a test.\<close>

definition scanValues :: "(Value \<Rightarrow> bool) \<Rightarrow> (u64 \<times> Value) list \<Rightarrow> Set \<Rightarrow> Set" where
  "scanValues P vs result = fold (\<lambda>(n, v) r. if P v then SetAdd r n else r) vs result"

text \<open>The loop over the operands of \<open>$in\<close> and \<open>$nin\<close>.\<close>

definition unionPostings :: "text_lib \<Rightarrow> Index \<Rightarrow> string \<Rightarrow> Value list \<Rightarrow> Set \<Rightarrow> Set" where
  "unionPostings T i field vs matched =
     fold (\<lambda>v m. set_union (Some m) (Some (postingSet T i field v))) vs matched"

text \<open>A failed type assertion without the \<open>ok\<close> result is a panic.\<close>

definition predicate :: "text_lib \<Rightarrow> Index \<Rightarrow> string \<Rightarrow> Operator \<Rightarrow> Value \<Rightarrow> Set result" where
  "predicate T i field op value =
     (case op of
        OpExists \<Rightarrow>
          (let existing = clone (map_of (present i) field) in
           case value of
             VBool b \<Rightarrow> Inr (if b then existing else set_difference (Some (universe i)) (Some existing))
           | _ \<Rightarrow> Inl GoPanic)
      | OpEq \<Rightarrow> Inr (postingSet T i field value)
      | OpNe \<Rightarrow> Inr (set_difference (map_of (present i) field) (Some (postingSet T i field value)))
      | OpText \<Rightarrow>
          (case value of
             VString s \<Rightarrow>
               Inr (scanValues (\<lambda>v. case v of VString text \<Rightarrow> containsWords T text (textWords T s) | _ \<Rightarrow> False)
                      (fieldValues i field) (newSet (universeBits i)))
           | _ \<Rightarrow> Inl GoPanic)
      | OpIn \<Rightarrow>
          (case value of
             VList vs \<Rightarrow>
               Inr (unionPostings T i field vs (newSet (universeBits i)))
           | _ \<Rightarrow> Inl GoPanic)
      | OpNotIn \<Rightarrow>
          (case value of
             VList vs \<Rightarrow>
               Inr (set_difference (map_of (present i) field)
                      (Some (unionPostings T i field vs (newSet (universeBits i)))))
           | _ \<Rightarrow> Inl GoPanic)
      | _ \<Rightarrow>
          (case number T value of
             Some target \<Rightarrow> Inr (numericRange i field op target)
           | None \<Rightarrow>
               Inr (scanValues (\<lambda>v. case compare T v value of None \<Rightarrow> False | Some c \<Rightarrow> compareMatches op c)
                      (fieldValues i field) (newSet (universeBits i)))))"

subsection \<open>Expressions\<close>

text \<open>
  The great-circle filter \<open>geoRadius\<close> works with trigonometric functions; it is the argument \<open>geo\<close>. The
  loops over the children of a conjunction and a disjunction are \<open>evalAnd\<close> and \<open>evalOr\<close>.
\<close>

function (sequential) Evaluate ::
    "text_lib \<Rightarrow> (Index \<Rightarrow> GeoRadius \<Rightarrow> Set) \<Rightarrow> Index \<Rightarrow> Expr option \<Rightarrow> Set result"
  and evalAnd :: "text_lib \<Rightarrow> (Index \<Rightarrow> GeoRadius \<Rightarrow> Set) \<Rightarrow> Index \<Rightarrow> Expr option list \<Rightarrow> Set \<Rightarrow> Set result"
  and evalOr :: "text_lib \<Rightarrow> (Index \<Rightarrow> GeoRadius \<Rightarrow> Set) \<Rightarrow> Index \<Rightarrow> Expr option list \<Rightarrow> Set \<Rightarrow> Set result" where
  "Evaluate T geo i None = Inr (clone (Some (universe i)))"
| "Evaluate T geo i (Some (Expr kind field op value children)) =
     (case kind of
        KindAnd \<Rightarrow> evalAnd T geo i children (clone (Some (universe i)))
      | KindOr \<Rightarrow> evalOr T geo i children (newSet (universeBits i))
      | KindNot \<Rightarrow>
          (case children of
             [] \<Rightarrow> Inl GoPanic
           | c # _ \<Rightarrow> and_then (Evaluate T geo i c) (\<lambda>s. Inr (set_difference (Some (universe i)) (Some s))))
      | KindPredicate \<Rightarrow> predicate T i field op value
      | KindGeo \<Rightarrow> (case value of VGeo g \<Rightarrow> Inr (geo i g) | _ \<Rightarrow> Inl GoPanic))"
| "evalAnd T geo i [] result = Inr result"
| "evalAnd T geo i (c # cs) result =
     and_then (Evaluate T geo i c) (\<lambda>s. evalAnd T geo i cs (set_intersect (Some result) (Some s)))"
| "evalOr T geo i [] result = Inr result"
| "evalOr T geo i (c # cs) result =
     and_then (Evaluate T geo i c) (\<lambda>s. evalOr T geo i cs (set_union (Some result) (Some s)))"
  by pat_completeness auto
termination
  by (relation "measure (\<lambda>x. case x of
        Inl (T, geo, i, e) \<Rightarrow> size_option size e
      | Inr (Inl (T, geo, i, cs, r)) \<Rightarrow> size_list (size_option size) cs
      | Inr (Inr (T, geo, i, cs, r)) \<Rightarrow> size_list (size_option size) cs)") auto

subsection \<open>The same filters read on one record\<close>

definition pred_matches :: "text_lib \<Rightarrow> doc \<Rightarrow> string \<Rightarrow> Operator \<Rightarrow> Value \<Rightarrow> bool" where
  "pred_matches T d field op value =
     (case op of
        OpExists \<Rightarrow> value = VBool (d field \<noteq> None)
      | _ \<Rightarrow>
          (case d field of
             None \<Rightarrow> False
           | Some v \<Rightarrow>
               (case op of
                  OpEq \<Rightarrow> canonical T v = canonical T value
                | OpNe \<Rightarrow> canonical T v \<noteq> canonical T value
                | OpText \<Rightarrow>
                    (case (v, value) of
                       (VString text, VString s) \<Rightarrow> set (textWords T s) \<subseteq> set (textWords T text)
                     | _ \<Rightarrow> False)
                | OpIn \<Rightarrow> (case value of VList vs \<Rightarrow> canonical T v \<in> canonical T ` set vs | _ \<Rightarrow> False)
                | OpNotIn \<Rightarrow> (case value of VList vs \<Rightarrow> canonical T v \<notin> canonical T ` set vs | _ \<Rightarrow> False)
                | _ \<Rightarrow> (case compare T v value of None \<Rightarrow> False | Some c \<Rightarrow> compareMatches op c))))"

function (sequential) matches :: "text_lib \<Rightarrow> doc \<Rightarrow> Expr option \<Rightarrow> bool" where
  "matches T d None = True"
| "matches T d (Some (Expr kind field op value children)) =
     (case kind of
        KindAnd \<Rightarrow> (\<forall>c \<in> set children. matches T d c)
      | KindOr \<Rightarrow> (\<exists>c \<in> set children. matches T d c)
      | KindNot \<Rightarrow> (case children of [] \<Rightarrow> False | c # _ \<Rightarrow> \<not> matches T d c)
      | KindPredicate \<Rightarrow> pred_matches T d field op value
      | KindGeo \<Rightarrow> False)"
  by pat_completeness auto
termination
  by (relation "measure (\<lambda>(T, d, e). size_option size e)")
    (auto simp: less_Suc_eq_le intro!: le_SucI size_list_estimation' [OF _ order_refl])

text \<open>
  The operands have the types the evaluator asserts. \<open>plain\<close> expressions have no great-circle filter.
\<close>

definition pred_typed :: "Operator \<Rightarrow> Value \<Rightarrow> bool" where
  "pred_typed op value =
     (case op of
        OpExists \<Rightarrow> (case value of VBool _ \<Rightarrow> True | _ \<Rightarrow> False)
      | OpText \<Rightarrow> (case value of VString _ \<Rightarrow> True | _ \<Rightarrow> False)
      | OpIn \<Rightarrow> (case value of VList _ \<Rightarrow> True | _ \<Rightarrow> False)
      | OpNotIn \<Rightarrow> (case value of VList _ \<Rightarrow> True | _ \<Rightarrow> False)
      | _ \<Rightarrow> True)"

fun wt :: "Expr option \<Rightarrow> bool" and wt_all :: "Expr option list \<Rightarrow> bool" where
  "wt None = True"
| "wt (Some (Expr kind field op value children)) =
     (wt_all children \<and>
      (case kind of
         KindNot \<Rightarrow> children \<noteq> []
       | KindPredicate \<Rightarrow> pred_typed op value
       | KindGeo \<Rightarrow> (case value of VGeo _ \<Rightarrow> True | _ \<Rightarrow> False)
       | _ \<Rightarrow> True))"
| "wt_all [] = True"
| "wt_all (c # cs) = (wt c \<and> wt_all cs)"

fun plain :: "Expr option \<Rightarrow> bool" and plain_all :: "Expr option list \<Rightarrow> bool" where
  "plain None = True"
| "plain (Some (Expr kind field op value children)) = (kind \<noteq> KindGeo \<and> plain_all children)"
| "plain_all [] = True"
| "plain_all (c # cs) = (plain c \<and> plain_all cs)"

subsection \<open>Range queries on the numeric index\<close>

lemma search_split:
  fixes k :: "'a \<Rightarrow> int"
  assumes "sorted (map k xs)" and mono: "\<And>x y. x \<le> y \<Longrightarrow> P x \<Longrightarrow> P y"
  defines "s \<equiv> go_search (length xs) (\<lambda>p. P (k (xs ! p)))"
  shows "set (drop s xs) = {e \<in> set xs. P (k e)}" and "set (take s xs) = {e \<in> set xs. \<not> P (k e)}"
proof -
  have m: "P (k (xs ! b))" if "a \<le> b" "b < length xs" "P (k (xs ! a))" for a b
    using mono [of "k (xs ! a)" "k (xs ! b)"] that sorted_nth_mono [OF assms(1), of a b] by simp
  note spec = go_search_spec [of "length xs" "\<lambda>p. P (k (xs ! p))", OF m, folded s_def]
  have le: "s \<le> length xs" using spec(1) by simp
  have hi: "P (k (xs ! p))" if "s \<le> p" "p < length xs" for p using spec(3) [where k = p] that by simp
  have lo: "\<not> P (k (xs ! p))" if "p < s" for p using spec(2) [where k = p] that by simp
  have D: "set (drop s xs) = {xs ! p | p. s \<le> p \<and> p < length xs}"
  proof -
    have "set (drop s xs) = {xs ! (s + q) | q. s + q < length xs}"
      using le by (auto simp: set_conv_nth less_diff_conv2 add.commute)
    also have "\<dots> = {xs ! p | p. s \<le> p \<and> p < length xs}" by auto (metis le_Suc_ex)
    finally show ?thesis .
  qed
  have Tk: "set (take s xs) = {xs ! p | p. p < s}" by (auto simp: nth_image [OF le, symmetric])
  show "set (drop s xs) = {e \<in> set xs. P (k e)}"
    using D hi lo by (auto simp: set_conv_nth) (metis not_le_imp_less)
  show "set (take s xs) = {e \<in> set xs. \<not> P (k e)}"
    using Tk hi lo le by (auto simp: set_conv_nth) (metis not_le_imp_less)
qed

lemma members_fold_add:
  "members (fold (\<lambda>e r. if P e then SetAdd r (h e) else r) es r) = members r \<union> unat ` h ` {e \<in> set es. P e}"
  "set_inv r \<Longrightarrow> set_inv (fold (\<lambda>e r. if P e then SetAdd r (h e) else r) es r)"
  by (induction es arbitrary: r) (auto simp: members_SetAdd set_inv_SetAdd)

abbreviation range_op :: "Operator \<Rightarrow> bool" where
  "range_op op \<equiv> op \<in> {OpGT, OpGTE, OpLT, OpLTE}"

lemma numericRange_members:
  assumes "onum_ok (map_of (numeric i) f) g" and "range_op op"
  shows "members (numericRange i f op t) = unat ` {n. \<exists>x. g n = Some x \<and> rangeMatches x op t}"
    and "set_inv (numericRange i f op t)"
proof -
  have "members (numericRange i f op t) = unat ` {n. \<exists>x. g n = Some x \<and> rangeMatches x op t}
      \<and> set_inv (numericRange i f op t)"
  proof (cases "map_of (numeric i) f")
    case None
    then show ?thesis using assms(1) by (simp add: numericRange_def onum_ok_def)
  next
    case (Some m)
    then have ok: "num_ok m g" using assms(1) by (simp add: onum_ok_def)
    let ?k = "\<lambda>e. f64_key (ne_value e)" and ?b = "base m" and ?len = "length (base m)"
    define start where "start = (if op = OpGT then go_search ?len (\<lambda>p. ?k (?b ! p) > f64_key t)
        else if op = OpGTE then go_search ?len (\<lambda>p. ?k (?b ! p) \<ge> f64_key t) else 0)"
    define stop where "stop = (if op = OpLT then go_search ?len (\<lambda>p. ?k (?b ! p) \<ge> f64_key t)
        else if op = OpLTE then go_search ?len (\<lambda>p. ?k (?b ! p) > f64_key t) else ?len)"
    let ?slice = "take (stop - start) (drop start ?b)"
    have sorted: "sorted (map ?k ?b)" using ok by (simp add: num_ok_def)
    have slice: "set ?slice = {e \<in> set ?b. rangeMatches (ne_value e) op t}"
      using assms(2) search_split [OF sorted, of "\<lambda>x. x > f64_key t"] search_split [OF sorted, of "\<lambda>x. x \<ge> f64_key t"]
      by (auto simp: start_def stop_def rangeMatches_def not_le not_less)
    let ?live = "\<lambda>e. \<not> SetContains (Some (invalidBase m)) (ne_id e)"
    let ?cur = "\<lambda>e. \<exists>x. map_of (current m) (ne_id e) = Some x \<and> f64_key x = ?k e \<and> rangeMatches (ne_value e) op t"
    have cur: "(case map_of (current m) (ne_id e) of None \<Rightarrow> r
        | Some x \<Rightarrow> if f64_key x = ?k e \<and> rangeMatches (ne_value e) op t then SetAdd r (ne_id e) else r)
      = (if ?cur e then SetAdd r (ne_id e) else r)" for e r by (auto split: option.split)
    have R: "numericRange i f op t = fold (\<lambda>e r. if ?cur e then SetAdd r (ne_id e) else r) (delta m)
        (fold (\<lambda>e r. if ?live e then SetAdd r (ne_id e) else r) ?slice (newSet (universeBits i)))"
      using Some by (simp add: numericRange_def Let_def cur start_def stop_def)
    have "ne_id ` {e \<in> set ?slice. ?live e} \<union> ne_id ` {e \<in> set (delta m). ?cur e}
        = {n. \<exists>x. g n = Some x \<and> rangeMatches x op t}" (is "?L = ?R")
    proof (rule set_eqI, rule iffI)
      fix n assume "n \<in> ?L"
      then show "n \<in> ?R"
        using ok slice by (fastforce simp: num_ok_def members_SetContains rangeMatches_def split: Operator.splits)
    next
      fix n assume "n \<in> ?R"
      then obtain x where x: "g n = Some x" "rangeMatches x op t" by auto
      let ?e = "\<lparr>ne_value = x, ne_id = n\<rparr>"
      have "map_of (current m) n = Some x" using ok x by (simp add: num_ok_def)
      then have "?e \<in> set ?slice \<and> ?live ?e \<or> ?e \<in> set (delta m) \<and> ?cur ?e"
        using ok x slice by (auto simp: num_ok_def members_SetContains)
      then show "n \<in> ?L" by (metis (mono_tags, lifting) UnI1 UnI2 imageI mem_Collect_eq numericEntry.select_convs(2))
    qed
    then show ?thesis by (simp add: R members_fold_add image_Un [symmetric])
  qed
  then show "members (numericRange i f op t) = unat ` {n. \<exists>x. g n = Some x \<and> rangeMatches x op t}"
    "set_inv (numericRange i f op t)" by simp_all
qed

subsection \<open>The evaluator implements the filters\<close>

text \<open>The ordinals of the records that satisfy a condition.\<close>

definition hits :: "(u64 \<Rightarrow> doc option) \<Rightarrow> (doc \<Rightarrow> bool) \<Rightarrow> nat set" where
  "hits rows P = unat ` {n. \<exists>d. rows n = Some d \<and> P d}"

lemma hits_dom: "unat ` dom rows = hits rows (\<lambda>_. True)"
  by (auto simp: hits_def)

lemma hits_Int: "hits rows P \<inter> hits rows Q = hits rows (\<lambda>d. P d \<and> Q d)"
  unfolding hits_def image_Int [OF inj_unat, symmetric] by (rule arg_cong [where f = "image unat"]) auto

lemma hits_Un: "hits rows P \<union> hits rows Q = hits rows (\<lambda>d. P d \<or> Q d)"
  by (auto simp: hits_def)

lemma hits_Diff: "hits rows P - hits rows Q = hits rows (\<lambda>d. P d \<and> \<not> Q d)"
  unfolding hits_def image_set_diff [OF inj_unat, symmetric] by (rule arg_cong [where f = "image unat"]) auto

lemma hits_False [simp]: "hits rows (\<lambda>_. False) = {}"
  by (simp add: hits_def)

lemma hits_column: "unat ` {n. \<exists>v. column rows f n = Some v \<and> P v} = hits rows (\<lambda>d. \<exists>v. d f = Some v \<and> P v)"
  by (auto simp: hits_def column_def bind_eq_Some_conv)

lemma hits_dom_column: "unat ` dom (column rows f) = hits rows (\<lambda>d. d f \<noteq> None)"
  using hits_column [of rows f "\<lambda>_. True"] by (simp add: dom_def)

lemma index_field: "index_ok T i rows \<Longrightarrow> field_ok T i f (column rows f)"
  by (simp add: index_ok_def)

lemma universe_hits:
  assumes "index_ok T i rows"
  shows "members (universe i) = hits rows (\<lambda>_. True)" and "set_inv (universe i)"
  using assms by (simp_all add: index_ok_def hits_dom)

lemma present_hits:
  assumes "index_ok T i rows"
  shows "omembers (map_of (present i) f) = hits rows (\<lambda>d. d f \<noteq> None)" and "oset_inv (map_of (present i) f)"
  using index_field [OF assms, of f] by (simp_all add: field_ok_def hits_dom_column)

lemma postingSet_hits:
  assumes "index_ok T i rows"
  shows "members (postingSet T i f v) = hits rows (\<lambda>d. \<exists>w. d f = Some w \<and> canonical T w = canonical T v)"
    and "set_inv (postingSet T i f v)"
  using index_field [OF assms, of f] postingSetOf_props [of "get2 (postings i) f (canonical T v)"]
  by (simp_all add: postingSet_def field_ok_def with_key_def hits_column)

lemma scanValues_hits:
  assumes "index_ok T i rows"
  shows "members (scanValues P (fieldValues i f) (newSet b)) = hits rows (\<lambda>d. \<exists>v. d f = Some v \<and> P v)"
    and "set_inv (scanValues P (fieldValues i f) (newSet b))"
proof -
  have d: "distinct (map fst (fieldValues i f))" and "map_of (fieldValues i f) = column rows f"
    using index_field [OF assms, of f] by (simp_all add: field_ok_def fieldValues_def get2_default)
  then have "fst ` {e \<in> set (fieldValues i f). P (snd e)} = {n. \<exists>v. column rows f n = Some v \<and> P v}"
    using map_of_eq_Some_iff [OF d] by (auto simp: image_iff)
  moreover have "scanValues P (fieldValues i f) (newSet b)
      = fold (\<lambda>e r. if P (snd e) then SetAdd r (fst e) else r) (fieldValues i f) (newSet b)"
    by (simp add: scanValues_def case_prod_unfold)
  ultimately show "members (scanValues P (fieldValues i f) (newSet b)) = hits rows (\<lambda>d. \<exists>v. d f = Some v \<and> P v)"
    "set_inv (scanValues P (fieldValues i f) (newSet b))"
    by (simp_all add: members_fold_add hits_column)
qed

lemma unionPostings_hits:
  assumes "index_ok T i rows"
  shows "members (unionPostings T i f vs m)
      = members m \<union> hits rows (\<lambda>d. \<exists>w. d f = Some w \<and> canonical T w \<in> canonical T ` set vs)"
    and "set_inv m \<Longrightarrow> set_inv (unionPostings T i f vs m)"
proof -
  show "members (unionPostings T i f vs m)
      = members m \<union> hits rows (\<lambda>d. \<exists>w. d f = Some w \<and> canonical T w \<in> canonical T ` set vs)"
    unfolding unionPostings_def
  proof (induction vs arbitrary: m)
    case (Cons v vs)
    then show ?case
      by (simp add: set_union_props postingSet_hits [OF assms(1)] Un_assoc hits_Un)
        (rule arg_cong [where f = "\<lambda>P. members m \<union> hits rows P"], auto)
  qed simp
  show "set_inv m \<Longrightarrow> set_inv (unionPostings T i f vs m)"
    unfolding unionPostings_def by (induction vs arbitrary: m) (simp_all add: set_union_props)
qed

lemma numericRange_hits:
  assumes "index_ok T i rows" and "range_op op"
  shows "members (numericRange i f op t)
      = hits rows (\<lambda>d. \<exists>v. d f = Some v \<and> (\<exists>x. number T v = Some x \<and> rangeMatches x op t))"
    and "set_inv (numericRange i f op t)"
proof -
  have n: "onum_ok (map_of (numeric i) f) (numbers_of T (column rows f))"
    using index_field [OF assms(1), of f] by (simp add: field_ok_def)
  show "set_inv (numericRange i f op t)" by (rule numericRange_members [OF n assms(2)])
  show "members (numericRange i f op t)
      = hits rows (\<lambda>d. \<exists>v. d f = Some v \<and> (\<exists>x. number T v = Some x \<and> rangeMatches x op t))"
    unfolding numericRange_members(1) [OF n assms(2)] hits_column [symmetric]
    by (rule arg_cong [where f = "image unat"]) (auto simp: numbers_of_def bind_eq_Some_conv)
qed

lemma compare_number:
  assumes "number T value = Some t" and "range_op op"
  shows "(case compare T v value of None \<Rightarrow> False | Some c \<Rightarrow> compareMatches op c)
    \<longleftrightarrow> (\<exists>x. number T v = Some x \<and> rangeMatches x op t)"
proof (cases "number T v")
  case None
  have "\<not> (\<exists>s. value = VString s)" using assms(1) by (auto simp: number_def)
  then show ?thesis using None by (auto simp: compare_def split: Value.splits)
next
  case (Some x)
  then show ?thesis using assms by (auto simp: compare_def compareMatches_def rangeMatches_def)
qed

text \<open>A result that is the set of the ordinals with a property.\<close>

definition answers :: "(u64 \<Rightarrow> doc option) \<Rightarrow> (doc \<Rightarrow> bool) \<Rightarrow> Set result \<Rightarrow> bool" where
  "answers rows P r \<longleftrightarrow> (\<exists>s. r = Inr s \<and> members s = hits rows P \<and> set_inv s)"

lemma answers_Inr [simp]: "answers rows P (Inr s) \<longleftrightarrow> members s = hits rows P \<and> set_inv s"
  by (simp add: answers_def)

lemma range_answers:
  assumes "index_ok T i rows" and "range_op op"
  shows "answers rows (\<lambda>d. pred_matches T d f op v) (predicate T i f op v)"
proof -
  have P: "pred_matches T d f op v
      \<longleftrightarrow> (\<exists>w. d f = Some w \<and> (case compare T w v of None \<Rightarrow> False | Some c \<Rightarrow> compareMatches op c))" for d
    using assms(2) by (auto simp: pred_matches_def split: option.splits)
  show ?thesis
  proof (cases "number T v")
    case None
    then show ?thesis using assms(2) scanValues_hits [OF assms(1)] by (auto simp: predicate_def P)
  next
    case (Some t)
    then show ?thesis
      using assms(2) numericRange_hits [OF assms, of f t] by (auto simp: predicate_def P compare_number [OF Some assms(2)])
  qed
qed

lemma text_matches:
  "pred_matches T d f OpText (VString s)
    \<longleftrightarrow> (\<exists>v. d f = Some v \<and> (case v of VString text \<Rightarrow> containsWords T text (textWords T s) | _ \<Rightarrow> False))"
proof (cases "d f")
  case (Some v)
  then show ?thesis by (cases v) (auto simp: pred_matches_def containsWords_def list_all_iff)
qed (simp add: pred_matches_def)

lemma predicate_answers:
  assumes "index_ok T i rows" and "pred_typed op v"
  shows "answers rows (\<lambda>d. pred_matches T d f op v) (predicate T i f op v)"
proof -
  note hs = universe_hits [OF assms(1)] present_hits [OF assms(1)] postingSet_hits [OF assms(1)]
    scanValues_hits [OF assms(1)] unionPostings_hits [OF assms(1)] hits_Diff set_difference_props
    set_inv_clone
  show ?thesis
  proof (cases op)
    case OpEq
    then show ?thesis
      by (simp add: predicate_def hs pred_matches_def) (rule arg_cong [where f = "hits rows"], auto split: option.splits)
  next
    case OpNe
    then show ?thesis
      by (simp add: predicate_def hs pred_matches_def) (rule arg_cong [where f = "hits rows"], auto split: option.splits)
  next
    case OpIn
    then obtain vs where "v = VList vs" using assms(2) by (auto simp: pred_typed_def split: Value.splits)
    then show ?thesis using OpIn
      by (simp add: predicate_def hs pred_matches_def) (rule arg_cong [where f = "hits rows"], auto split: option.splits)
  next
    case OpNotIn
    then obtain vs where "v = VList vs" using assms(2) by (auto simp: pred_typed_def split: Value.splits)
    then show ?thesis using OpNotIn
      by (simp add: predicate_def hs pred_matches_def) (rule arg_cong [where f = "hits rows"], auto split: option.splits)
  next
    case OpExists
    then obtain b where "v = VBool b" using assms(2) by (auto simp: pred_typed_def split: Value.splits)
    then show ?thesis using OpExists
      by (cases b) (simp_all add: predicate_def hs pred_matches_def)
  next
    case OpText
    then obtain s where "v = VString s" using assms(2) by (auto simp: pred_typed_def split: Value.splits)
    then show ?thesis using OpText
      by (simp add: predicate_def hs text_matches)
  qed (rule range_answers [OF assms(1)], simp)+
qed

lemma Evaluate_answers:
  assumes "index_ok T i rows"
  shows "wt e \<Longrightarrow> plain e \<Longrightarrow> answers rows (\<lambda>d. matches T d e) (Evaluate T geo i e)"
    and "wt_all cs \<Longrightarrow> plain_all cs \<Longrightarrow> answers rows P (Inr r)
      \<Longrightarrow> answers rows (\<lambda>d. P d \<and> (\<forall>c \<in> set cs. matches T d c)) (evalAnd T geo i cs r)"
    and "wt_all cs \<Longrightarrow> plain_all cs \<Longrightarrow> answers rows P (Inr r)
      \<Longrightarrow> answers rows (\<lambda>d. P d \<or> (\<exists>c \<in> set cs. matches T d c)) (evalOr T geo i cs r)"
  using assms
proof (induction T geo i e and T geo i cs r and T geo i cs r arbitrary: and P and P rule: Evaluate_evalAnd_evalOr.induct)
  case (1 T geo i)
  then show ?case by (simp add: universe_hits set_inv_clone)
next
  case (2 T geo i kind field oper operand children)
  note u = universe_hits [OF 2(6)]
  show ?case
  proof (cases kind)
    case KindPredicate
    then show ?thesis using 2 predicate_answers [of T i rows oper operand field] by simp
  next
    case KindAnd
    then show ?thesis using 2(1) [of "\<lambda>_. True"] 2(4-) u by (simp add: set_inv_clone)
  next
    case KindOr
    then show ?thesis using 2(2) [of "\<lambda>_. False"] 2(4-) by simp
  next
    case KindNot
    then obtain c cs where c: "children = c # cs" using 2(4) by (cases children) auto
    then obtain s where "Evaluate T geo i c = Inr s" "members s = hits rows (\<lambda>d. matches T d c)" "set_inv s"
      using 2(3) [OF KindNot c] KindNot 2(4-) by (auto simp: answers_def)
    then show ?thesis using KindNot c u by (simp add: and_then_def set_difference_props hits_Diff)
  next
    case KindGeo
    then show ?thesis using 2(5) by simp
  qed
next
  case (3 T geo i r)
  then show ?case by simp
next
  case (4 T geo i c cs r)
  then obtain s where s: "Evaluate T geo i c = Inr s" "members s = hits rows (\<lambda>d. matches T d c)"
    by (auto simp: answers_def)
  have "answers rows (\<lambda>d. P d \<and> matches T d c) (Inr (set_intersect (Some r) (Some s)))"
    using 4(5) s by (simp add: hits_Int)
  from 4(2) [OF _ _ this] show ?case using 4(3,4,6) s by (simp add: and_then_def conj_assoc)
next
  case (5 T geo i r)
  then show ?case by simp
next
  case (6 T geo i c cs r)
  then obtain s where s: "Evaluate T geo i c = Inr s" "members s = hits rows (\<lambda>d. matches T d c)"
    by (auto simp: answers_def)
  have "answers rows (\<lambda>d. P d \<or> matches T d c) (Inr (set_union (Some r) (Some s)))"
    using 6(5) s by (simp add: set_union_props hits_Un)
  from 6(2) [OF _ _ this] show ?case using 6(3,4,6) s by (simp add: and_then_def disj_assoc)
qed

end
