(* ===== verification/Meta_Parse.thy ===== *)
theory Meta_Parse
  imports Meta_Eval "HOL-Library.Multiset"
begin

text \<open>
  The filter parser of \<open>internal/metadata/filter.go\<close>, from the decoded JSON object to an expression, and the
  properties of the filter engine as a whole. An error carries the format string of its message.
\<close>

subsection \<open>The parser\<close>

definition invalid :: "string \<Rightarrow> 'a result" where
  "invalid message = Inl (ErrInvalidArgument message)"

definition parseOperator :: "string \<Rightarrow> Operator result" where
  "parseOperator v =
     (if v = ''$eq'' then Inr OpEq else if v = ''$ne'' then Inr OpNe
      else if v = ''$gt'' then Inr OpGT else if v = ''$gte'' then Inr OpGTE
      else if v = ''$lt'' then Inr OpLT else if v = ''$lte'' then Inr OpLTE
      else if v = ''$in'' then Inr OpIn else if v = ''$nin'' then Inr OpNotIn
      else if v = ''$exists'' then Inr OpExists else if v = ''$text'' then Inr OpText
      else invalid ''unknown field operator'')"

definition maxTextQueryBytes :: nat where
  "maxTextQueryBytes = 1024"

definition validOperand :: "text_lib \<Rightarrow> Operator \<Rightarrow> Value \<Rightarrow> unit result" where
  "validOperand T op operand =
     (if op = OpIn \<or> op = OpNotIn then
        (case operand of
           VList items \<Rightarrow>
             if items = [] then invalid ''requires a non-empty array''
             else foldR (\<lambda>item _. validateScalar T item) items ()
         | _ \<Rightarrow> invalid ''requires a non-empty array'')
      else if op = OpExists then
        (case operand of VBool _ \<Rightarrow> Inr () | _ \<Rightarrow> invalid ''$exists requires a boolean'')
      else if op = OpText then
        (case operand of
           VString text \<Rightarrow>
             if textWords T text = [] \<or> length text > maxTextQueryBytes then invalid ''$text requires a string'' else Inr ()
         | _ \<Rightarrow> invalid ''$text requires a string'')
      else validateScalar T operand)"

definition predicateExpr :: "string \<Rightarrow> Operator \<Rightarrow> Value \<Rightarrow> Expr option" where
  "predicateExpr field op value = Some (Expr KindPredicate field op value [])"

definition logicalExpr :: "Kind \<Rightarrow> Expr option list \<Rightarrow> Expr option" where
  "logicalExpr kind children = Some (Expr kind [] OpEq VNil children)"

text \<open>The end of both parsing functions: a single child stands for itself.\<close>

definition joinChildren :: "Expr option list \<Rightarrow> Expr option" where
  "joinChildren children = (case children of [c] \<Rightarrow> c | _ \<Rightarrow> logicalExpr KindAnd children)"

definition parseField :: "text_lib \<Rightarrow> string \<Rightarrow> Value \<Rightarrow> Expr option result" where
  "parseField T field v =
     (case v of
        VObject operators \<Rightarrow>
          if operators = [] then invalid ''field has no operators''
          else
            and_then
              (foldR (\<lambda>(name, operand) children.
                        and_then (parseOperator name) (\<lambda>op.
                        and_then (validOperand T op operand) (\<lambda>_.
                        Inr (children @ [predicateExpr field op operand]))))
                 operators [])
              (\<lambda>children. Inr (joinChildren children))
      | _ \<Rightarrow> and_then (validateScalar T v) (\<lambda>_. Inr (predicateExpr field OpEq v)))"

text \<open>The largest radius is half the circumference, \<open>math.Pi * earthRadiusMeters\<close> rounded to a \<open>float64\<close>.\<close>

definition maxMeters :: f64 where
  "maxMeters = 0x41731680A7129443"

record geo_state =
  gs_geo :: GeoRadius
  haveLat :: bool
  haveLon :: bool
  haveMeters :: bool

definition hasDollar :: "string \<Rightarrow> bool" where
  "hasDollar s = (case s of [] \<Rightarrow> False | c # _ \<Rightarrow> c = CHR ''$'')"

definition parseGeoKey :: "text_lib \<Rightarrow> string \<times> Value \<Rightarrow> geo_state \<Rightarrow> geo_state result" where
  "parseGeoKey T kv g =
     (let (key, raw) = kv in
      if key = ''lat_field'' \<or> key = ''lon_field'' then
        (case raw of
           VString name \<Rightarrow>
             if name = [] \<or> hasDollar name then invalid ''$geo_radius field must be a field name''
             else if key = ''lat_field'' then Inr (g\<lparr>gs_geo := (gs_geo g)\<lparr>LatField := name\<rparr>\<rparr>)
             else Inr (g\<lparr>gs_geo := (gs_geo g)\<lparr>LonField := name\<rparr>\<rparr>)
         | _ \<Rightarrow> invalid ''$geo_radius field must be a field name'')
      else if key = ''lat'' \<or> key = ''lon'' \<or> key = ''meters'' then
        (case number T raw of
           None \<Rightarrow> invalid ''$geo_radius operand must be a finite number''
         | Some x \<Rightarrow>
             if key = ''lat'' then Inr (g\<lparr>gs_geo := (gs_geo g)\<lparr>Lat := x\<rparr>, haveLat := True\<rparr>)
             else if key = ''lon'' then Inr (g\<lparr>gs_geo := (gs_geo g)\<lparr>Lon := x\<rparr>, haveLon := True\<rparr>)
             else Inr (g\<lparr>gs_geo := (gs_geo g)\<lparr>Meters := x\<rparr>, haveMeters := True\<rparr>))
      else invalid ''unknown $geo_radius key'')"

definition validGeo :: "GeoRadius \<Rightarrow> bool" where
  "validGeo g \<longleftrightarrow>
     \<not> (f64_key (Lat g) < f64_key (float64_of_int (-90)) \<or> f64_key (Lat g) > f64_key (float64_of_int 90)
        \<or> f64_key (Lon g) < f64_key (float64_of_int (-180)) \<or> f64_key (Lon g) > f64_key (float64_of_int 180)
        \<or> f64_key (Meters g) \<le> 0 \<or> f64_key (Meters g) > f64_key maxMeters)"

definition parseGeoRadius :: "text_lib \<Rightarrow> Value \<Rightarrow> GeoRadius result" where
  "parseGeoRadius T v =
     (case v of
        VObject object \<Rightarrow>
          and_then
            (foldR (parseGeoKey T) object
               \<lparr>gs_geo = \<lparr>LatField = ''lat'', LonField = ''lon'', Lat = 0, Lon = 0, Meters = 0\<rparr>,
                haveLat = False, haveLon = False, haveMeters = False\<rparr>)
            (\<lambda>g. if \<not> haveLat g \<or> \<not> haveLon g \<or> \<not> haveMeters g then invalid ''$geo_radius requires lat, lon and meters''
                 else if \<not> validGeo (gs_geo g) then invalid ''$geo_radius needs lat in [-90, 90], lon in [-180, 180]''
                 else Inr (gs_geo g))
      | _ \<Rightarrow> invalid ''$geo_radius requires an object'')"

text \<open>
  \<open>Parse\<close> visits the keys in sorted order; \<open>parseKeys\<close> is its loop, \<open>parseItems\<close> the loop over the operands of
  \<open>$and\<close> and \<open>$or\<close>.
\<close>

definition obj_size :: "(string \<times> Value) list \<Rightarrow> nat" where
  "obj_size kvs = (\<Sum>kv \<leftarrow> kvs. Suc (size (snd kv)))"

lemma obj_size_le: "obj_size kvs \<le> size_list (size_prod (\<lambda>_. 0) size) kvs"
  by (induction kvs) (auto simp: obj_size_def)

lemma obj_size_sort [simp]: "obj_size (sort_key f kvs) = obj_size kvs"
proof -
  have "mset (map (\<lambda>kv. Suc (size (snd kv))) (sort_key f kvs)) = mset (map (\<lambda>kv. Suc (size (snd kv))) kvs)"
    by simp
  then show ?thesis unfolding obj_size_def by (metis sum_mset_sum_list)
qed

lemma obj_size_Cons [simp]: "obj_size ((k, v) # kvs) = Suc (size v + obj_size kvs)"
  by (simp add: obj_size_def)

function (sequential) Parse :: "text_lib \<Rightarrow> (string \<times> Value) list \<Rightarrow> Expr option result"
  and parseKeys :: "text_lib \<Rightarrow> (string \<times> Value) list \<Rightarrow> Expr option list \<Rightarrow> Expr option result"
  and parseItems :: "text_lib \<Rightarrow> Value list \<Rightarrow> Expr option list result" where
  "Parse T raw = (if raw = [] then Inr None else parseKeys T (sort_key fst raw) [])"
| "parseKeys T [] children = Inr (joinChildren children)"
| "parseKeys T ((key, v) # rest) children =
     (if key = ''$and'' \<or> key = ''$or'' then
        (case v of
           VList items \<Rightarrow>
             if items = [] then invalid ''requires a non-empty array''
             else
               and_then (parseItems T items) (\<lambda>cs.
               parseKeys T rest (children @ [logicalExpr (if key = ''$or'' then KindOr else KindAnd) cs]))
         | _ \<Rightarrow> invalid ''requires a non-empty array'')
      else if key = ''$geo_radius'' then
        and_then (parseGeoRadius T v) (\<lambda>g.
        parseKeys T rest (children @ [Some (Expr KindGeo [] OpEq (VGeo g) [])]))
      else if key = ''$not'' then
        (case v of
           VObject obj \<Rightarrow>
             and_then (Parse T obj) (\<lambda>c. parseKeys T rest (children @ [logicalExpr KindNot [c]]))
         | _ \<Rightarrow> invalid ''$not requires an object'')
      else if hasDollar key \<or> key = [] then invalid ''unknown filter operator''
      else and_then (parseField T key v) (\<lambda>c. parseKeys T rest (children @ [c])))"
| "parseItems T [] = Inr []"
| "parseItems T (VObject obj # items) =
     and_then (Parse T obj) (\<lambda>c. and_then (parseItems T items) (\<lambda>cs. Inr (c # cs)))"
| "parseItems T (_ # items) = invalid ''entries must be objects''"
  by pat_completeness auto
termination
  by (relation "measure (\<lambda>x. case x of
    Inl (T, raw) \<Rightarrow> Suc (obj_size raw)
  | Inr (Inl (T, kvs, cs)) \<Rightarrow> obj_size kvs
  | Inr (Inr (T, items)) \<Rightarrow> size_list size items)")
  (auto simp: less_Suc_eq_le intro!: le_SucI trans_le_add1 obj_size_le)

subsection \<open>Parsed filters are well typed\<close>

lemma wt_all_iff: "wt_all cs \<longleftrightarrow> (\<forall>c \<in> set cs. wt c)"
  by (induction cs) auto

lemma wt_joinChildren: "wt_all cs \<Longrightarrow> wt (joinChildren cs)"
  by (auto simp: joinChildren_def logicalExpr_def split: list.splits)

lemma validOperand_typed: "validOperand T op v = Inr () \<Longrightarrow> pred_typed op v"
  by (cases op; cases v) (simp_all add: validOperand_def pred_typed_def invalid_def)

lemma parseField_wt:
  assumes "parseField T f v = Inr e"
  shows "wt e"
proof (cases "\<exists>ops. v = VObject ops")
  case False
  then have "e = predicateExpr f OpEq v"
    using assms by (cases v) (auto simp: parseField_def and_then_Inr_iff)
  then show ?thesis by (simp add: predicateExpr_def pred_typed_def)
next
  case True
  then obtain ops where v: "v = VObject ops" by blast
  let ?step = "\<lambda>(name, operand) children. and_then (parseOperator name) (\<lambda>op.
      and_then (validOperand T op operand) (\<lambda>_. Inr (children @ [predicateExpr f op operand])))"
  obtain cs where cs: "foldR ?step ops [] = Inr cs" "e = joinChildren cs"
    using assms v by (auto simp: parseField_def and_then_Inr_iff invalid_def split: if_splits)
  have "wt_all cs"
    by (rule foldR_inv [OF cs(1)])
      (auto simp: and_then_Inr_iff wt_all_iff predicateExpr_def dest!: validOperand_typed)
  then show ?thesis using cs(2) by (simp add: wt_joinChildren)
qed

lemma Parse_wt:
  "Parse T raw = Inr e \<Longrightarrow> wt e"
  "parseKeys T kvs cs = Inr e \<Longrightarrow> wt_all cs \<Longrightarrow> wt e"
  "parseItems T items = Inr es \<Longrightarrow> wt_all es"
proof (induction T raw and T kvs cs and T items arbitrary: e and e and es rule: Parse_parseKeys_parseItems.induct)
  case (1 T raw)
  then show ?case by (auto split: if_splits)
next
  case (2 T children)
  then show ?case by (auto simp: wt_joinChildren)
next
  case (3 T key v rest children)
  note ih = 3(1-6) and prems = 3(7,8)
  have add: "wt_all (children @ [c])" if "wt c" for c using that prems(2) by (simp add: wt_all_iff)
  consider (logic) "key = ''$and'' \<or> key = ''$or''" | (geo) "key = ''$geo_radius''" | (not) "key = ''$not''"
    | (field) "\<not> (key = ''$and'' \<or> key = ''$or'')" "key \<noteq> ''$geo_radius''" "key \<noteq> ''$not''"
    by blast
  then show ?case
  proof cases
    case logic
    then obtain items cs where v: "v = VList items" "items \<noteq> []" "parseItems T items = Inr cs"
      "parseKeys T rest (children @ [logicalExpr (if key = ''$or'' then KindOr else KindAnd) cs]) = Inr e"
      using prems(1) by (cases v) (auto simp: and_then_Inr_iff invalid_def split: if_splits)
    have "wt (logicalExpr (if key = ''$or'' then KindOr else KindAnd) cs)"
      using ih(1) [OF logic v(1,2,3)] by (simp add: logicalExpr_def)
    then show ?thesis using ih(2) [OF logic v(1,2,4)] add by blast
  next
    case geo
    then obtain g where g: "parseKeys T rest (children @ [Some (Expr KindGeo [] OpEq (VGeo g) [])]) = Inr e"
      using prems(1) by (auto simp: and_then_Inr_iff)
    show ?thesis by (rule ih(3) [OF _ _ g add]) (simp_all add: geo)
  next
    case not
    then obtain obj c where v: "v = VObject obj" "Parse T obj = Inr c"
      "parseKeys T rest (children @ [logicalExpr KindNot [c]]) = Inr e"
      using prems(1) by (cases v) (auto simp: and_then_Inr_iff invalid_def)
    show ?thesis by (rule ih(5) [OF _ _ _ v(1,3) add])
        (use not ih(4) [OF _ _ _ v(1,2)] in \<open>simp_all add: logicalExpr_def\<close>)
  next
    case field
    then obtain c where c: "parseField T key v = Inr c" "\<not> (hasDollar key \<or> key = [])"
      "parseKeys T rest (children @ [c]) = Inr e"
      using prems(1) by (auto simp: and_then_Inr_iff invalid_def split: if_splits)
    show ?thesis by (rule ih(6) [OF field c(2,3) add]) (rule parseField_wt [OF c(1)])
  qed
next
  case (5 T obj items)
  then show ?case by (auto simp: and_then_Inr_iff)
qed (auto simp: invalid_def)

lemma Evaluate_total:
  "wt e \<Longrightarrow> \<exists>s. Evaluate T geo i e = Inr s"
  "wt_all cs \<Longrightarrow> \<exists>s. evalAnd T geo i cs r = Inr s"
  "wt_all cs \<Longrightarrow> \<exists>s. evalOr T geo i cs r = Inr s"
proof (induction T geo i e and T geo i cs r and T geo i cs r rule: Evaluate_evalAnd_evalOr.induct)
  case (2 T geo i kind field oper operand children)
  show ?case
  proof (cases kind)
    case KindPredicate
    then have "pred_typed oper operand" using 2(4) by simp
    then have "\<exists>s. predicate T i field oper operand = Inr s"
      by (cases oper) (auto simp: predicate_def pred_typed_def Let_def split: Value.splits option.splits)
    then show ?thesis using KindPredicate by simp
  next
    case KindNot
    then obtain c cs where "children = c # cs" using 2(4) by (cases children) auto
    then show ?thesis using 2(3,4) KindNot by (auto simp: and_then_def)
  qed (use 2 in \<open>auto split: Value.splits\<close>)
qed (auto simp: and_then_def)

subsection \<open>The index as a table of records\<close>



text \<open>A history of updates: an ordinal with its new metadata, or with \<open>None\<close> for a deletion.\<close>

type_synonym history = "(u64 \<times> (string \<times> Value) list option) list"



definition proper :: "history \<Rightarrow> bool" where
  "proper ops \<longleftrightarrow> list_all (\<lambda>(n, om). case om of None \<Rightarrow> True | Some md \<Rightarrow> distinct (map fst md)) ops"



subsection \<open>A concrete index\<close>

definition sample_text :: text_lib where
  "sample_text = \<lparr>FormatFloat64 = (\<lambda>_. ''0''), FormatFloat32 = (\<lambda>_. ''0''), ParseFloat = (\<lambda>_. None),
    Sprint = (\<lambda>_. []), textWords = (\<lambda>s. [s])\<rparr>"

definition sample_history :: history where
  "sample_history =
     [(1, Some [(''price'', VSigned 5)]), (2, Some [(''price'', VSigned 7), (''tag'', VString ''old'')]),
      (3, Some [(''price'', VSigned 9)]), (3, None), (4, Some [(''price'', VSigned 2)])]"

text \<open>\<open>{"price": {"$gte": 3}, "$not": {"tag": "old"}}\<close>\<close>

definition sample_filter :: "(string \<times> Value) list" where
  "sample_filter = [(''price'', VObject [(''$gte'', VSigned 3)]), (''$not'', VObject [(''tag'', VString ''old'')])]"

definition sample_expr :: "Expr option" where
  "sample_expr = logicalExpr KindAnd
     [logicalExpr KindNot [predicateExpr ''tag'' OpEq (VString ''old'')], predicateExpr ''price'' OpGTE (VSigned 3)]"

lemma sample_parse: "Parse sample_text sample_filter = Inr sample_expr" "plain sample_expr" "proper sample_history"
  by code_simp+





text \<open>
  C30: The parser only produces well-typed filters: every operand has the type the evaluator asserts, every
  negation has a child, also under nesting. Evaluating a parsed filter on any index therefore always
  returns a set and never panics on a failed type assertion or a missing child.
\<close>

theorem parsed_filter_never_panics:
  assumes "Parse T raw = Inr e"
  shows "wt e \<and> (\<exists>s. Evaluate T geo i e = Inr s)"
  using Parse_wt(1) [OF assms] Evaluate_total(1) by blast

theorem parsed_filter_never_panics_witness:
  "wt sample_expr \<and> (\<exists>s. Evaluate sample_text (\<lambda>_ _. newSet 0) NewIndex sample_expr = Inr s)"
  by (rule parsed_filter_never_panics [OF sample_parse(1)])

end
