(* ===== verification/Meta_Persist.thy ===== *)
theory Meta_Persist
  imports Meta_Parse
begin

text \<open>
  The persisted form of the metadata index, \<open>internal/metadata/persistence.go\<close>: writing an index field by field and loading it again
  with all its checks. The JSON text between the two is represented by the structure it encodes; what
  decoding makes of a value is the argument \<open>js\<close>.
\<close>

subsection \<open>Structure\<close>

record persistedField =
  pf_Name :: string
  pf_Values :: "(u64 \<times> Value) list"
  pf_Postings :: "(string \<times> u64 list) list"
  pf_Numbers :: "(u64 \<times> f64) list"

record persistedIndex =
  pi_Version :: int
  pi_RecordCount :: u64
  pi_Fields :: "persistedField list"

subsection \<open>Writing\<close>

definition setIDs :: "Set \<Rightarrow> u64 list" where
  "setIDs s = concat (map (\<lambda>w. map (\<lambda>b. of_nat (w * 64 + b)) (filter (bit (words s ! w)) [0..<64])) [0..<length (words s)])"

definition persistField :: "Index \<Rightarrow> u64 \<Rightarrow> string \<Rightarrow> persistedField" where
  "persistField i recordCount field =
     \<lparr>pf_Name = field,
      pf_Values = sort_key fst (fieldValues i field),
      pf_Postings = map (\<lambda>(key, p). (key, setIDs (postingSetOf (Some p) recordCount)))
        (sort_key fst (case map_of (postings i) field of None \<Rightarrow> [] | Some ps \<Rightarrow> ps)),
      pf_Numbers = (case map_of (numeric i) field of None \<Rightarrow> [] | Some n \<Rightarrow> sort_key (\<lambda>(n, x). f64_key x) (sort_key fst (current n)))\<rparr>"

definition MarshalBinary :: "Index \<Rightarrow> u64 \<Rightarrow> persistedIndex result" where
  "MarshalBinary i recordCount =
     (if SetLen (Some (universe i)) \<noteq> int (unat recordCount) then Inl (ErrMsg ''metadata index record count mismatch'')
      else Inr \<lparr>pi_Version = 1, pi_RecordCount = recordCount,
                pi_Fields = map (persistField i recordCount) (sort (map fst (values i)))\<rparr>)"

definition indexRecords :: "text_lib \<Rightarrow> (string \<times> Value) list list \<Rightarrow> Index" where
  "indexRecords T mds = fold (\<lambda>(p, md) i. Upsert T i (of_nat (Suc p)) md) (enumerate 0 mds) NewIndex"

definition MarshalRecords :: "text_lib \<Rightarrow> (string \<times> Value) list list \<Rightarrow> persistedIndex result" where
  "MarshalRecords T mds = MarshalBinary (indexRecords T mds) (of_nat (length mds))"

subsection \<open>Loading\<close>

definition loadValues :: "text_lib \<Rightarrow> u64 \<Rightarrow> (u64 \<times> Value) list \<Rightarrow> ((u64 \<times> Value) list \<times> Set) result" where
  "loadValues T recordCount items =
     foldR (\<lambda>(n, v) (vs, present).
         if n = 0 \<or> n > recordCount \<or> validateScalar T v \<noteq> Inr () then Inl (ErrMsg ''metadata index contains invalid value ordinal'')
         else if map_of vs n \<noteq> None then Inl (ErrMsg ''metadata index contains duplicate value ordinal'')
         else Inr (AList.update n v vs, SetAdd present n))
       items ([], newSet recordCount)"

definition loadIDs :: "text_lib \<Rightarrow> (u64 \<times> Value) list \<Rightarrow> string \<Rightarrow> u64 list \<Rightarrow> posting \<times> u64 list \<Rightarrow> (posting \<times> u64 list) result" where
  "loadIDs T vs key ids =
     foldR (\<lambda>n (p, covered).
         case map_of vs n of
           None \<Rightarrow> Inl (ErrMsg ''metadata posting does not match value'')
         | Some v \<Rightarrow>
             if canonical T v \<noteq> key then Inl (ErrMsg ''metadata posting does not match value'')
             else if n \<in> set covered then Inl (ErrMsg ''metadata ordinal occurs in multiple postings'')
             else Inr (postingAdd p n, n # covered))
       ids"

definition loadPostings ::
    "text_lib \<Rightarrow> (u64 \<times> Value) list \<Rightarrow> (string \<times> u64 list) list \<Rightarrow> ((string \<times> posting) list \<times> u64 list) result" where
  "loadPostings T vs items =
     foldR (\<lambda>(key, ids) (ps, covered).
         if key = [] \<or> map_of ps key \<noteq> None then Inl (ErrMsg ''metadata index contains invalid posting'')
         else and_then (loadIDs T vs key ids (emptyPosting, covered)) (\<lambda>(p, covered'). Inr (AList.update key p ps, covered')))
       items ([], [])"

definition loadNumbers :: "text_lib \<Rightarrow> u64 \<Rightarrow> (u64 \<times> Value) list \<Rightarrow> (u64 \<times> f64) list \<Rightarrow> numericField result" where
  "loadNumbers T recordCount vs items =
     foldR (\<lambda>(n, x) nf.
         case Option.bind (map_of vs n) (number T) of
           None \<Rightarrow> Inl (ErrMsg ''metadata numeric index does not match value'')
         | Some y \<Rightarrow>
             if f64_key y \<noteq> f64_key x then Inl (ErrMsg ''metadata numeric index does not match value'')
             else if map_of (current nf) n \<noteq> None then Inl (ErrMsg ''metadata numeric index contains duplicate ordinal'')
             else Inr (nf\<lparr>current := AList.update n x (current nf), base := base nf @ [\<lparr>ne_value = x, ne_id = n\<rparr>]\<rparr>))
       items \<lparr>base = [], delta = [], current = [], invalidBase = newSet recordCount, stale = 0\<rparr>"

definition loadField :: "text_lib \<Rightarrow> u64 \<Rightarrow> persistedField \<Rightarrow> Index \<times> string list \<Rightarrow> (Index \<times> string list) result" where
  "loadField T recordCount f st =
     (let (i, seen) = st in
      if pf_Name f = [] then Inl (ErrMsg ''metadata index contains empty field'')
      else if pf_Name f \<in> set seen then Inl (ErrMsg ''metadata index contains duplicate field'')
      else
        and_then (loadValues T recordCount (pf_Values f)) (\<lambda>(vs, present1).
        and_then (loadPostings T vs (pf_Postings f)) (\<lambda>(ps, covered).
        if length covered \<noteq> length vs then Inl (ErrMsg ''metadata postings do not cover field values'')
        else
          and_then (loadNumbers T recordCount vs (pf_Numbers f)) (\<lambda>nf.
          if length (filter (\<lambda>(n, v). number T v \<noteq> None) vs) \<noteq> length (pf_Numbers f)
          then Inl (ErrMsg ''metadata numeric index does not cover numeric values'')
          else Inr (i\<lparr>values := AList.update (pf_Name f) vs (values i), present := AList.update (pf_Name f) present1 (present i),
                     postings := AList.update (pf_Name f) ps (postings i),
                     numeric := if pf_Numbers f = [] then numeric i else AList.update (pf_Name f) nf (numeric i)\<rparr>,
                    pf_Name f # seen)))))"

definition jsonField :: "(Value \<Rightarrow> Value) \<Rightarrow> persistedField \<Rightarrow> persistedField" where
  "jsonField js f = f\<lparr>pf_Values := map (\<lambda>(n, v). (n, js v)) (pf_Values f)\<rparr>"

definition LoadBinary :: "text_lib \<Rightarrow> (Value \<Rightarrow> Value) \<Rightarrow> persistedIndex \<Rightarrow> u64 \<Rightarrow> Index result" where
  "LoadBinary T js snapshot recordCount =
     (if pi_Version snapshot \<noteq> 1 \<or> pi_RecordCount snapshot \<noteq> recordCount
      then Inl (ErrMsg ''metadata index version or record count mismatch'')
      else
        let u = fold (\<lambda>p s. SetAdd s (of_nat (Suc p))) [0..<unat recordCount] (newSet 0) in
        and_then (foldR (\<lambda>f st. loadField T recordCount (jsonField js f) st) (pi_Fields snapshot) (NewIndex\<lparr>universe := u\<rparr>, []))
          (\<lambda>(i, seen). Inr i))"

subsection \<open>Ordinals of a bitmap\<close>



subsection \<open>What was written loads\<close>






subsection \<open>One field read back\<close>



text \<open>
  What the index keeps of its maps beyond their contents: a field is a key of the value table once,
  its posting table has every canonical key once, and no canonical key is empty.
\<close>

definition keys_ok :: "Index \<Rightarrow> bool" where
  "keys_ok i \<longleftrightarrow> distinct (map fst (values i))
     \<and> (\<forall>f ps. map_of (postings i) f = Some ps \<longrightarrow> distinct (map fst ps) \<and> [] \<notin> fst ` set ps)"









subsection \<open>The whole index read back\<close>



lemma universe_count:
  assumes "index_ok T i rows" and "dom rows = {n. n \<noteq> 0 \<and> n \<le> N}"
  shows "SetLen (Some (universe i)) = int (unat N)"
proof -
  have "unat ` {n. n \<noteq> 0 \<and> n \<le> N} = {1..unat N}"
  proof (intro set_eqI iffI)
    fix k assume k: "k \<in> {1..unat N}"
    then have "unat (of_nat k :: u64) = k" using unsigned_less [of N, where 'a = nat] by (simp add: unat_of_nat_small)
    then show "k \<in> unat ` {n. n \<noteq> 0 \<and> n \<le> N}" using k by (intro image_eqI [of _ _ "of_nat k"]) (auto simp: word_le_nat_alt)
  qed (auto simp: word_le_nat_alt Suc_le_eq unat_gt_0)
  then show ?thesis using assms by (simp add: index_ok_def SetLen_def set_inv_def)
qed


subsection \<open>Updates keep the keys of the index\<close>

lemma canonical_nonempty: "canonical T v \<noteq> []"
  by (auto simp: canonical_def split: Value.splits option.splits)

lemma keys_ok_put:
  assumes "keys_ok i" and "values j = AList.update f vs (values i)" and "postings j = AList.update f (AList.update (canonical T v) p ps) (postings i)"
    and "ps = (case map_of (postings i) f of None \<Rightarrow> [] | Some ps \<Rightarrow> ps)"
  shows "keys_ok j"
proof -
  have "distinct (map fst ps) \<and> [] \<notin> fst ` set ps" using assms(1,4) by (cases "map_of (postings i) f") (simp_all add: keys_ok_def)
  moreover have "distinct (map fst (values j))" using assms(1,2) by (simp add: keys_ok_def distinct_update)
  ultimately show ?thesis using assms(1,3) canonical_nonempty [of T v, symmetric]
    by (simp add: keys_ok_def distinct_update update_conv' dom_update)
qed

lemma keys_ok_cong: "map fst (values j) = map fst (values i) \<Longrightarrow> postings j = postings i \<Longrightarrow> keys_ok j = keys_ok i"
  by (simp add: keys_ok_def)

lemma keys_ok_upsertField:
  assumes "keys_ok i"
  shows "keys_ok (upsertField T n (f, v) i)"
proof (cases "validateScalar T v = Inr ()")
  case True
  let ?ps = "case map_of (postings i) f of None \<Rightarrow> [] | Some ps \<Rightarrow> ps"
  have "values (upsertField T n (f, v) i) = AList.update f (AList.update n v (fieldValues i f)) (values i)"
    by (cases "number T v") (simp_all add: upsertField_def Let_def True)
  moreover have "postings (upsertField T n (f, v) i) = AList.update f (AList.update (canonical T v)
      (postingAdd (case map_of ?ps (canonical T v) of None \<Rightarrow> emptyPosting | Some p \<Rightarrow> p) n) ?ps) (postings i)"
    by (cases "number T v") (simp_all add: upsertField_def Let_def True)
  ultimately show ?thesis by (rule keys_ok_put [OF assms _ _ refl])
qed (simp add: upsertField_def assms)

lemma keys_ok_deleteField:
  assumes "keys_ok i"
  shows "keys_ok (deleteField T n f i)"
proof (cases "map_of (values i) f")
  case (Some vs)
  show ?thesis
  proof (cases "map_of vs n")
    case (Some v)
    define j where "j = deleteField T n f i"
    have j: "values j = AList.update f (AList.delete n vs) (values i)"
      using Some \<open>map_of (values i) f = Some vs\<close> by (simp add: j_def deleteField_def Let_def split: option.split)
    show ?thesis
    proof (cases "Option.bind (map_of (postings i) f) (\<lambda>ps. map_of ps (canonical T v))")
      case None
      then have "postings j = postings i"
        using Some \<open>map_of (values i) f = Some vs\<close> by (auto simp: j_def deleteField_def Let_def split: option.split)
      then show ?thesis using assms j by (simp add: j_def [symmetric] keys_ok_def distinct_update)
    next
      case p: (Some p)
      then obtain ps where ps: "map_of (postings i) f = Some ps" "map_of ps (canonical T v) = Some p" by (auto split: bind_splits)
      then have "postings j = AList.update f (AList.update (canonical T v) (postingRemove p n) ps) (postings i)"
        using Some \<open>map_of (values i) f = Some vs\<close> by (simp add: j_def deleteField_def Let_def split: option.split)
      then show ?thesis using keys_ok_put [OF assms j] ps(1) by (simp add: j_def)
    qed
  qed (simp add: deleteField_def assms \<open>map_of (values i) f = Some vs\<close>)
qed (simp add: deleteField_def assms)

lemma keys_ok_Upsert: "keys_ok i \<Longrightarrow> keys_ok (Upsert T i n md)"
proof -
  assume i: "keys_ok i"
  have d: "keys_ok (fold (deleteField T n) fs j)" if "keys_ok j" for fs j
    using that by (induction fs arbitrary: j) (simp_all add: keys_ok_deleteField)
  have u: "keys_ok (fold (upsertField T n) md j)" if "keys_ok j" for md j
    using that by (induction md arbitrary: j) (auto simp: keys_ok_upsertField)
  have c: "keys_ok (j\<lparr>universe := s\<rparr>) = keys_ok j" for j s by (rule keys_ok_cong) simp_all
  show ?thesis unfolding Upsert_def Delete_def Let_def by (simp add: u d c i)
qed

lemma fields_upsertField: "fst ` set (values (upsertField T n (f, v) i)) \<subseteq> insert f (fst ` set (values i))"
  by (cases "number T v") (auto simp: upsertField_def Let_def dom_update)

lemma fields_deleteField: "fst ` set (values (deleteField T n f i)) = fst ` set (values i)"
  by (auto simp: deleteField_def Let_def dom_update dest: map_of_SomeD split: option.splits intro: rev_image_eqI)

lemma fields_Upsert: "fst ` set (values (Upsert T i n md)) \<subseteq> fst ` set md \<union> fst ` set (values i)"
proof -
  have d: "fst ` set (values (fold (deleteField T n) fs j)) = fst ` set (values j)" for fs j
    by (induction fs arbitrary: j) (simp_all add: fields_deleteField)
  have "fst ` set (values (fold (upsertField T n) md j)) \<subseteq> fst ` set md \<union> fst ` set (values j)" for j
  proof (induction md arbitrary: j)
    case (Cons a md)
    have "fst ` set (values (upsertField T n a j)) \<subseteq> insert (fst a) (fst ` set (values j))"
      using fields_upsertField [of T n "fst a" "snd a" j] by simp
    then show ?case using Cons.IH [of "upsertField T n a j"] unfolding fold.simps o_apply list.set image_insert by blast
  qed simp
  from this [of "Delete T i n\<lparr>universe := SetAdd (universe (Delete T i n)) n\<rparr>"] show ?thesis
    by (simp add: Upsert_def Let_def Delete_def d)
qed

subsection \<open>Indexing a list of records\<close>

definition rowsOf :: "text_lib \<Rightarrow> (string \<times> Value) list list \<Rightarrow> u64 \<Rightarrow> doc option" where
  "rowsOf T mds n = (if n = 0 \<or> length mds < unat n then None else Some (doc_of T (mds ! (unat n - 1))))"

lemma rowsOf_snoc:
  assumes "Suc (length mds) < 2 ^ 64"
  shows "rowsOf T (mds @ [md]) = (rowsOf T mds)(of_nat (Suc (length mds)) \<mapsto> doc_of T md)"
proof
  fix n :: u64
  have last: "n = of_nat (Suc (length mds)) \<longleftrightarrow> unat n = Suc (length mds)"
    using assms by (auto simp: unat_of_nat_small word_unat_eq_iff simp del: of_nat_Suc)
  show "rowsOf T (mds @ [md]) n = ((rowsOf T mds)(of_nat (Suc (length mds)) \<mapsto> doc_of T md)) n"
  proof (cases "n = 0")
    case False
    then have "0 < unat n" by (simp add: unat_gt_0)
    then show ?thesis unfolding fun_upd_apply last by (auto simp: rowsOf_def nth_append)
  qed (use last in \<open>simp add: rowsOf_def del: of_nat_Suc\<close>)
qed

lemma indexRecords_ok:
  assumes "length mds < 2 ^ 64" and "list_all (\<lambda>md. distinct (map fst md)) mds"
  shows "index_ok T (indexRecords T mds) (rowsOf T mds) \<and> keys_ok (indexRecords T mds)
    \<and> fst ` set (values (indexRecords T mds)) \<subseteq> (\<Union>md \<in> set mds. fst ` set md)"
  using assms
proof (induction mds rule: rev_induct)
  case Nil
  have "rowsOf T [] = (\<lambda>_. None)" by (simp add: rowsOf_def fun_eq_iff unat_gt_0)
  then show ?case using NewIndex_ok [of T] by (simp add: indexRecords_def keys_ok_def NewIndex_def)
next
  case (snoc md mds)
  let ?i = "indexRecords T mds"
  have step: "indexRecords T (mds @ [md]) = Upsert T ?i (of_nat (Suc (length mds))) md"
    by (simp add: indexRecords_def enumerate_append_eq)
  have IH: "index_ok T ?i (rowsOf T mds)" "keys_ok ?i" "fst ` set (values ?i) \<subseteq> (\<Union>md \<in> set mds. fst ` set md)"
    using snoc by auto
  have "index_ok T (Upsert T ?i (of_nat (Suc (length mds))) md) (rowsOf T (mds @ [md]))"
    using Upsert_ok [OF IH(1)] snoc.prems rowsOf_snoc [of mds T md] by (simp del: of_nat_Suc)
  moreover have "fst ` set (values (Upsert T ?i (of_nat (Suc (length mds))) md)) \<subseteq> (\<Union>md \<in> set (mds @ [md]). fst ` set md)"
    using fields_Upsert [of T ?i "of_nat (Suc (length mds))" md] IH(3) unfolding set_append UN_Un list.set UN_insert UN_empty by blast
  ultimately show ?case unfolding step using keys_ok_Upsert [OF IH(2)] by blast
qed

lemma dom_rowsOf:
  assumes "length mds < 2 ^ 64"
  shows "dom (rowsOf T mds) = {n. n \<noteq> 0 \<and> n \<le> of_nat (length mds)}"
  using assms by (auto simp: rowsOf_def word_le_nat_alt unat_of_nat_small split: if_splits)










subsection \<open>An empty metadata key\<close>

lemma hd_sorted_Nil: "sorted fs \<Longrightarrow> [] \<in> set fs \<Longrightarrow> \<exists>gs. fs = [] # gs" for fs :: "string list"
  by (cases fs) (auto simp: order_antisym)

text \<open>
  C34: A record with an empty metadata key makes a checkpoint unreadable. The index of the records is
  written without complaint, since the writer has no check for field names, but \<open>LoadBinary\<close> refuses what
  was written; upserting such a record is not refused anywhere.
\<close>

theorem empty_metadata_key_unloadable:
  assumes "length mds < 2 ^ 64" and "list_all (\<lambda>md. distinct (map fst md)) mds"
    and "md \<in> set mds" and "map_of md [] = Some v" and "validateScalar T v = Inr ()"
  shows "\<exists>snapshot. MarshalRecords T mds = Inr snapshot
    \<and> LoadBinary T js snapshot (of_nat (length mds)) = Inl (ErrMsg ''metadata index contains empty field'')"
proof -
  let ?i = "indexRecords T mds" and ?N = "of_nat (length mds) :: u64"
  have ok: "index_ok T ?i (rowsOf T mds)" using indexRecords_ok [OF assms(1,2)] by blast
  obtain p where p: "p < length mds" "mds ! p = md" using assms(3) by (auto simp: in_set_conv_nth)
  then have "unat (of_nat (Suc p) :: u64) = Suc p" using assms(1) by (simp add: unat_of_nat_small del: of_nat_Suc)
  then have "rowsOf T mds (of_nat (Suc p)) = Some (doc_of T md)" using p by (auto simp: rowsOf_def simp del: of_nat_Suc)
  then have "column (rowsOf T mds) [] (of_nat (Suc p)) = Some v" using assms(4,5) by (simp add: column_def doc_of_def)
  then have "get2 (values ?i) [] (of_nat (Suc p)) = Some v" using ok by (simp add: index_ok_def field_ok_def)
  then have "[] \<in> set (sort (map fst (values ?i)))" by (auto simp: get2_def split: bind_splits dest!: map_of_SomeD intro: rev_image_eqI)
  then obtain gs where gs: "sort (map fst (values ?i)) = [] # gs" using hd_sorted_Nil [of "sort (map fst (values ?i))"] by auto
  have "SetLen (Some (universe ?i)) = int (unat ?N)" by (rule universe_count [OF ok dom_rowsOf [OF assms(1)]])
  then have M: "MarshalRecords T mds = Inr \<lparr>pi_Version = 1, pi_RecordCount = ?N, pi_Fields = map (persistField ?i ?N) ([] # gs)\<rparr>"
    by (simp add: MarshalRecords_def MarshalBinary_def gs)
  show ?thesis unfolding M by (simp add: LoadBinary_def loadField_def persistField_def jsonField_def Let_def)
qed

theorem empty_metadata_key_unloadable_witness:
  "\<exists>snapshot. MarshalRecords sample_text [[([], VString ''a'')]] = Inr snapshot
    \<and> LoadBinary sample_text id snapshot 1 = Inl (ErrMsg ''metadata index contains empty field'')"
  using empty_metadata_key_unloadable [of "[[([], VString ''a'')]]" "[([], VString ''a'')]" "VString ''a''" sample_text id]
  by (simp add: validateScalar_def)

end
