(* ===== verification/Half_Float.thy ===== *)
theory Half_Float
  imports Meta_Value
begin

text \<open>
  The half-precision conversions of \<open>internal/core/vectors.go\<close>, on the bit patterns of the numbers, with
  the round trips that make rounding to a storage type idempotent.
\<close>

type_synonym f32 = u32

definition f32_finite :: "f32 \<Rightarrow> bool" where
  "f32_finite x \<longleftrightarrow> take_bit 8 (drop_bit 23 x) \<noteq> 255"

subsection \<open>bfloat16\<close>

definition Float32ToBFloat16 :: "f32 \<Rightarrow> u16" where
  "Float32ToBFloat16 bits =
     (if take_bit 31 bits > 0x7F800000 then ucast (drop_bit 16 bits) OR 0x40
      else ucast (drop_bit 16 (bits + (0x7FFF + take_bit 1 (drop_bit 16 bits)))))"

definition BFloat16ToFloat32 :: "u16 \<Rightarrow> f32" where
  "BFloat16ToFloat32 h = push_bit 16 (ucast h)"

subsection \<open>float16\<close>

text \<open>The \<open>int32\<close> exponent stays far from the limits of its type.\<close>

definition Float32ToFloat16 :: "f32 \<Rightarrow> u16" where
  "Float32ToFloat16 bits =
     (let sign = (ucast (drop_bit 16 bits) AND 0x8000 :: u16);
          exponent = uint (take_bit 8 (drop_bit 23 bits)) - 127 + 15;
          mantissa = take_bit 23 bits in
      if take_bit 31 bits > 0x7F800000 then sign OR 0x7E00
      else if exponent \<ge> 0x1F then sign OR 0x7C00
      else if exponent \<le> 0 then
        if exponent < - 10 then sign
        else
          let mantissa' = mantissa OR 0x800000;
              shift = nat (14 - exponent);
              half = drop_bit shift mantissa';
              remainder = take_bit shift mantissa';
              midpoint = push_bit (shift - 1) 1 in
          sign OR ucast (if remainder > midpoint \<or> remainder = midpoint \<and> bit half 0 then half + 1 else half)
      else
        let half = push_bit 10 (word_of_int exponent) OR drop_bit 13 mantissa;
            remainder = take_bit 13 mantissa in
        sign OR ucast (if remainder > 0x1000 \<or> remainder = 0x1000 \<and> bit half 0 then half + 1 else half))"

text \<open>
  \<open>float32(mantissa) / (1 << 24)\<close> for a nonzero 10-bit mantissa: the integer is exact, and so is the division
  by a power of two.
\<close>

definition subnormal16 :: "u16 \<Rightarrow> f32" where
  "subnormal16 mantissa =
     (let m = uint mantissa; k = bit_length m - 1 in
      push_bit 23 (word_of_int (int k + 127 - 24)) OR word_of_int ((m - 2 ^ k) * 2 ^ (23 - k)))"

definition Float16ToFloat32 :: "u16 \<Rightarrow> f32" where
  "Float16ToFloat32 h =
     (let sign = push_bit 16 (ucast (h AND 0x8000));
          exponent = take_bit 5 (ucast (drop_bit 10 h));
          mantissa = (ucast (take_bit 10 h) :: u32) in
      if exponent = 0x1F then sign OR 0x7F800000 OR push_bit 13 mantissa
      else if exponent = 0 then
        if mantissa = 0 then sign else sign OR subnormal16 (take_bit 10 h)
      else sign OR push_bit 23 (exponent + 127 - 15) OR push_bit 13 mantissa)"

subsection \<open>The fields of a pattern\<close>

lemma high_bits_clear:
  fixes w :: "'a::len word"
  assumes "unat w < 2 ^ n" and "n \<le> m"
  shows "\<not> bit w m"
proof -
  have "unat w < 2 ^ m" using assms by (meson less_le_trans one_le_numeral power_increasing)
  then have "\<not> bit (unat w) m" by (simp add: bit_iff_odd)
  then show ?thesis by (simp add: bit_unsigned_iff)
qed

definition pack32 :: "u16 \<Rightarrow> u32 \<Rightarrow> u32 \<Rightarrow> f32" where
  "pack32 s e m = push_bit 16 (ucast (s AND 0x8000)) OR push_bit 23 e OR m"

lemma bit_8000: "bit (0x8000 :: nat) n \<longleftrightarrow> n = 15" "bit (0x8000 :: int) n \<longleftrightarrow> n = 15"
proof -
  have "(0x8000 :: nat) = 2 ^ 15" "(0x8000 :: int) = 2 ^ 15" by simp_all
  then show "bit (0x8000 :: nat) n \<longleftrightarrow> n = 15" "bit (0x8000 :: int) n \<longleftrightarrow> n = 15"
    by (simp_all only: bit_exp_iff possible_bit_def) auto
qed

lemma pack32_fields:
  assumes e: "unat e < 256" and m: "unat m < 2 ^ 23"
  shows "take_bit 8 (drop_bit 23 (pack32 s e m)) = e"
    and "take_bit 23 (pack32 s e m) = m"
    and "ucast (drop_bit 16 (pack32 s e m)) AND 0x8000 = (s AND 0x8000 :: u16)"
    and "take_bit 31 (pack32 s e m) = push_bit 23 e OR m"
proof -
  have E: "\<not> bit e n" if "8 \<le> n" for n using high_bits_clear [of e 8 n] e that by simp
  have M: "\<not> bit m n" if "23 \<le> n" for n using high_bits_clear [of m 23 n] m that by simp
  show "take_bit 8 (drop_bit 23 (pack32 s e m)) = e"
    by (rule bit_eqI) (use E M in \<open>auto simp: pack32_def bit_simps bit_8000 not_le not_less\<close>)
  show "take_bit 23 (pack32 s e m) = m"
    by (rule bit_eqI) (use E M in \<open>auto simp: pack32_def bit_simps bit_8000 not_le not_less\<close>)
  show "ucast (drop_bit 16 (pack32 s e m)) AND 0x8000 = (s AND 0x8000 :: u16)"
    by (rule bit_eqI) (use E M in \<open>auto simp: pack32_def bit_simps bit_8000 not_le not_less\<close>)
  show "take_bit 31 (pack32 s e m) = push_bit 23 e OR m"
    by (rule bit_eqI) (use E M in \<open>auto simp: pack32_def bit_simps bit_8000 not_le not_less\<close>)
qed

lemma unat_pack:
  fixes e m :: u32
  assumes "unat e < 256" and "unat m < 2 ^ 23"
  shows "unat (push_bit 23 e OR m) = unat e * 2 ^ 23 + unat m"
proof -
  have "push_bit 23 e AND m = 0"
    by (rule bit_eqI) (use high_bits_clear [of m 23] assms(2) in \<open>auto simp: bit_simps\<close>)
  then have "push_bit 23 e OR m = push_bit 23 e + m" by (simp add: disjunctive_add_eq_or)
  moreover have "unat (push_bit 23 e) = unat e * 2 ^ 23"
    using assms(1) by (simp add: push_bit_eq_mult unat_word_ariths)
  ultimately show ?thesis using assms by (simp add: unat_word_ariths)
qed

lemma pack32_not_nan:
  assumes "unat e < 255" and "unat m < 2 ^ 23"
  shows "\<not> take_bit 31 (pack32 s e m) > 0x7F800000"
  using assms unat_pack [of e m] pack32_fields(4) [of e m s] by (simp add: word_less_nat_alt)

text \<open>A normal number whose low 13 mantissa bits are clear is halved exactly.\<close>

lemma Float32ToFloat16_normal:
  assumes "1 \<le> unat E" and "unat E \<le> 30" and "unat m < 2 ^ 10"
  shows "Float32ToFloat16 (pack32 s (E + 127 - 15) (push_bit 13 m)) = (s AND 0x8000) OR ucast (push_bit 10 E OR m)"
proof -
  let ?e = "E + 127 - 15" and ?m = "push_bit 13 m"
  have e: "unat ?e = unat E + 112"
    using assms(1,2) by (simp add: unat_word_ariths unat_sub_if' word_le_nat_alt)
  have m: "unat ?m = unat m * 2 ^ 13"
    using assms(3) by (simp add: push_bit_eq_mult unat_word_ariths)
  have b: "unat ?e < 256" "unat ?e < 255" "unat ?m < 2 ^ 23" using e m assms by simp_all
  have x: "uint (take_bit 8 (drop_bit 23 (pack32 s ?e ?m))) - 127 + 15 = uint E"
    using arg_cong [OF e, of int] unfolding pack32_fields(1) [OF b(1,3)] of_nat_add unat_eq_nat_uint by simp
  have M: "n < 10" if "bit m n" for n using high_bits_clear [of m 10 n] assms(3) that by fastforce
  have d: "drop_bit 13 ?m = m" by (rule bit_eqI) (auto simp: bit_simps dest: M)
  have d': "take_bit 13 ?m = 0" by (rule bit_eqI) (auto simp: bit_simps)
  have r: "1 \<le> uint E" "uint E \<le> 30" using assms(1,2) uint_nat [of E] by linarith+
  show ?thesis
    unfolding Float32ToFloat16_def Let_def x pack32_fields(2,3) [OF b(1,3)] d d'
    using r pack32_not_nan [OF b(2,3), of s] by simp
qed

lemma bit_length_iff:
  assumes "2 ^ k \<le> m" and "m < 2 ^ Suc k"
  shows "bit_length m = Suc k"
  using assms
proof (induction k arbitrary: m)
  case 0
  then have "m = 1" by simp
  then show ?case by (simp add: bit_length.simps)
next
  case (Suc k)
  then have "2 ^ k \<le> m div 2" "m div 2 < 2 ^ Suc k" by auto
  then have "bit_length (m div 2) = Suc k" by (rule Suc.IH)
  moreover have "m > 0" using Suc.prems(1) by (meson less_le_trans zero_less_numeral zero_less_power)
  ultimately show ?case by (simp add: bit_length.simps [of m])
qed

lemma bit_length_bounds:
  assumes "0 < m" and "m < 2 ^ n"
  obtains k where "k < n" "2 ^ k \<le> m" "m < 2 ^ Suc k" "bit_length m = Suc k"
proof -
  have "\<exists>k < n. 2 ^ k \<le> m \<and> m < 2 ^ Suc k"
    using assms
  proof (induction n)
    case (Suc n)
    then show ?case by (cases "m < 2 ^ n") (auto intro: less_SucI)
  qed simp
  then show ?thesis using that bit_length_iff by blast
qed

lemma Float32ToFloat16_subnormal:
  assumes "0 < m" and "m < 2 ^ 10"
  defines "k \<equiv> bit_length m - 1"
  shows "Float32ToFloat16 (pack32 s (word_of_int (int k + 127 - 24)) (word_of_int ((m - 2 ^ k) * 2 ^ (23 - k))))
    = (s AND 0x8000) OR word_of_int m"
proof -
  obtain j where j: "j < 10" "2 ^ j \<le> m" "m < 2 ^ Suc j" "bit_length m = Suc j"
    using bit_length_bounds [OF assms(1,2)] by metis
  have k: "k = j" using j(4) by (simp add: k_def)
  let ?e = "word_of_int (int k + 127 - 24) :: u32" and ?v = "(m - 2 ^ k) * 2 ^ (23 - k)"
  let ?M = "word_of_int ?v :: u32"
  have split: "(2::int) ^ k * 2 ^ (23 - k) = 2 ^ 23"
    using j(1) k by (simp flip: power_add)
  have v: "0 \<le> ?v" "?v < 2 ^ 23"
  proof -
    show "0 \<le> ?v" using j(2) k by simp
    have "?v < 2 ^ k * 2 ^ (23 - k)" using j(3) k by (intro mult_strict_right_mono) simp_all
    then show "?v < 2 ^ 23" by (simp only: split)
  qed
  have e: "uint ?e = int k + 103" unfolding uint_word_of_int using j(1) k by simp
  have M: "uint ?M = ?v" unfolding uint_word_of_int using v by simp
  have b: "unat ?e < 256" "unat ?e < 255" using e j(1) k uint_nat [of ?e] by linarith+
  have "int (unat ?M) < int (2 ^ 23)" unfolding uint_nat [symmetric] M using v(2) by simp
  then have b: "unat ?e < 256" "unat ?e < 255" "unat ?M < 2 ^ 23" using b by (simp_all only: of_nat_less_iff)
  have x: "uint (take_bit 8 (drop_bit 23 (pack32 s ?e ?M))) - 127 + 15 = int k - 9"
    unfolding pack32_fields(1) [OF b(1,3)] e by simp
  have sh: "nat (14 - (int k - 9)) = 23 - k" using j(1) k by simp
  have "?M AND 0x800000 = 0"
  proof (rule bit_eqI)
    fix n
    have "(0x800000 :: u32) = 2 ^ 23" by simp
    then have "bit (0x800000 :: u32) n \<longleftrightarrow> n = 23" by (simp only: bit_exp_iff) auto
    then show "bit (?M AND 0x800000) n = bit (0 :: u32) n"
      using high_bits_clear [of ?M 23 n] b(3) by (auto simp: bit_and_iff)
  qed
  then have "?M OR 0x800000 = ?M + 0x800000" by (simp add: disjunctive_add_eq_or)
  also have "?M + 0x800000 = word_of_int (?v + 2 ^ 23)" by simp
  also have "?v + 2 ^ 23 = m * 2 ^ (23 - k)" using split by (simp add: algebra_simps)
  finally have or: "?M OR 0x800000 = word_of_int (m * 2 ^ (23 - k))" .
  have lt: "m * 2 ^ (23 - k) < 2 ^ 32"
  proof -
    have "m * 2 ^ (23 - k) = ?v + 2 ^ 23" using split by (simp add: algebra_simps)
    then show ?thesis using v(2) by simp
  qed
  let ?W = "word_of_int (m * 2 ^ (23 - k)) :: u32"
  have W: "uint ?W = m * 2 ^ (23 - k)" unfolding uint_word_of_int using lt assms(1) by simp
  have "uint (drop_bit (23 - k) ?W) = m"
    unfolding unsigned_drop_bit_eq W using lt assms(1) by (simp add: drop_bit_eq_div take_bit_int_eq_self)
  then have half: "drop_bit (23 - k) ?W = word_of_int m" by (metis word_of_int_uint)
  have "uint (take_bit (23 - k) ?W) = 0"
    unfolding unsigned_take_bit_eq W by (simp add: take_bit_eq_mod)
  then have rem: "take_bit (23 - k) ?W = 0" by (simp add: uint_0_iff)
  have uc: "ucast (word_of_int m :: u32) = (word_of_int m :: u16)" by (rule bit_eqI) (auto simp: bit_simps)
  have mid: "push_bit (23 - k - 1) (1 :: u32) \<noteq> 0" using j(1) k by (simp add: push_bit_eq_mult)
  have r: "\<not> int k - 9 \<ge> 0x1F" "int k - 9 \<le> 0" "\<not> int k - 9 < - 10" using j(1) k by simp_all
  show ?thesis
    unfolding Float32ToFloat16_def Let_def x pack32_fields(2,3) [OF b(1,3)] sh or half rem
    using r mid pack32_not_nan [OF b(2,3), of s] by (simp add: uc)
qed

subsection \<open>Round trips\<close>

lemma split16: "h = (h AND 0x8000) OR push_bit 10 (take_bit 5 (drop_bit 10 h)) OR take_bit 10 (h :: u16)"
  by (rule bit_eqI) (auto simp: bit_simps bit_8000)

lemma Float16ToFloat32_pack:
  defines "E \<equiv> \<lambda>h :: u16. take_bit 5 (ucast (drop_bit 10 h)) :: u32"
  shows "E h \<noteq> 0x1F \<Longrightarrow> E h \<noteq> 0
      \<Longrightarrow> Float16ToFloat32 h = pack32 h (E h + 127 - 15) (push_bit 13 (ucast (take_bit 10 h)))"
    and "E h = 0x1F \<Longrightarrow> take_bit 10 h = 0 \<Longrightarrow> Float16ToFloat32 h = pack32 h 0xFF 0"
    and "E h = 0 \<Longrightarrow> take_bit 10 h = 0 \<Longrightarrow> Float16ToFloat32 h = pack32 h 0 0"
  by (simp_all add: Float16ToFloat32_def pack32_def E_def Let_def or.assoc)

lemma Float16_roundtrip:
  assumes "take_bit 5 (drop_bit 10 h) \<noteq> 0x1F \<or> take_bit 10 h = 0"
  shows "Float32ToFloat16 (Float16ToFloat32 h) = h"
proof -
  let ?E = "take_bit 5 (ucast (drop_bit 10 h)) :: u32" and ?m = "ucast (take_bit 10 h) :: u32"
  have efield: "take_bit 5 (drop_bit 10 h) = ucast ?E" by (rule bit_eqI) (auto simp: bit_simps)
  have um: "unat ?m < 2 ^ 10"
    using take_bit_nat_less_exp [of 10 "unat h"] by (simp add: unsigned_ucast_eq unsigned_take_bit_eq)
  consider "?E = 0x1F" | "?E = 0" | "?E \<noteq> 0x1F" "?E \<noteq> 0" by blast
  then show ?thesis
  proof cases
    case 3
    have "unat ?E < 32"
      using take_bit_nat_less_exp [of 5 "unat (ucast (drop_bit 10 h) :: u32)"] by (simp only: unsigned_take_bit_eq) simp
    then have "1 \<le> unat ?E" "unat ?E \<le> 30" using 3 by (auto simp: word_unat_eq_iff)
    then have "Float32ToFloat16 (Float16ToFloat32 h) = (h AND 0x8000) OR ucast (push_bit 10 ?E OR ?m)"
      unfolding Float16ToFloat32_pack(1) [OF 3] by (rule Float32ToFloat16_normal [OF _ _ um])
    also have "\<dots> = h"
      by (rule bit_eqI) (auto simp: bit_simps bit_8000)
    finally show ?thesis .
  next
    case 1
    then have f: "take_bit 5 (drop_bit 10 h) = 0x1F" and m: "take_bit 10 h = 0" using assms by (simp_all add: efield)
    have "Float32ToFloat16 (Float16ToFloat32 h) = (h AND 0x8000) OR 0x7C00"
      unfolding Float16ToFloat32_pack(2) [OF 1 m] Float32ToFloat16_def Let_def
      using pack32_fields [of 255 0 h] by simp
    also have "\<dots> = h" using split16 [of h] f m by simp
    finally show ?thesis .
  next
    case 2
    then have f: "take_bit 5 (drop_bit 10 h) = 0" by (simp add: efield)
    show ?thesis
    proof (cases "take_bit 10 h = 0")
      case True
      have "Float32ToFloat16 (Float16ToFloat32 h) = (h AND 0x8000)"
        unfolding Float16ToFloat32_pack(3) [OF 2 True] Float32ToFloat16_def Let_def
        using pack32_fields [of 0 0 h] by simp
      also have "\<dots> = h" using split16 [of h] f True by simp
      finally show ?thesis .
    next
      case False
      let ?u = "uint (take_bit 10 h)"
      have u: "0 < ?u" "?u < 2 ^ 10" using False take_bit_int_less_exp [of 10 "uint h"]
        by (simp_all add: word_neq_0_conv [symmetric] unsigned_take_bit_eq) (metis uint_0_iff unsigned_take_bit_eq take_bit_nonnegative order_le_less)
      have "take_bit 10 h = ucast ?m" by (rule bit_eqI) (auto simp: bit_simps)
      then have "?m \<noteq> 0" using False by auto
      then have "Float16ToFloat32 h = pack32 h (word_of_int (int (bit_length ?u - 1) + 127 - 24))
          (word_of_int ((?u - 2 ^ (bit_length ?u - 1)) * 2 ^ (23 - (bit_length ?u - 1))))"
        using 2 by (simp add: Float16ToFloat32_def subnormal16_def pack32_def Let_def or.assoc)
      then have "Float32ToFloat16 (Float16ToFloat32 h) = (h AND 0x8000) OR word_of_int ?u"
        using Float32ToFloat16_subnormal [OF u, of h] by simp
      also have "\<dots> = h" using split16 [of h] f by simp
      finally show ?thesis .
    qed
  qed
qed

lemma Float16_infinite:
  assumes "take_bit 5 (drop_bit 10 h) = 0x1F"
  shows "\<not> f32_finite (Float16ToFloat32 h)"
proof -
  let ?m = "push_bit 13 (ucast (take_bit 10 h)) :: u32"
  have "take_bit 5 (ucast (drop_bit 10 h)) = (ucast (take_bit 5 (drop_bit 10 h)) :: u32)"
    by (rule bit_eqI) (auto simp: bit_simps)
  then have "Float16ToFloat32 h = pack32 h 255 ?m"
    using assms by (simp add: Float16ToFloat32_def pack32_def Let_def or.assoc)
  moreover have "unat ?m < 2 ^ 23"
  proof -
    have "unat (ucast (take_bit 10 h) :: u32) < 2 ^ 10"
      using take_bit_nat_less_exp [of 10 "unat h"] by (simp add: unsigned_ucast_eq unsigned_take_bit_eq)
    then show ?thesis by (simp add: push_bit_eq_mult unat_word_ariths)
  qed
  ultimately show ?thesis using pack32_fields(1) [of 255 ?m h] by (simp add: f32_finite_def)
qed

lemma Float16_finite_roundtrip: "f32_finite (Float16ToFloat32 h) \<Longrightarrow> Float32ToFloat16 (Float16ToFloat32 h) = h"
  using Float16_infinite Float16_roundtrip by blast

lemma BFloat16_roundtrip:
  assumes "f32_finite (BFloat16ToFloat32 h)"
  shows "Float32ToBFloat16 (BFloat16ToFloat32 h) = h"
proof -
  let ?b = "BFloat16ToFloat32 h"
  have h: "unat h \<le> 65535" using unsigned_less [of h, where ?'a = nat] by simp
  then have "take_bit 32 (unat h) = unat h" by (intro take_bit_nat_eq_self) simp
  then have ub: "unat ?b = unat h * 2 ^ 16"
    using h by (simp add: BFloat16ToFloat32_def push_bit_eq_mult unat_word_ariths unsigned_ucast_eq)
  have nan: "\<not> take_bit 31 ?b > 0x7F800000"
  proof
    assume gt: "take_bit 31 ?b > 0x7F800000"
    let ?t = "unat (take_bit 31 ?b)"
    have "?t < 2 ^ 31" using take_bit_nat_less_exp [of 31 "unat ?b"] by (simp add: unsigned_take_bit_eq)
    moreover have "0x7F800000 < ?t" using gt by (simp add: word_less_nat_alt)
    ultimately have "?t div 2 ^ 23 = 255" by simp
    then have "unat (drop_bit 23 (take_bit 31 ?b)) = 255"
      unfolding unat_drop_bit_eq by (simp add: drop_bit_eq_div)
    then have "drop_bit 23 (take_bit 31 ?b) = 255" by (simp add: word_unat_eq_iff)
    moreover have "drop_bit 23 (take_bit 31 ?b) = take_bit 8 (drop_bit 23 ?b)"
      by (rule bit_eqI) (auto simp: bit_simps)
    ultimately show False using assms by (simp add: f32_finite_def)
  qed
  let ?l = "take_bit 1 (drop_bit 16 ?b)"
  have l: "unat ?l \<le> 1"
    unfolding unsigned_take_bit_eq using take_bit_nat_less_exp [of 1 "unat (drop_bit 16 ?b)"] unfolding power_one_right by linarith
  have "unat (?b + (0x7FFF + ?l)) = unat h * 2 ^ 16 + (0x7FFF + unat ?l)"
    using ub l h by (simp add: unat_word_ariths)
  then have "unat (drop_bit 16 (?b + (0x7FFF + ?l))) = unat h"
    unfolding unat_drop_bit_eq using l by (simp add: drop_bit_eq_div)
  then have "ucast (drop_bit 16 (?b + (0x7FFF + ?l))) = h"
    using h take_bit_nat_eq_self [of "unat h" 16] by (simp add: word_unat_eq_iff unsigned_ucast_eq)
  then show ?thesis using nan by (simp add: Float32ToBFloat16_def)
qed

end
