(* ===== verification/Core_Types.thy ===== *)
theory Core_Types
  imports Half_Float
begin

text \<open>
  The domain types of \<open>internal/core\<close>: collection configuration with its defaults and its validation, records,
  named vectors and queries. Go's \<open>int\<close> is \<open>int\<close>; where a product can leave the 64-bit range the wrap-around is
  written out. An error that wraps another one keeps that one's kind.
\<close>

subsection \<open>float32 comparisons\<close>

definition f32_nan :: "f32 \<Rightarrow> bool" where
  "f32_nan x \<longleftrightarrow> take_bit 31 x > 0x7F800000"

definition f32_key :: "f32 \<Rightarrow> int" where
  "f32_key x = (let m = uint (take_bit 31 x) in if bit x 31 then - m else m)"

definition f32_le :: "f32 \<Rightarrow> f32 \<Rightarrow> bool" where
  "f32_le x y \<longleftrightarrow> \<not> f32_nan x \<and> \<not> f32_nan y \<and> f32_key x \<le> f32_key y"

definition f32_lt :: "f32 \<Rightarrow> f32 \<Rightarrow> bool" where
  "f32_lt x y \<longleftrightarrow> \<not> f32_nan x \<and> \<not> f32_nan y \<and> f32_key x < f32_key y"

definition f32_is_zero :: "f32 \<Rightarrow> bool" where
  "f32_is_zero x \<longleftrightarrow> take_bit 31 x = 0"

subsection \<open>Metrics and vectors\<close>

definition MetricValid :: "string \<Rightarrow> bool" where
  "MetricValid m \<longleftrightarrow> m \<in> {''cosine'', ''dot'', ''l2''}"

definition ValidateVector :: "f32 list \<Rightarrow> int \<Rightarrow> unit result" where
  "ValidateVector vector dimension =
     (if int (length vector) \<noteq> dimension then Inl ErrDimensionMismatch
      else if \<not> list_all f32_finite vector then Inl (ErrInvalidArgument ''vector value must be finite'')
      else Inr ())"

definition ValidateSparseVector :: "(string \<times> f32) list \<Rightarrow> unit result" where
  "ValidateSparseVector vector =
     (if vector = [] then Inl (ErrInvalidArgument ''sparse_vector must contain at least one term'')
      else if length vector > 10000 then Inl (ErrInvalidArgument ''sparse_vector cannot exceed 10000 terms'')
      else
        foldR (\<lambda>(term, v) _.
            if term = [] then Inl (ErrInvalidArgument ''sparse_vector terms must not be empty'')
            else if \<not> f32_finite v then Inl (ErrInvalidArgument ''sparse_vector value must be finite'')
            else Inr ()) vector ())"

subsection \<open>Collection configuration\<close>

record IndexConfig =
  ic_Type :: string
  ic_M :: int
  EFConstruction :: int
  EFSearch :: int
  Quantization :: string
  Oversampling :: int
  PQSubspaces :: int
  MaxDegree :: int
  Alpha :: f32

record VectorField =
  vf_Dimension :: int
  vf_Metric :: string
  vf_Index :: IndexConfig
  Datatype :: string
  MultiVector :: bool

record CollectionConfig =
  Name :: string
  Dimension :: int
  Metric :: string
  ShardCount :: int
  cc_Index :: IndexConfig
  Vectorizer :: string
  Vectors :: "(string \<times> VectorField) list"

text \<open>The defaults of the index, of which the number of subspaces depends on the dimension.\<close>

definition pqSplit :: "int \<Rightarrow> int" where
  "pqSplit dimension =
     (case find (\<lambda>width. dimension mod width = 0) [8, 4, 2, 1] of
        None \<Rightarrow> 0
      | Some width \<Rightarrow> dimension div width)"

definition hnswDefaults :: "IndexConfig \<Rightarrow> IndexConfig" where
  "hnswDefaults c =
     (if ic_Type c = ''hnsw'' then
        c\<lparr>ic_M := if ic_M c = 0 then 16 else ic_M c,
          EFConstruction := if EFConstruction c = 0 then 100 else EFConstruction c,
          EFSearch := if EFSearch c = 0 then 64 else EFSearch c\<rparr>
      else c)"

definition diskannDefaults :: "IndexConfig \<Rightarrow> IndexConfig" where
  "diskannDefaults c =
     (if ic_Type c = ''diskann'' then
        c\<lparr>MaxDegree := if MaxDegree c = 0 then 64 else MaxDegree c,
          Alpha := if f32_is_zero (Alpha c) then 0x3F99999A else Alpha c,
          EFConstruction := if EFConstruction c = 0 then 128 else EFConstruction c,
          EFSearch := if EFSearch c = 0 then 100 else EFSearch c\<rparr>
      else c)"

definition quantizationDefaults :: "int \<Rightarrow> IndexConfig \<Rightarrow> IndexConfig" where
  "quantizationDefaults dimension c =
     (if Quantization c = ''binary'' \<and> Oversampling c = 0 then c\<lparr>Oversampling := 4\<rparr>
      else if Quantization c = ''pq'' then
        c\<lparr>Oversampling := if Oversampling c = 0 then 8 else Oversampling c,
          PQSubspaces := if PQSubspaces c = 0 \<and> dimension > 0 then pqSplit dimension else PQSubspaces c\<rparr>
      else c)"

definition normalizedIndex :: "int \<Rightarrow> IndexConfig \<Rightarrow> IndexConfig" where
  "normalizedIndex dimension c =
     (let c1 = (if ic_Type c = [] then c\<lparr>ic_Type := ''flat''\<rparr> else c) in
      quantizationDefaults dimension (diskannDefaults (hnswDefaults c1)))"

definition Normalized :: "CollectionConfig \<Rightarrow> CollectionConfig" where
  "Normalized c = c\<lparr>cc_Index := normalizedIndex (Dimension c) (cc_Index c)\<rparr>"

text \<open>\<open>VectorField.Normalized\<close> goes through a configuration whose dimension is zero.\<close>

definition FieldNormalized :: "VectorField \<Rightarrow> VectorField" where
  "FieldNormalized f =
     f\<lparr>Datatype := if Datatype f = [] then ''float32'' else Datatype f, vf_Index := normalizedIndex 0 (vf_Index f)\<rparr>"

subsection \<open>Validation\<close>

definition is_lower :: "char \<Rightarrow> bool" where
  "is_lower c \<longleftrightarrow> CHR ''a'' \<le> c \<and> c \<le> CHR ''z''"

definition is_upper :: "char \<Rightarrow> bool" where
  "is_upper c \<longleftrightarrow> CHR ''A'' \<le> c \<and> c \<le> CHR ''Z''"

definition is_mark :: "char \<Rightarrow> bool" where
  "is_mark c \<longleftrightarrow> c = CHR ''_'' \<or> c = CHR ''-''"

text \<open>\<open>^[a-z0-9][a-z0-9_-]{0,63}$\<close> and \<open>^[a-zA-Z][a-zA-Z0-9_-]{0,63}$\<close>.\<close>

definition vectorizerName :: "string \<Rightarrow> bool" where
  "vectorizerName s =
     (case s of
        [] \<Rightarrow> False
      | c # cs \<Rightarrow> (is_lower c \<or> is_digit c) \<and> length cs \<le> 63
                  \<and> list_all (\<lambda>c. is_lower c \<or> is_digit c \<or> is_mark c) cs)"

definition vectorFieldName :: "string \<Rightarrow> bool" where
  "vectorFieldName s =
     (case s of
        [] \<Rightarrow> False
      | c # cs \<Rightarrow> (is_lower c \<or> is_upper c) \<and> length cs \<le> 63
                  \<and> list_all (\<lambda>c. is_lower c \<or> is_upper c \<or> is_digit c \<or> is_mark c) cs)"

definition validateHNSW :: "IndexConfig \<Rightarrow> unit result" where
  "validateHNSW c =
     (if ic_M c < 2 \<or> ic_M c > 128 then Inl (ErrInvalidArgument ''hnsw m must be between 2 and 128'')
      else if EFConstruction c < ic_M c \<or> EFConstruction c > 10000
      then Inl (ErrInvalidArgument ''hnsw ef_construction must be between m and 10000'')
      else if EFSearch c < 1 \<or> EFSearch c > 10000
      then Inl (ErrInvalidArgument ''hnsw ef_search must be between 1 and 10000'')
      else Inr ())"

definition validateDiskANN :: "IndexConfig \<Rightarrow> unit result" where
  "validateDiskANN c =
     (if ic_M c \<noteq> 0 then Inl (ErrInvalidArgument ''diskann uses max_degree, not m'')
      else if MaxDegree c < 4 \<or> MaxDegree c > 256
      then Inl (ErrInvalidArgument ''diskann max_degree must be between 4 and 256'')
      else if \<not> (f32_le 0x3F800000 (Alpha c) \<and> f32_le (Alpha c) 0x40000000)
      then Inl (ErrInvalidArgument ''diskann alpha must be between 1 and 2'')
      else if EFConstruction c < MaxDegree c \<or> EFConstruction c > 10000
      then Inl (ErrInvalidArgument ''diskann ef_construction must be between max_degree and 10000'')
      else if EFSearch c < 1 \<or> EFSearch c > 10000
      then Inl (ErrInvalidArgument ''diskann ef_search must be between 1 and 10000'')
      else Inr ())"

definition validateIndexType :: "IndexConfig \<Rightarrow> unit result" where
  "validateIndexType c =
     (if ic_Type c = ''flat'' then Inr ()
      else if ic_Type c = ''hnsw'' then validateHNSW c
      else if ic_Type c = ''diskann'' then validateDiskANN c
      else Inl (ErrInvalidArgument ''unsupported index type''))"

definition validateQuantization :: "int \<Rightarrow> IndexConfig \<Rightarrow> unit result" where
  "validateQuantization dimension c =
     (if Quantization c = [] then
        (if Oversampling c \<noteq> 0 then Inl (ErrInvalidArgument ''oversampling requires quantization'') else Inr ())
      else if Quantization c = ''binary'' then
        (if ic_Type c \<noteq> ''flat'' then Inl (ErrInvalidArgument ''binary quantization requires the flat index'')
         else if Oversampling c < 1 \<or> Oversampling c > 100
         then Inl (ErrInvalidArgument ''oversampling must be between 1 and 100'')
         else Inr ())
      else if Quantization c = ''pq'' then
        (if ic_Type c \<noteq> ''flat'' then Inl (ErrInvalidArgument ''pq quantization requires the flat index'')
         else if Oversampling c < 1 \<or> Oversampling c > 100
         then Inl (ErrInvalidArgument ''oversampling must be between 1 and 100'')
         else if PQSubspaces c < 1 \<or> PQSubspaces c > dimension \<or> dimension mod PQSubspaces c \<noteq> 0
         then Inl (ErrInvalidArgument ''pq_subspaces must be positive and divide the dimension'')
         else Inr ())
      else Inl (ErrInvalidArgument ''unsupported quantization''))"

text \<open>The checks of \<open>Validate\<close> on the normalized configuration, up to the named fields.\<close>

definition validateBase :: "CollectionConfig \<Rightarrow> unit result" where
  "validateBase c =
     (let i = cc_Index c in
      if Name c = [] then Inl (ErrInvalidArgument ''collection name is required'')
      else if Dimension c \<le> 0 then Inl (ErrInvalidArgument ''dimension must be positive'')
      else if \<not> MetricValid (Metric c) then Inl (ErrInvalidArgument ''unsupported metric'')
      else if ShardCount c \<le> 0 then Inl (ErrInvalidArgument ''shard_count must be positive'')
      else if Vectorizer c \<noteq> [] \<and> \<not> vectorizerName (Vectorizer c)
      then Inl (ErrInvalidArgument ''vectorizer must match its pattern'')
      else
        and_then (validateIndexType i) (\<lambda>_.
        if PQSubspaces i \<noteq> 0 \<and> Quantization i \<noteq> ''pq''
        then Inl (ErrInvalidArgument ''pq_subspaces requires pq quantization'')
        else if ic_Type i \<noteq> ''diskann'' \<and> (MaxDegree i \<noteq> 0 \<or> \<not> f32_is_zero (Alpha i))
        then Inl (ErrInvalidArgument ''max_degree and alpha require the diskann index'')
        else validateQuantization (Dimension c) i))"

definition MaxNamedVectorFields :: nat where
  "MaxNamedVectorFields = 16"

definition MaxMultiVectorLength :: nat where
  "MaxMultiVectorLength = 1024"

definition maxVectorFieldsDimension :: int where
  "maxVectorFieldsDimension = 65536"

text \<open>The checks of a named field before its index is validated through a probe configuration.\<close>

definition validateFieldBase :: "string \<Rightarrow> VectorField \<Rightarrow> unit result" where
  "validateFieldBase name f =
     (if \<not> vectorFieldName name then Inl (ErrInvalidArgument ''vector field name must match its pattern'')
      else if vf_Dimension f \<le> 0 \<or> vf_Dimension f > maxVectorFieldsDimension
      then Inl (ErrInvalidArgument ''vector field dimension out of range'')
      else if \<not> MetricValid (vf_Metric f) then Inl (ErrInvalidArgument ''vector field has unsupported metric'')
      else if Datatype f \<notin> {''float32'', ''float16'', ''bfloat16''}
      then Inl (ErrInvalidArgument ''vector field has unsupported datatype'')
      else if Quantization (vf_Index f) \<noteq> []
      then Inl (ErrInvalidArgument ''quantization is only supported on the default vector'')
      else Inr ())"

definition probeConfig :: "VectorField \<Rightarrow> CollectionConfig" where
  "probeConfig f =
     \<lparr>Name = ''field'', Dimension = vf_Dimension f, Metric = vf_Metric f, ShardCount = 1, cc_Index = vf_Index f,
      Vectorizer = [], Vectors = []\<rparr>"

text \<open>
  A field is validated by validating a probe configuration that has no named fields, so the mutual
  recursion of the sources ends after one level.
\<close>

function Validate :: "CollectionConfig \<Rightarrow> unit result"
  and validateFields :: "(string \<times> VectorField) list \<Rightarrow> unit result" where
  "Validate c =
     and_then (validateBase (Normalized c)) (\<lambda>_.
     if length (Vectors c) > MaxNamedVectorFields
     then Inl (ErrInvalidArgument ''too many named vector fields'')
     else validateFields (Vectors c))"
| "validateFields [] = Inr ()"
| "validateFields ((name, f) # fs) =
     (let f' = FieldNormalized f in
      and_then (validateFieldBase name f') (\<lambda>_.
      and_then (Validate (probeConfig f')) (\<lambda>_.
      validateFields fs)))"
  by pat_completeness auto
termination
  by (relation "measure (\<lambda>x. case x of Inl c \<Rightarrow> Suc (2 * length (Vectors c)) | Inr fs \<Rightarrow> 2 * length fs)")
    (auto simp: probeConfig_def)

declare Validate.simps [simp del]

definition VectorFieldOf :: "CollectionConfig \<Rightarrow> string \<Rightarrow> VectorField option" where
  "VectorFieldOf c name = map_option FieldNormalized (map_of (Vectors c) name)"

definition VectorFieldNames :: "CollectionConfig \<Rightarrow> string list" where
  "VectorFieldNames c = sort (map fst (Vectors c))"

subsection \<open>Records and named vectors\<close>

text \<open>A nil map and an empty map are both the empty list where nothing tells them apart; a nil sparse vector is \<open>None\<close>.\<close>

record CoreRecord =
  cr_ID :: string
  cr_Vector :: "f32 list"
  SparseVector :: "(string \<times> f32) list option"
  Metadata :: "(string \<times> Value) list"
  cr_Payload :: "(string \<times> Value) list"
  Timestamp :: int
  cr_Version :: u64
  Namespace :: string
  Text :: string
  cr_Vectors :: "(string \<times> f32 list) list"
  MultiVectors :: "(string \<times> f32 list list) list"

definition ValidateMultiVector :: "f32 list list \<Rightarrow> int \<Rightarrow> unit result" where
  "ValidateMultiVector vs dimension =
     (if vs = [] then Inl (ErrInvalidArgument ''multi-vector must contain at least one vector'')
      else if length vs > MaxMultiVectorLength then Inl (ErrInvalidArgument ''multi-vector too long'')
      else foldR (\<lambda>v _. ValidateVector v dimension) vs ())"

definition RoundToDatatype :: "string \<Rightarrow> f32 list \<Rightarrow> f32 list" where
  "RoundToDatatype datatype v =
     (if datatype = ''float16'' then map (\<lambda>x. Float16ToFloat32 (Float32ToFloat16 x)) v
      else if datatype = ''bfloat16'' then map (\<lambda>x. BFloat16ToFloat32 (Float32ToBFloat16 x)) v
      else v)"

definition prepareVector :: "CollectionConfig \<Rightarrow> string \<times> f32 list \<Rightarrow> (string \<times> f32 list) result" where
  "prepareVector c nv =
     (case VectorFieldOf c (fst nv) of
        None \<Rightarrow> Inl (ErrInvalidArgument ''unknown vector field'')
      | Some f \<Rightarrow>
          if MultiVector f then Inl (ErrInvalidArgument ''vector field is multi-vector; send it in multi_vectors'')
          else
            and_then (ValidateVector (snd nv) (vf_Dimension f)) (\<lambda>_.
            let rounded = RoundToDatatype (Datatype f) (snd nv) in
            and_then (ValidateVector rounded (vf_Dimension f)) (\<lambda>_. Inr (fst nv, rounded))))"

definition prepareMultiVector :: "CollectionConfig \<Rightarrow> string \<times> f32 list list \<Rightarrow> (string \<times> f32 list list) result" where
  "prepareMultiVector c nv =
     (case VectorFieldOf c (fst nv) of
        None \<Rightarrow> Inl (ErrInvalidArgument ''unknown vector field'')
      | Some f \<Rightarrow>
          if \<not> MultiVector f then Inl (ErrInvalidArgument ''vector field is single-vector; send it in vectors'')
          else
            and_then (ValidateMultiVector (snd nv) (vf_Dimension f)) (\<lambda>_.
            let rounded = map (RoundToDatatype (Datatype f)) (snd nv) in
            and_then (foldR (\<lambda>v _. ValidateVector v (vf_Dimension f)) rounded ()) (\<lambda>_. Inr (fst nv, rounded))))"

definition mapR :: "('a \<Rightarrow> 'b result) \<Rightarrow> 'a list \<Rightarrow> 'b list result" where
  "mapR f xs = foldR (\<lambda>x ys. and_then (f x) (\<lambda>y. Inr (ys @ [y]))) xs []"

definition PrepareNamedVectors :: "CollectionConfig \<Rightarrow> CoreRecord \<Rightarrow> CoreRecord result" where
  "PrepareNamedVectors c r =
     (if cr_Vectors r = [] \<and> MultiVectors r = [] then Inr r
      else
        and_then (mapR (prepareVector c) (cr_Vectors r)) (\<lambda>vs.
        and_then (mapR (prepareMultiVector c) (MultiVectors r)) (\<lambda>ms.
        Inr (r\<lparr>cr_Vectors := vs, MultiVectors := ms\<rparr>))))"

subsection \<open>Queries\<close>

definition MaxTextBytes :: nat where
  "MaxTextBytes = 2 ^ 20"

definition ValidateText :: "string \<Rightarrow> unit result" where
  "ValidateText text =
     (if length text > MaxTextBytes then Inl (ErrInvalidArgument ''text too long'') else Inr ())"

record HybridQuery =
  Dense :: "f32 list option"
  Sparse :: "(string \<times> f32) list option"
  hq_Text :: string
  hq_Alpha :: f32
  Fusion :: string
  hq_TopK :: int

definition HybridValidate :: "HybridQuery \<Rightarrow> int \<Rightarrow> unit result" where
  "HybridValidate q dimension =
     and_then (case Dense q of None \<Rightarrow> Inr () | Some v \<Rightarrow> ValidateVector v dimension) (\<lambda>_.
     if Sparse q = None \<and> hq_Text q = []
     then Inl (ErrInvalidArgument ''hybrid search requires sparse_vector or text'')
     else
       and_then (case Sparse q of None \<Rightarrow> Inr () | Some v \<Rightarrow> ValidateSparseVector v) (\<lambda>_.
       and_then (ValidateText (hq_Text q)) (\<lambda>_.
       if f32_lt (hq_Alpha q) 0 \<or> f32_lt 0x3F800000 (hq_Alpha q)
       then Inl (ErrInvalidArgument ''alpha must be between 0 and 1'')
       else if hq_TopK q \<le> 0 then Inl (ErrInvalidArgument ''top_k must be positive'')
       else if Fusion q \<notin> {[], ''weighted'', ''rrf''} then Inl (ErrInvalidArgument ''unsupported fusion'')
       else Inr ())))"

definition MaxRerankCandidates :: int where
  "MaxRerankCandidates = 1000"

record NamedQuery =
  nq_Field :: string
  nq_Vector :: "f32 list option"
  nq_MultiVector :: "f32 list list option"
  nq_TopK :: int
  nq_EFSearch :: int
  Candidates :: int

definition NamedValidate :: "NamedQuery \<Rightarrow> CollectionConfig \<Rightarrow> unit result" where
  "NamedValidate q config =
     (case VectorFieldOf config (nq_Field q) of
        None \<Rightarrow> Inl (ErrInvalidArgument ''unknown vector field'')
      | Some f \<Rightarrow>
          if nq_TopK q \<le> 0 then Inl (ErrInvalidArgument ''top_k must be positive'')
          else if nq_EFSearch q < 0 \<or> nq_EFSearch q > 10000
          then Inl (ErrInvalidArgument ''ef_search must be between 1 and 10000 when set'')
          else if Candidates q < 0 \<or> Candidates q > MaxRerankCandidates
          then Inl (ErrInvalidArgument ''candidates out of range'')
          else
            (case (nq_Vector q, nq_MultiVector q) of
               (Some _, Some _) \<Rightarrow> Inl (ErrInvalidArgument ''send either vector or multi_vector, not both'')
             | (None, Some vs) \<Rightarrow>
                 if \<not> MultiVector f then Inl (ErrInvalidArgument ''multi_vector queries require a multi-vector field'')
                 else ValidateMultiVector vs (vf_Dimension f)
             | (Some v, None) \<Rightarrow> ValidateVector v (vf_Dimension f)
             | (None, None) \<Rightarrow> Inl (ErrInvalidArgument ''named vector search requires vector or multi_vector'')))"

text \<open>64-bit multiplication wraps.\<close>

definition wrap64 :: "int \<Rightarrow> int" where
  "wrap64 n = signed_take_bit 63 n"

definition CandidateCount :: "NamedQuery \<Rightarrow> int" where
  "CandidateCount q =
     (if Candidates q > 0 then max (Candidates q) (nq_TopK q)
      else min (max (wrap64 (4 * nq_TopK q)) 100) (max MaxRerankCandidates (nq_TopK q)))"

record RerankSpec =
  rs_Type :: string
  rs_Candidates :: int
  rs_Field :: string
  rs_MultiVector :: "f32 list list"
  Model :: string
  Query :: string
  Document :: string

definition RerankCandidateCount :: "RerankSpec \<Rightarrow> int \<Rightarrow> int" where
  "RerankCandidateCount r window = (if rs_Candidates r > 0 then max (rs_Candidates r) window else max 50 window)"

definition afterPrefix :: "string \<Rightarrow> string \<Rightarrow> string option" where
  "afterPrefix p s = (if length s > length p \<and> take (length p) s = p then Some (drop (length p) s) else None)"

definition DocumentSource :: "RerankSpec \<Rightarrow> (string \<times> string) result" where
  "DocumentSource r =
     (if Document r = [] \<or> Document r = ''text'' then Inr (''text'', [])
      else case afterPrefix ''payload.'' (Document r) of
        Some key \<Rightarrow> Inr (''payload'', key)
      | None \<Rightarrow>
          (case afterPrefix ''metadata.'' (Document r) of
             Some key \<Rightarrow> Inr (''metadata'', key)
           | None \<Rightarrow> Inl (ErrInvalidArgument ''rerank document must be text, payload.<key> or metadata.<key>'')))"

definition RerankValidate :: "RerankSpec \<Rightarrow> CollectionConfig \<Rightarrow> int \<Rightarrow> unit result" where
  "RerankValidate r config window =
     (if rs_Candidates r < 0 \<or> rs_Candidates r > MaxRerankCandidates \<or> window > MaxRerankCandidates
      then Inl (ErrInvalidArgument ''rerank candidates and offset + top_k must not exceed the limit'')
      else if rs_Type r = ''maxsim'' then
        (case VectorFieldOf config (rs_Field r) of
           None \<Rightarrow> Inl (ErrInvalidArgument ''maxsim rerank requires a multi-vector field'')
         | Some f \<Rightarrow>
             if \<not> MultiVector f then Inl (ErrInvalidArgument ''maxsim rerank requires a multi-vector field'')
             else ValidateMultiVector (rs_MultiVector r) (vf_Dimension f))
      else if rs_Type r = ''cross_encoder'' then
        (if Model r = [] \<or> Query r = []
         then Inl (ErrInvalidArgument ''cross_encoder rerank requires model and query'')
         else if length (Query r) > MaxTextBytes then Inl (ErrInvalidArgument ''rerank query is too long'')
         else and_then (DocumentSource r) (\<lambda>_. Inr ()))
      else Inl (ErrInvalidArgument ''unsupported rerank type''))"

end
