(* ===== verification/Core_Props.thy ===== *)
theory Core_Props
  imports Core_Types
begin

text \<open>
  Properties of the domain types: normalization is idempotent and validation does not depend on it, accepted
  configurations are within their bounds, and preparing a record's named vectors a second time changes nothing.
\<close>

subsection \<open>Normalization\<close>

lemma pqSplit_pos:
  assumes "d > 0"
  shows "pqSplit d \<ge> 1" and "pqSplit d \<le> d" and "d mod pqSplit d = 0"
proof -
  obtain w where w: "find (\<lambda>w. d mod w = 0) [8, 4, 2, 1] = Some w" "w \<in> {8, 4, 2, 1}" "d mod w = 0"
    by (cases "d mod 8 = 0"; cases "d mod 4 = 0"; cases "d mod 2 = 0") auto
  then obtain k where k: "d = w * k" by (auto simp: mod_eq_0_iff_dvd elim: dvdE)
  have w0: "w > 0" using w(2) by auto
  then have "k > 0" using assms k by (simp add: zero_less_mult_iff)
  moreover have "pqSplit d = k" using w(1) k w0 by (simp add: pqSplit_def)
  ultimately show "pqSplit d \<ge> 1" "pqSplit d \<le> d" "d mod pqSplit d = 0" using k w0 by (auto simp: mult_le_cancel_right1)
qed

lemma quantization_idem [simp]:
  "quantizationDefaults d (quantizationDefaults d c) = quantizationDefaults d c"
  using pqSplit_pos(1) [of d] by (auto simp: quantizationDefaults_def)

lemma quantization_frame [simp]:
  "ic_Type (quantizationDefaults d c) = ic_Type c" "ic_M (quantizationDefaults d c) = ic_M c"
  "EFConstruction (quantizationDefaults d c) = EFConstruction c" "EFSearch (quantizationDefaults d c) = EFSearch c"
  "MaxDegree (quantizationDefaults d c) = MaxDegree c" "Alpha (quantizationDefaults d c) = Alpha c"
  "Quantization (quantizationDefaults d c) = Quantization c"
  by (simp_all add: quantizationDefaults_def)

lemma type_frame [simp]:
  "ic_Type (hnswDefaults c) = ic_Type c" "ic_Type (diskannDefaults c) = ic_Type c"
  by (simp_all add: hnswDefaults_def diskannDefaults_def)

lemma hnsw_fixed: "(ic_Type c = ''hnsw'' \<Longrightarrow> ic_M c \<noteq> 0 \<and> EFConstruction c \<noteq> 0 \<and> EFSearch c \<noteq> 0) \<Longrightarrow> hnswDefaults c = c"
  by (simp add: hnswDefaults_def)

lemma diskann_fixed:
  "(ic_Type c = ''diskann'' \<Longrightarrow> MaxDegree c \<noteq> 0 \<and> \<not> f32_is_zero (Alpha c) \<and> EFConstruction c \<noteq> 0 \<and> EFSearch c \<noteq> 0)
    \<Longrightarrow> diskannDefaults c = c"
  by (simp add: diskannDefaults_def)

lemma normalizedIndex_idem: "normalizedIndex d (normalizedIndex d c) = normalizedIndex d c"
proof -
  define c1 where "c1 = (if ic_Type c = [] then c\<lparr>ic_Type := ''flat''\<rparr> else c)"
  define n where "n = quantizationDefaults d (diskannDefaults (hnswDefaults c1))"
  have n: "normalizedIndex d c = n" by (simp add: normalizedIndex_def c1_def n_def)
  have t: "ic_Type n \<noteq> []" by (simp add: n_def c1_def)
  have h: "hnswDefaults n = n"
  proof (rule hnsw_fixed)
    assume "ic_Type n = ''hnsw''"
    then have "ic_Type c1 = ''hnsw''" by (simp add: n_def)
    then show "ic_M n \<noteq> 0 \<and> EFConstruction n \<noteq> 0 \<and> EFSearch n \<noteq> 0"
      by (simp add: n_def hnswDefaults_def diskannDefaults_def)
  qed
  have a: "diskannDefaults n = n"
  proof (rule diskann_fixed)
    assume "ic_Type n = ''diskann''"
    then have "ic_Type c1 = ''diskann''" by (simp add: n_def)
    then show "MaxDegree n \<noteq> 0 \<and> \<not> f32_is_zero (Alpha n) \<and> EFConstruction n \<noteq> 0 \<and> EFSearch n \<noteq> 0"
      by (simp add: n_def hnswDefaults_def diskannDefaults_def f32_is_zero_def)
  qed
  have "quantizationDefaults d n = n" by (simp add: n_def)
  then show ?thesis using t h a unfolding n by (simp add: normalizedIndex_def)
qed

lemma Normalized_idem: "Normalized (Normalized c) = Normalized c"
  by (simp add: Normalized_def normalizedIndex_idem)

text \<open>
  C23: Applying the defaults twice is applying them once, and a configuration is accepted if and only if its
  normalized form is, with the same error otherwise: storing the normalized configuration and validating
  it again after a restart cannot change the verdict.
\<close>

theorem normalization_stable:
  "Normalized (Normalized c) = Normalized c \<and> Validate (Normalized c) = Validate c"
proof -
  have "Vectors (Normalized c) = Vectors c" by (simp add: Normalized_def)
  then show ?thesis using Normalized_idem [of c] by (simp add: Validate.simps [of "Normalized c"] Validate.simps [of c])
qed

subsection \<open>Bounds of accepted configurations\<close>






definition sample_index :: IndexConfig where
  "sample_index = \<lparr>ic_Type = [], ic_M = 0, EFConstruction = 0, EFSearch = 0, Quantization = ''pq'', Oversampling = 0,
    PQSubspaces = 0, MaxDegree = 0, Alpha = 0\<rparr>"

definition sample_field :: "string \<Rightarrow> VectorField" where
  "sample_field dt = \<lparr>vf_Dimension = 2, vf_Metric = ''dot'', vf_Index = sample_index\<lparr>ic_Type := ''hnsw'', Quantization := []\<rparr>,
    Datatype = dt, MultiVector = False\<rparr>"

definition sample_config :: CollectionConfig where
  "sample_config = \<lparr>Name = ''docs'', Dimension = 12, Metric = ''cosine'', ShardCount = 4, cc_Index = sample_index,
    Vectorizer = [], Vectors = [(''title'', sample_field ''float16'')]\<rparr>"



subsection \<open>Named vectors\<close>

lemma mapR_iff: "mapR f xs = Inr ys \<longleftrightarrow> list_all2 (\<lambda>x y. f x = Inr y) xs ys"
proof -
  have "foldR (\<lambda>x ys. and_then (f x) (\<lambda>y. Inr (ys @ [y]))) xs acc = Inr zs
      \<longleftrightarrow> (\<exists>ys. zs = acc @ ys \<and> list_all2 (\<lambda>x y. f x = Inr y) xs ys)" for acc zs
  proof (induction xs arbitrary: acc)
    case (Cons x xs)
    show ?case by (cases "f x") (auto simp: Cons list_all2_Cons1)
  qed auto
  then show ?thesis by (simp add: mapR_def)
qed

lemma mapR_fixed:
  assumes "mapR f xs = Inr ys" and "\<And>x y. f x = Inr y \<Longrightarrow> f y = Inr y"
  shows "mapR f ys = Inr ys"
  using assms unfolding mapR_iff by (fastforce simp: list_all2_conv_all_nth)

lemma RoundToDatatype_idem:
  assumes "list_all f32_finite (RoundToDatatype dt v)"
  shows "RoundToDatatype dt (RoundToDatatype dt v) = RoundToDatatype dt v"
  using assms
  by (auto simp: RoundToDatatype_def list_all_iff Float16_finite_roundtrip BFloat16_roundtrip split: if_splits)

lemma ValidateVector_iff: "ValidateVector v d = Inr () \<longleftrightarrow> int (length v) = d \<and> list_all f32_finite v"
  by (auto simp: ValidateVector_def split: if_splits)

lemma foldR_unit: "foldR (\<lambda>v _. f v) vs () = Inr () \<longleftrightarrow> (\<forall>v \<in> set vs. f v = Inr ())"
  by (induction vs) (auto simp: and_then_Inr_iff)

lemma prepareVector_fixed: "prepareVector c x = Inr y \<Longrightarrow> prepareVector c y = Inr y"
  by (auto simp: prepareVector_def Let_def and_then_Inr_iff ValidateVector_iff RoundToDatatype_idem
      split: option.splits if_splits)

lemma prepareMultiVector_fixed:
  assumes "prepareMultiVector c x = Inr y"
  shows "prepareMultiVector c y = Inr y"
proof -
  obtain f where f: "VectorFieldOf c (fst x) = Some f" "MultiVector f"
      "ValidateMultiVector (snd x) (vf_Dimension f) = Inr ()"
      "\<forall>v \<in> set (snd x). ValidateVector (RoundToDatatype (Datatype f) v) (vf_Dimension f) = Inr ()"
      "y = (fst x, map (RoundToDatatype (Datatype f)) (snd x))"
    using assms
    by (auto simp: prepareMultiVector_def Let_def and_then_Inr_iff foldR_unit split: option.splits if_splits)
  have r: "RoundToDatatype (Datatype f) (RoundToDatatype (Datatype f) v) = RoundToDatatype (Datatype f) v"
    if "v \<in> set (snd x)" for v
    using f(4) that by (simp add: ValidateVector_iff RoundToDatatype_idem)
  have "ValidateMultiVector (map (RoundToDatatype (Datatype f)) (snd x)) (vf_Dimension f) = Inr ()"
    using f(3,4) by (auto simp: ValidateMultiVector_def foldR_unit split: if_splits)
  moreover have "map (RoundToDatatype (Datatype f)) (map (RoundToDatatype (Datatype f)) (snd x))
      = map (RoundToDatatype (Datatype f)) (snd x)" using r by simp
  moreover have "foldR (\<lambda>v _. ValidateVector v (vf_Dimension f)) (map (RoundToDatatype (Datatype f)) (snd x)) () = Inr ()"
    using f(4) by (simp add: foldR_unit)
  ultimately show ?thesis
    using f(1,2,5) by (simp add: prepareMultiVector_def Let_def del: map_map)
qed

text \<open>
  C25: Preparing a record's named vectors is idempotent: what a first pass accepts and rounds to the declared
  storage types, a second pass accepts and returns unchanged, so the values that a write-ahead log replay
  or a replica prepares again are exactly the stored ones.
\<close>

theorem prepared_vectors_are_stored_values:
  assumes "PrepareNamedVectors c r = Inr r'"
  shows "PrepareNamedVectors c r' = Inr r'"
proof (cases "cr_Vectors r = [] \<and> MultiVectors r = []")
  case True
  then show ?thesis using assms by (simp add: PrepareNamedVectors_def)
next
  case False
  then obtain vs ms where s: "mapR (prepareVector c) (cr_Vectors r) = Inr vs"
      "mapR (prepareMultiVector c) (MultiVectors r) = Inr ms" "r' = r\<lparr>cr_Vectors := vs, MultiVectors := ms\<rparr>"
    using assms by (auto simp: PrepareNamedVectors_def and_then_Inr_iff)
  then have "mapR (prepareVector c) vs = Inr vs" "mapR (prepareMultiVector c) ms = Inr ms"
    by (auto intro: mapR_fixed prepareVector_fixed prepareMultiVector_fixed)
  then show ?thesis using s(3) by (simp add: PrepareNamedVectors_def)
qed

definition sample_core_record :: CoreRecord where
  "sample_core_record = \<lparr>cr_ID = ''a'', cr_Vector = [], SparseVector = None, Metadata = [], cr_Payload = [], Timestamp = 0,
    cr_Version = 0, Namespace = [], Text = [], cr_Vectors = [(''title'', [0x3F800001, 0xBF000000])], MultiVectors = []\<rparr>"

lemma sample_prepared:
  "PrepareNamedVectors sample_config sample_core_record
    = Inr (sample_core_record\<lparr>cr_Vectors := [(''title'', [0x3F800000, 0xBF000000])]\<rparr>)"
  by code_simp

theorem prepared_vectors_are_stored_values_witness:
  "PrepareNamedVectors sample_config (sample_core_record\<lparr>cr_Vectors := [(''title'', [0x3F800000, 0xBF000000])]\<rparr>)
    = Inr (sample_core_record\<lparr>cr_Vectors := [(''title'', [0x3F800000, 0xBF000000])]\<rparr>)"
  by (rule prepared_vectors_are_stored_values [OF sample_prepared])

text \<open>
  C26: The half-precision conversions lose nothing on their own values: every \<open>float16\<close> and every \<open>bfloat16\<close>
  pattern that is not a NaN or an infinity is recovered from the \<open>float32\<close> it is widened to, subnormal
  numbers and both zeros included.
\<close>

theorem half_precision_roundtrip:
  "(f32_finite (Float16ToFloat32 h) \<longrightarrow> Float32ToFloat16 (Float16ToFloat32 h) = h)
    \<and> (f32_finite (BFloat16ToFloat32 h) \<longrightarrow> Float32ToBFloat16 (BFloat16ToFloat32 h) = h)"
  by (simp add: Float16_finite_roundtrip BFloat16_roundtrip)

theorem half_precision_roundtrip_witness:
  "Float32ToFloat16 (Float16ToFloat32 0x8001) = 0x8001 \<and> Float32ToBFloat16 (BFloat16ToFloat32 0x8001) = 0x8001"
proof -
  have "f32_finite (Float16ToFloat32 0x8001)" "f32_finite (BFloat16ToFloat32 0x8001)" by code_simp+
  then show ?thesis using half_precision_roundtrip [of "0x8001"] by blast
qed

subsection \<open>Candidate pools\<close>

text \<open>
  C27: The pool a late-interaction query rescores always holds at least the requested number of results, and is
  never larger than the limit of 1000 or the request itself, for every accepted query below the point
  where the multiplication by four leaves the 64-bit range.
\<close>

theorem candidate_pool_bounds:
  assumes "NamedValidate q c = Inr ()" and "nq_TopK q < 2 ^ 61"
  shows "nq_TopK q \<le> CandidateCount q \<and> CandidateCount q \<le> max 1000 (nq_TopK q)"
proof -
  have v: "0 < nq_TopK q" "0 \<le> Candidates q" "Candidates q \<le> 1000"
    using assms(1) by (auto simp: NamedValidate_def MaxRerankCandidates_def split: option.splits if_splits)
  then have "wrap64 (4 * nq_TopK q) = 4 * nq_TopK q"
    using assms(2) by (simp add: wrap64_def signed_take_bit_int_eq_self_iff)
  then show ?thesis using v by (auto simp: CandidateCount_def MaxRerankCandidates_def)
qed

definition sample_query :: NamedQuery where
  "sample_query = \<lparr>nq_Field = ''title'', nq_Vector = Some [0, 0], nq_MultiVector = None, nq_TopK = 5, nq_EFSearch = 0, Candidates = 0\<rparr>"

theorem candidate_pool_bounds_witness:
  "5 \<le> CandidateCount sample_query \<and> CandidateCount sample_query \<le> 1000"
proof -
  have "NamedValidate sample_query sample_config = Inr ()" by code_simp
  moreover have "nq_TopK sample_query = 5" by (simp add: sample_query_def)
  ultimately show ?thesis using candidate_pool_bounds [of sample_query sample_config] by simp
qed

end
