(* ===== verification/Peer_Discovery.thy ===== *)
theory Peer_Discovery
  imports Cluster_Base "HOL-Library.AList"
begin

text \<open>
  Peer discovery of \<open>internal/cluster/discovery.go\<close>: the health state machine of the configured seeds. A probe
  is the answer of a peer's node endpoint or the error that kept it away; times are clock readings, 0 is
  Go's zero time. The polls of one round touch different entries, so their order does not matter.
\<close>

subsection \<open>Peers\<close>

definition MaxPeerSeeds :: nat where
  "MaxPeerSeeds = 256"

text \<open>\<open>PeerZero\<close> is the empty string, the state of Go's zero \<open>Peer\<close>.\<close>

datatype PeerState = PeerZero | PeerUnknown | PeerHealthy | PeerSuspected | PeerUnhealthy | PeerRecovering

record Peer =
  SeedURL :: string
  pr_NodeID :: string
  pr_ClusterID :: string
  AdvertiseAddress :: string
  MetadataEpoch :: u64
  pr_ReplicationFactor :: int
  PlacementCapacity :: u32
  MinProtocolVersion :: u32
  ProtocolVersion :: u32
  NegotiatedProtocol :: u32
  MembershipDigest :: string
  CatalogDigest :: string
  PlacementDigest :: string
  Healthy :: bool
  pr_State :: PeerState
  ConsecutiveFailures :: u32
  ConsecutiveSuccesses :: u32
  LastTransition :: nat
  LastSeen :: nat
  LastChecked :: nat
  pr_Error :: string

definition zeroPeer :: Peer where
  "zeroPeer =
     \<lparr>SeedURL = [], pr_NodeID = [], pr_ClusterID = [], AdvertiseAddress = [], MetadataEpoch = 0, pr_ReplicationFactor = 0,
      PlacementCapacity = 0, MinProtocolVersion = 0, ProtocolVersion = 0, NegotiatedProtocol = 0, MembershipDigest = [],
      CatalogDigest = [], PlacementDigest = [], Healthy = False, pr_State = PeerZero, ConsecutiveFailures = 0,
      ConsecutiveSuccesses = 0, LastTransition = 0, LastSeen = 0, LastChecked = 0, pr_Error = []\<rparr>"

record Discovery =
  localNodeID :: string
  clusterID :: string
  peers :: "(string \<times> Peer) list"

text \<open>\<open>normalizeSeed\<close> parses a URL with \<open>net/url\<close>; it is an argument.\<close>

definition NewDiscovery :: "(string \<Rightarrow> string result) \<Rightarrow> nat \<Rightarrow> string \<Rightarrow> string \<Rightarrow> string list \<Rightarrow> Discovery result" where
  "NewDiscovery normalizeSeed now local cluster seeds =
     (if \<not> ValidNodeID local then Inl (ErrMsg ''valid local node ID is required'')
      else if \<not> ValidNodeID cluster then Inl (ErrMsg ''valid cluster ID is required'')
      else if length seeds > MaxPeerSeeds then Inl (ErrMsg ''peer seed count exceeds limit'')
      else
        foldR (\<lambda>seed d. and_then (normalizeSeed seed) (\<lambda>normalized.
            if map_of (peers d) normalized \<noteq> None then Inl (ErrMsg ''duplicate peer seed'')
            else Inr (d\<lparr>peers := AList.update normalized
                         (zeroPeer\<lparr>SeedURL := normalized, pr_State := PeerUnknown, LastTransition := now\<rparr>) (peers d)\<rparr>)))
          seeds \<lparr>localNodeID = local, clusterID = cluster, peers = []\<rparr>)"

definition previousPeer :: "Discovery \<Rightarrow> string \<Rightarrow> Peer" where
  "previousPeer d seed = (case map_of (peers d) seed of None \<Rightarrow> zeroPeer | Some p \<Rightarrow> p)"

text \<open>What a failed probe takes over from the entry before it.\<close>

definition keepIdentity :: "Peer \<Rightarrow> Peer \<Rightarrow> Peer" where
  "keepIdentity previous peer =
     peer\<lparr>pr_NodeID := pr_NodeID previous, pr_ClusterID := pr_ClusterID previous,
          AdvertiseAddress := AdvertiseAddress previous, LastSeen := LastSeen previous,
          MetadataEpoch := MetadataEpoch previous, pr_ReplicationFactor := pr_ReplicationFactor previous,
          PlacementCapacity := PlacementCapacity previous, MembershipDigest := MembershipDigest previous,
          CatalogDigest := CatalogDigest previous, PlacementDigest := PlacementDigest previous,
          MinProtocolVersion := MinProtocolVersion previous, ProtocolVersion := ProtocolVersion previous,
          NegotiatedProtocol := NegotiatedProtocol previous\<rparr>"

definition storeFailure :: "Peer \<Rightarrow> Peer \<Rightarrow> Peer" where
  "storeFailure previous peer =
     (let p = keepIdentity previous peer; failures = min (ConsecutiveFailures previous + 1) 3 in
      p\<lparr>ConsecutiveFailures := failures, ConsecutiveSuccesses := 0,
        pr_State := (if pr_NodeID previous = [] then PeerUnknown
                     else if failures \<ge> 3 then PeerUnhealthy else PeerSuspected)\<rparr>)"

definition storeSuccess :: "Peer \<Rightarrow> Peer \<Rightarrow> Peer" where
  "storeSuccess previous peer =
     (let successes = min (ConsecutiveSuccesses previous + 1) 2;
          p = peer\<lparr>ConsecutiveFailures := 0, ConsecutiveSuccesses := successes\<rparr> in
      if pr_State previous \<in> {PeerSuspected, PeerUnhealthy, PeerRecovering} \<and> successes < 2
      then p\<lparr>pr_State := PeerRecovering, Healthy := False\<rparr>
      else p\<lparr>pr_State := PeerHealthy\<rparr>)"

definition store :: "Discovery \<Rightarrow> Peer \<Rightarrow> Discovery" where
  "store d peer =
     (let previous = previousPeer d (SeedURL peer);
          p = (if \<not> Healthy peer then storeFailure previous peer else storeSuccess previous peer);
          p' = p\<lparr>LastTransition := if pr_State p \<noteq> pr_State previous then LastChecked p else LastTransition previous\<rparr> in
      d\<lparr>peers := AList.update (SeedURL p') p' (peers d)\<rparr>)"

definition storeTerminal :: "Discovery \<Rightarrow> Peer \<Rightarrow> Discovery" where
  "storeTerminal d peer =
     (let previous = previousPeer d (SeedURL peer);
          p = (keepIdentity previous peer)\<lparr>Healthy := False, pr_State := PeerUnhealthy,
                ConsecutiveFailures := min (ConsecutiveFailures previous + 1) 3, ConsecutiveSuccesses := 0\<rparr>;
          p' = p\<lparr>LastTransition := if pr_State previous \<noteq> PeerUnhealthy then LastChecked p else LastTransition previous\<rparr> in
      d\<lparr>peers := AList.update (SeedURL p') p' (peers d)\<rparr>)"

subsection \<open>Polling\<close>

text \<open>The fields of the node endpoint's answer that are read.\<close>

record node_body =
  b_NodeID :: string
  b_ClusterID :: string
  b_AdvertiseAddress :: string
  b_MetadataEpoch :: u64
  b_ReplicationFactor :: int
  b_PlacementCapacity :: u32
  b_MinProtocolVersion :: u32
  b_ProtocolVersion :: u32
  b_MembershipDigest :: string
  b_CatalogDigest :: string
  b_PlacementDigest :: string

datatype probe = Failed string | Answered node_body

definition MinClusterProtocolVersion :: u32 where
  "MinClusterProtocolVersion = 1"

definition ClusterProtocolVersion :: u32 where
  "ClusterProtocolVersion = 2"

text \<open>An answer without protocol versions comes from a node that only speaks version 1.\<close>

definition bodyProtocol :: "node_body \<Rightarrow> u32 \<times> u32" where
  "bodyProtocol b =
     (if b_ProtocolVersion b = 0 then (1, 1)
      else if b_MinProtocolVersion b = 0 then (b_ProtocolVersion b, b_ProtocolVersion b)
      else (b_MinProtocolVersion b, b_ProtocolVersion b))"

definition bodyCapacity :: "node_body \<Rightarrow> u32" where
  "bodyCapacity b = (if b_PlacementCapacity b = 0 then 1 else b_PlacementCapacity b)"

definition pollOne :: "string \<Rightarrow> nat \<Rightarrow> probe \<Rightarrow> Discovery \<Rightarrow> Discovery" where
  "pollOne seed checked answer d =
     (let peer = zeroPeer\<lparr>SeedURL := seed, LastChecked := checked\<rparr> in
      case answer of
        Failed message \<Rightarrow> store d (peer\<lparr>pr_Error := message\<rparr>)
      | Answered b \<Rightarrow>
          if \<not> ValidNodeID (b_NodeID b) \<or> b_AdvertiseAddress b = []
          then storeTerminal d (peer\<lparr>pr_Error := ''node response has invalid identity or missing advertised address''\<rparr>)
          else if b_ClusterID b \<noteq> clusterID d
          then storeTerminal d (peer\<lparr>pr_Error := ''peer belongs to a different cluster''\<rparr>)
          else if b_NodeID b = localNodeID d then d\<lparr>peers := AList.delete seed (peers d)\<rparr>
          else
            let p1 = peer\<lparr>pr_NodeID := b_NodeID b, pr_ClusterID := b_ClusterID b,
                          AdvertiseAddress := b_AdvertiseAddress b, Healthy := True, LastSeen := checked\<rparr> in
            if bodyCapacity b > MaxPlacementCapacity
            then storeTerminal d (p1\<lparr>pr_Error := ''node response has invalid placement capacity''\<rparr>)
            else
              (case NegotiateProtocol MinClusterProtocolVersion ClusterProtocolVersion
                      (fst (bodyProtocol b)) (snd (bodyProtocol b)) of
                 Inl _ \<Rightarrow> storeTerminal d (p1\<lparr>pr_Error := ''incompatible cluster protocol''\<rparr>)
               | Inr negotiated \<Rightarrow>
                   store d (p1\<lparr>MetadataEpoch := b_MetadataEpoch b, pr_ReplicationFactor := b_ReplicationFactor b,
                     PlacementCapacity := bodyCapacity b, MembershipDigest := b_MembershipDigest b,
                     CatalogDigest := b_CatalogDigest b, PlacementDigest := b_PlacementDigest b,
                     MinProtocolVersion := fst (bodyProtocol b), ProtocolVersion := snd (bodyProtocol b),
                     NegotiatedProtocol := negotiated\<rparr>)))"

text \<open>The seeds that report the same node ID without an error.\<close>

definition sameNode :: "(string \<times> Peer) list \<Rightarrow> string \<Rightarrow> string list" where
  "sameNode ps nodeID = map fst (filter (\<lambda>(seed, p). pr_Error p = [] \<and> pr_NodeID p \<noteq> [] \<and> pr_NodeID p = nodeID) ps)"

definition markDuplicate :: "nat \<Rightarrow> Peer \<Rightarrow> Peer" where
  "markDuplicate n p =
     p\<lparr>Healthy := False, pr_State := PeerUnhealthy, ConsecutiveFailures := 3, ConsecutiveSuccesses := 0,
       LastTransition := (if LastTransition p = 0 \<or> pr_State p \<noteq> PeerUnhealthy then LastChecked p else LastTransition p),
       pr_Error := ''duplicate node ID '' @ pr_NodeID p @ '' reported by '' @ show_nat n @ '' peer seeds''\<rparr>"

definition reconcileDuplicateNodeIDs :: "Discovery \<Rightarrow> Discovery" where
  "reconcileDuplicateNodeIDs d =
     d\<lparr>peers := map (\<lambda>(seed, p).
         let n = length (sameNode (peers d) (pr_NodeID p)) in
         (seed, if pr_Error p = [] \<and> pr_NodeID p \<noteq> [] \<and> n \<ge> 2 then markDuplicate n p else p)) (peers d)\<rparr>"

definition Poll :: "(string \<Rightarrow> nat \<times> probe) \<Rightarrow> Discovery \<Rightarrow> Discovery" where
  "Poll answers d =
     reconcileDuplicateNodeIDs
       (fold (\<lambda>seed d. pollOne seed (fst (answers seed)) (snd (answers seed)) d) (map fst (peers d)) d)"

definition PeersOf :: "Discovery \<Rightarrow> Peer list" where
  "PeersOf d = sort_key SeedURL (map snd (peers d))"

subsection \<open>The invariant of the table\<close>

definition known_ok :: "string \<Rightarrow> string \<Rightarrow> Peer \<Rightarrow> bool" where
  "known_ok local cluster p \<longleftrightarrow>
     (pr_NodeID p \<noteq> [] \<longrightarrow>
        ValidNodeID (pr_NodeID p) \<and> pr_NodeID p \<noteq> local \<and> pr_ClusterID p = cluster \<and> AdvertiseAddress p \<noteq> []
        \<and> 1 \<le> PlacementCapacity p \<and> PlacementCapacity p \<le> MaxPlacementCapacity
        \<and> NegotiatedProtocol p \<in> {MinClusterProtocolVersion..ClusterProtocolVersion})"

definition peer_ok :: "string \<Rightarrow> string \<Rightarrow> Peer \<Rightarrow> bool" where
  "peer_ok local cluster p \<longleftrightarrow>
     known_ok local cluster p \<and> (Healthy p \<longleftrightarrow> pr_State p = PeerHealthy)
     \<and> (Healthy p \<longrightarrow> pr_NodeID p \<noteq> [] \<and> pr_Error p = []) \<and> pr_State p \<noteq> PeerZero
     \<and> ConsecutiveFailures p \<le> 3 \<and> ConsecutiveSuccesses p \<le> 2
     \<and> (pr_State p = PeerRecovering \<longrightarrow> ConsecutiveSuccesses p = 1)
     \<and> (pr_State p = PeerSuspected \<longrightarrow> ConsecutiveFailures p \<in> {1, 2})"

definition table_ok :: "Discovery \<Rightarrow> bool" where
  "table_ok d \<longleftrightarrow> distinct (map fst (peers d)) \<and> ValidNodeID (localNodeID d)
     \<and> (\<forall>seed p. map_of (peers d) seed = Some p \<longrightarrow> SeedURL p = seed \<and> peer_ok (localNodeID d) (clusterID d) p)"

definition prev_ok :: "Discovery \<Rightarrow> Peer \<Rightarrow> bool" where
  "prev_ok d p \<longleftrightarrow> known_ok (localNodeID d) (clusterID d) p \<and> ConsecutiveFailures p \<le> 3 \<and> ConsecutiveSuccesses p \<le> 2"

lemma previousPeer_ok: "table_ok d \<Longrightarrow> prev_ok d (previousPeer d seed)"
  by (auto simp: previousPeer_def prev_ok_def table_ok_def peer_ok_def zeroPeer_def known_ok_def split: option.splits)

lemma known_keepIdentity [simp]: "known_ok l c (keepIdentity q p) = known_ok l c q"
  by (simp add: known_ok_def keepIdentity_def)

lemma known_frame [simp]:
  "known_ok l c (p\<lparr>Healthy := h\<rparr>) = known_ok l c p" "known_ok l c (p\<lparr>pr_State := s\<rparr>) = known_ok l c p"
  "known_ok l c (p\<lparr>ConsecutiveFailures := f\<rparr>) = known_ok l c p"
  "known_ok l c (p\<lparr>ConsecutiveSuccesses := g\<rparr>) = known_ok l c p"
  "known_ok l c (p\<lparr>LastTransition := t\<rparr>) = known_ok l c p" "known_ok l c (p\<lparr>pr_Error := e\<rparr>) = known_ok l c p"
  by (simp_all add: known_ok_def)

lemma peer_ok_transition [simp]: "peer_ok l c (p\<lparr>LastTransition := t\<rparr>) = peer_ok l c p"
  by (simp add: peer_ok_def)

lemma count_facts:
  "(min (f + 1) 3 :: u32) \<le> 3" "(min (f + 1) 2 :: u32) \<le> 2"
  "f \<le> 3 \<Longrightarrow> \<not> 3 \<le> (min (f + 1) 3 :: u32) \<Longrightarrow> min (f + 1) 3 = 1 \<or> min (f + 1) 3 = (2 :: u32)"
  "f \<le> 2 \<Longrightarrow> (min (f + 1) 2 :: u32) < 2 \<Longrightarrow> min (f + 1) 2 = (1 :: u32)"
proof -
  show "(min (f + 1) 3 :: u32) \<le> 3" "(min (f + 1) 2 :: u32) \<le> 2" by simp_all
  have three: "f = 0 \<or> f = 1 \<or> f = 2 \<or> f = 3" if "f \<le> 3"
    using that by (simp add: word_le_nat_alt word_unat_eq_iff) linarith
  then show "f \<le> 3 \<Longrightarrow> \<not> 3 \<le> (min (f + 1) 3 :: u32) \<Longrightarrow> min (f + 1) 3 = 1 \<or> min (f + 1) 3 = (2 :: u32)"
    by (auto simp: min_def)
  have "f = 0 \<or> f = 1 \<or> f = 2" if "f \<le> 2"
    using that by (simp add: word_le_nat_alt word_unat_eq_iff) linarith
  then show "f \<le> 2 \<Longrightarrow> (min (f + 1) 2 :: u32) < 2 \<Longrightarrow> min (f + 1) 2 = (1 :: u32)"
    by (auto simp: min_def)
qed

lemma storeFailure_ok:
  assumes "prev_ok d q" and "\<not> Healthy p"
  shows "peer_ok (localNodeID d) (clusterID d) (storeFailure q p)"
proof -
  have k: "Healthy (keepIdentity q p) = Healthy p" by (simp add: keepIdentity_def)
  show ?thesis
    using assms count_facts(1,3) [of "ConsecutiveFailures q"] k
    by (auto simp: storeFailure_def peer_ok_def prev_ok_def Let_def simp del: min.bounded_iff)
qed

lemma storeSuccess_ok:
  assumes "prev_ok d q" and "known_ok (localNodeID d) (clusterID d) p" "pr_NodeID p \<noteq> []" "Healthy p" "pr_Error p = []"
  shows "peer_ok (localNodeID d) (clusterID d) (storeSuccess q p)"
  using assms count_facts(2,4) [of "ConsecutiveSuccesses q"]
  by (auto simp: storeSuccess_def peer_ok_def prev_ok_def Let_def simp del: min.bounded_iff)

lemma table_update:
  assumes "table_ok d" and "peer_ok (localNodeID d) (clusterID d) p" and "SeedURL p = seed"
  shows "table_ok (d\<lparr>peers := AList.update seed p (peers d)\<rparr>)"
  using assms by (auto simp: table_ok_def update_conv' distinct_update split: if_splits)

lemma SeedURL_kept [simp]:
  "SeedURL (storeFailure q p) = SeedURL p" "SeedURL (storeSuccess q p) = SeedURL p" "SeedURL (keepIdentity q p) = SeedURL p"
  by (simp_all add: storeFailure_def storeSuccess_def keepIdentity_def Let_def)

lemma store_ok:
  assumes "table_ok d"
    and "Healthy p \<Longrightarrow> known_ok (localNodeID d) (clusterID d) p \<and> pr_NodeID p \<noteq> [] \<and> pr_Error p = []"
  shows "table_ok (store d p)"
  unfolding store_def Let_def
  by (rule table_update [OF assms(1)])
    (use assms storeFailure_ok storeSuccess_ok previousPeer_ok in auto)

lemma storeTerminal_ok: "table_ok d \<Longrightarrow> table_ok (storeTerminal d p)"
  unfolding storeTerminal_def Let_def
  by (rule table_update)
    (use previousPeer_ok [of d "SeedURL p"] in \<open>auto simp: peer_ok_def prev_ok_def simp del: min.bounded_iff\<close>)

lemma pollOne_ok:
  assumes "table_ok d"
  shows "table_ok (pollOne seed t a d)" and "localNodeID (pollOne seed t a d) = localNodeID d"
    and "clusterID (pollOne seed t a d) = clusterID d"
proof -
  show "localNodeID (pollOne seed t a d) = localNodeID d" "clusterID (pollOne seed t a d) = clusterID d"
    by (auto simp: pollOne_def Let_def store_def storeTerminal_def split: probe.splits sum.splits)
  show "table_ok (pollOne seed t a d)"
  proof (cases a)
    case (Failed m)
    then show ?thesis using assms by (auto simp: pollOne_def Let_def zeroPeer_def intro!: store_ok)
  next
    case (Answered b)
    have del: "table_ok (d\<lparr>peers := AList.delete seed (peers d)\<rparr>)"
      using assms by (auto simp: table_ok_def delete_conv' distinct_delete split: if_splits)
    have cap: "1 \<le> bodyCapacity b" by (simp add: bodyCapacity_def word_le_nat_alt word_unat_eq_iff)
    show ?thesis
      using assms del cap Answered
      by (auto simp: pollOne_def Let_def known_ok_def NegotiateProtocol_newest zeroPeer_def
          split: sum.splits intro!: store_ok storeTerminal_ok)
  qed
qed

definition reconciled :: "(string \<times> Peer) list \<Rightarrow> Peer \<Rightarrow> Peer" where
  "reconciled ps p =
     (let n = length (sameNode ps (pr_NodeID p)) in
      if pr_Error p = [] \<and> pr_NodeID p \<noteq> [] \<and> n \<ge> 2 then markDuplicate n p else p)"

lemma reconcile_map:
  "peers (reconcileDuplicateNodeIDs d) = map (\<lambda>(seed, p). (seed, reconciled (peers d) p)) (peers d)"
  by (simp add: reconcileDuplicateNodeIDs_def reconciled_def Let_def cong: map_cong)

lemma map_of_reconcile:
  "map_of (peers (reconcileDuplicateNodeIDs d)) seed = map_option (reconciled (peers d)) (map_of (peers d) seed)"
  by (simp add: reconcile_map map_of_map)

lemma reconciled_ok: "peer_ok l c p \<Longrightarrow> peer_ok l c (reconciled ps p)"
  by (auto simp: reconciled_def Let_def markDuplicate_def peer_ok_def)

lemma reconciled_seed [simp]: "SeedURL (reconciled ps p) = SeedURL p"
  by (simp add: reconciled_def Let_def markDuplicate_def)

lemma reconcile_ok:
  assumes "table_ok d"
  shows "table_ok (reconcileDuplicateNodeIDs d)"
proof -
  have "map fst (peers (reconcileDuplicateNodeIDs d)) = map fst (peers d)" by (auto simp: reconcile_map)
  moreover have "localNodeID (reconcileDuplicateNodeIDs d) = localNodeID d" "clusterID (reconcileDuplicateNodeIDs d) = clusterID d"
    by (simp_all add: reconcileDuplicateNodeIDs_def)
  ultimately show ?thesis
    using assms by (auto simp: table_ok_def map_of_reconcile reconciled_ok)
qed

lemma sameNode_two:
  assumes "map_of ps s = Some p" and "map_of ps t = Some q" and "s \<noteq> t"
    and "pr_NodeID p = pr_NodeID q" "pr_NodeID p \<noteq> []" "pr_Error p = []" "pr_Error q = []"
  shows "length (sameNode ps (pr_NodeID p)) \<ge> 2"
proof -
  have "s \<in> set (sameNode ps (pr_NodeID p))" "t \<in> set (sameNode ps (pr_NodeID p))"
    using assms by (force simp: sameNode_def dest!: map_of_SomeD)+
  then have "card {s, t} \<le> card (set (sameNode ps (pr_NodeID p)))" by (intro card_mono) auto
  then show ?thesis using assms(3) card_length [of "sameNode ps (pr_NodeID p)"] by simp
qed

text \<open>After reconciling, healthy entries have different node IDs.\<close>

lemma reconcile_unique:
  assumes "table_ok d" and "map_of (peers (reconcileDuplicateNodeIDs d)) s = Some p"
    and "map_of (peers (reconcileDuplicateNodeIDs d)) t = Some q"
    and "Healthy p" "Healthy q" "pr_NodeID p = pr_NodeID q"
  shows "s = t"
proof (rule ccontr)
  assume ne: "s \<noteq> t"
  obtain p0 q0 where o: "map_of (peers d) s = Some p0" "p = reconciled (peers d) p0"
      "map_of (peers d) t = Some q0" "q = reconciled (peers d) q0"
    using assms(2,3) unfolding map_of_reconcile map_option_eq_Some by blast
  have "\<not> Healthy (markDuplicate n x)" for n x by (simp add: markDuplicate_def)
  then have "reconciled ps x = x" if "Healthy (reconciled ps x)" for ps x
    using that unfolding reconciled_def Let_def by presburger
  then have same: "p = p0" "q = q0" using assms(4,5) unfolding o(2,4) by simp_all
  have "pr_NodeID p \<noteq> []" "pr_Error p = []" "pr_Error q = []"
    using assms(1,4,5) o(1,3) same by (auto simp: table_ok_def peer_ok_def)
  then have "length (sameNode (peers d) (pr_NodeID p0)) \<ge> 2"
    using sameNode_two [OF o(1,3) ne] assms(6) same by simp
  then have "\<not> Healthy (reconciled (peers d) p0)"
    using \<open>pr_NodeID p \<noteq> []\<close> \<open>pr_Error p = []\<close> same by (simp add: reconciled_def markDuplicate_def)
  then show False using assms(4) o(2) by simp
qed

lemma fold_pollOne_ok:
  assumes "table_ok d"
  shows "table_ok (fold (\<lambda>seed d. pollOne seed (fst (A seed)) (snd (A seed)) d) seeds d)
    \<and> localNodeID (fold (\<lambda>seed d. pollOne seed (fst (A seed)) (snd (A seed)) d) seeds d) = localNodeID d
    \<and> clusterID (fold (\<lambda>seed d. pollOne seed (fst (A seed)) (snd (A seed)) d) seeds d) = clusterID d"
  using assms by (induction seeds arbitrary: d) (simp_all add: pollOne_ok)

lemma Poll_ok:
  assumes "table_ok d"
  shows "table_ok (Poll A d)" and "localNodeID (Poll A d) = localNodeID d" and "clusterID (Poll A d) = clusterID d"
proof -
  show "table_ok (Poll A d)" unfolding Poll_def by (rule reconcile_ok) (use fold_pollOne_ok [OF assms] in blast)
  show "localNodeID (Poll A d) = localNodeID d" "clusterID (Poll A d) = clusterID d"
    using fold_pollOne_ok [OF assms, of A "map fst (peers d)"]
    by (simp_all add: Poll_def reconcileDuplicateNodeIDs_def)
qed

lemma NewDiscovery_ok:
  assumes "NewDiscovery norm now l c seeds = Inr d"
  shows "table_ok d" and "localNodeID d = l" and "clusterID d = c"
proof -
  have v: "ValidNodeID l" using assms by (auto simp: NewDiscovery_def split: if_splits)
  let ?P = "\<lambda>d. table_ok d \<and> localNodeID d = l \<and> clusterID d = c"
  have peer: "peer_ok l' c' (zeroPeer\<lparr>SeedURL := s, pr_State := PeerUnknown\<rparr>)" for s l' c'
    by (simp add: peer_ok_def known_ok_def zeroPeer_def)
  have step: "foldR (\<lambda>seed d. and_then (norm seed) (\<lambda>normalized.
            if map_of (peers d) normalized \<noteq> None then Inl (ErrMsg ''duplicate peer seed'')
            else Inr (d\<lparr>peers := AList.update normalized
                         (zeroPeer\<lparr>SeedURL := normalized, pr_State := PeerUnknown, LastTransition := now\<rparr>) (peers d)\<rparr>)))
          seeds \<lparr>localNodeID = l, clusterID = c, peers = []\<rparr> = Inr d"
    using assms by (auto simp: NewDiscovery_def split: if_splits)
  have "?P d"
    by (rule foldR_inv [OF step, where P = ?P])
      (use v in \<open>auto simp: table_ok_def [of "\<lparr>localNodeID = l, clusterID = c, peers = []\<rparr>"] and_then_Inr_iff peer
         intro!: table_update split: if_splits\<close>)
  then show "table_ok d" "localNodeID d = l" "clusterID d = c" by simp_all
qed

text \<open>A run of the discovery loop: rounds of polls after the table was created.\<close>

definition run_polls :: "(string \<Rightarrow> nat \<times> probe) list \<Rightarrow> Discovery \<Rightarrow> Discovery" where
  "run_polls rounds d = fold Poll rounds d"

lemma run_polls_ok:
  assumes "table_ok d"
  shows "table_ok (run_polls rounds d)" and "localNodeID (run_polls rounds d) = localNodeID d"
    and "clusterID (run_polls rounds d) = clusterID d"
proof -
  have "table_ok (fold Poll rounds d) \<and> localNodeID (fold Poll rounds d) = localNodeID d \<and> clusterID (fold Poll rounds d) = clusterID d"
    using assms by (induction rounds arbitrary: d) (simp_all add: Poll_ok)
  then show "table_ok (run_polls rounds d)" "localNodeID (run_polls rounds d) = localNodeID d"
    "clusterID (run_polls rounds d) = clusterID d" by (simp_all add: run_polls_def)
qed

text \<open>
  C21: Whatever the seeds answer over any number of poll rounds, a peer is reported healthy only if its last
  answers identified it as a different node of this cluster with a valid node ID, an address, a
  capacity between 1 and 256 and a protocol both sides speak, and after each round no two healthy
  entries share a node ID.
\<close>

theorem healthy_peers_are_sound:
  assumes "NewDiscovery norm now l c seeds = Inr d" and "d' = Poll A (run_polls rounds d)"
    and "map_of (peers d') s = Some p" and "Healthy p"
  shows "ValidNodeID (pr_NodeID p) \<and> pr_NodeID p \<noteq> l \<and> pr_ClusterID p = c \<and> AdvertiseAddress p \<noteq> []
    \<and> 1 \<le> PlacementCapacity p \<and> PlacementCapacity p \<le> 256 \<and> 1 \<le> NegotiatedProtocol p \<and> NegotiatedProtocol p \<le> 2
    \<and> {t. \<exists>q. map_of (peers d') t = Some q \<and> Healthy q \<and> pr_NodeID q = pr_NodeID p} = {s}"
proof -
  note nd = NewDiscovery_ok [OF assms(1)]
  note r = run_polls_ok [OF nd(1), of rounds]
  have ok: "table_ok d'" "localNodeID d' = l" "clusterID d' = c"
    using Poll_ok [OF r(1), of A] r nd assms(2) by simp_all
  have "peer_ok l c p" using ok assms(3) by (auto simp: table_ok_def)
  then have k: "known_ok l c p" "pr_NodeID p \<noteq> []" using assms(4) by (auto simp: peer_ok_def)
  let ?e = "fold (\<lambda>seed d. pollOne seed (fst (A seed)) (snd (A seed)) d) (map fst (peers (run_polls rounds d))) (run_polls rounds d)"
  have e: "table_ok ?e" "d' = reconcileDuplicateNodeIDs ?e"
    using fold_pollOne_ok [OF r(1)] assms(2) by (simp_all add: Poll_def)
  have "t = s" if "map_of (peers d') t = Some q" "Healthy q" "pr_NodeID q = pr_NodeID p" for t q
    using reconcile_unique [OF e(1), of t q s p] that assms(3,4) e(2) by simp
  then have "{t. \<exists>q. map_of (peers d') t = Some q \<and> Healthy q \<and> pr_NodeID q = pr_NodeID p} = {s}"
    using assms(3,4) by blast
  then show ?thesis
    using k by (simp add: known_ok_def MaxPlacementCapacity_def MinClusterProtocolVersion_def ClusterProtocolVersion_def)
qed

subsection \<open>Convergence of the health state\<close>

text \<open>An answer that the poll accepts.\<close>

definition accepted :: "Discovery \<Rightarrow> node_body \<Rightarrow> bool" where
  "accepted d b \<longleftrightarrow>
     ValidNodeID (b_NodeID b) \<and> b_AdvertiseAddress b \<noteq> [] \<and> b_ClusterID b = clusterID d \<and> b_NodeID b \<noteq> localNodeID d
     \<and> bodyCapacity b \<le> MaxPlacementCapacity
     \<and> is_ok (NegotiateProtocol MinClusterProtocolVersion ClusterProtocolVersion (fst (bodyProtocol b)) (snd (bodyProtocol b)))"

lemma pollOne_accepted:
  assumes "accepted d b"
  obtains q where "pollOne seed t (Answered b) d = store d q" "SeedURL q = seed" "Healthy q" "pr_NodeID q = b_NodeID b" "pr_Error q = []"
proof -
  obtain v where "NegotiateProtocol MinClusterProtocolVersion ClusterProtocolVersion (fst (bodyProtocol b)) (snd (bodyProtocol b)) = Inr v"
    using assms by (auto simp: accepted_def elim: is_okE)
  then show ?thesis
    using assms that by (simp add: pollOne_def Let_def accepted_def not_less [symmetric] zeroPeer_def)
qed

lemma map_of_store:
  "map_of (peers (store d q)) (SeedURL q)
    = Some ((if Healthy q then storeSuccess (previousPeer d (SeedURL q)) q else storeFailure (previousPeer d (SeedURL q)) q)
        \<lparr>LastTransition := LastTransition (the (map_of (peers (store d q)) (SeedURL q)))\<rparr>)"
  by (simp add: store_def Let_def update_conv')

lemma store_entry:
  obtains t where "map_of (peers (store d q)) (SeedURL q)
    = Some ((if Healthy q then storeSuccess (previousPeer d (SeedURL q)) q else storeFailure (previousPeer d (SeedURL q)) q)
        \<lparr>LastTransition := t\<rparr>)"
  using map_of_store by blast

lemma store_ids [simp]: "localNodeID (store d q) = localNodeID d" "clusterID (store d q) = clusterID d"
  by (simp_all add: store_def Let_def)

lemma pollOne_failed:
  assumes "map_of (peers d) seed = Some p" and "pr_NodeID p \<noteq> []"
  obtains q where "map_of (peers (pollOne seed t (Failed m) d)) seed = Some q" "\<not> Healthy q"
    "pr_NodeID q = pr_NodeID p" "AdvertiseAddress q = AdvertiseAddress p" "PlacementCapacity q = PlacementCapacity p"
    "ConsecutiveFailures q = min (ConsecutiveFailures p + 1) 3"
    "pr_State q = (if min (ConsecutiveFailures p + 1) 3 \<ge> 3 then PeerUnhealthy else PeerSuspected)"
proof -
  let ?q = "zeroPeer\<lparr>SeedURL := seed, LastChecked := t, pr_Error := m\<rparr>"
  have "pollOne seed t (Failed m) d = store d ?q" by (simp add: pollOne_def)
  moreover obtain u where "map_of (peers (store d ?q)) seed = Some ((storeFailure p ?q)\<lparr>LastTransition := u\<rparr>)"
    using store_entry [of d ?q] assms(1) by (auto simp: zeroPeer_def previousPeer_def)
  ultimately show ?thesis
    using that assms(2) by (simp add: storeFailure_def keepIdentity_def Let_def zeroPeer_def)
qed

lemma three_failures: "min (min (min (f + 1) 3 + 1) 3 + 1) 3 \<ge> (3 :: u32)" if "f \<le> 3" for f :: u32
proof -
  have "f = 0 \<or> f = 1 \<or> f = 2 \<or> f = 3"
    using that by (simp add: word_le_nat_alt word_unat_eq_iff) linarith
  then show ?thesis by auto
qed

text \<open>
  C22: The health state converges: from any reachable table, two accepted answers in a row make a peer
  healthy, and three failed probes in a row make a peer whose identity is known unhealthy while
  everything the placement reads about it (identity, address, capacity) stays as it was.
\<close>

theorem health_converges:
  assumes "table_ok d" and "accepted d b" and "accepted d b'" and "map_of (peers d) seed = Some p" and "pr_NodeID p \<noteq> []"
  shows "(\<exists>q. map_of (peers (pollOne seed t' (Answered b') (pollOne seed t (Answered b) d))) seed = Some q
        \<and> Healthy q \<and> pr_State q = PeerHealthy \<and> pr_NodeID q = b_NodeID b')
    \<and> (\<exists>q. map_of (peers (pollOne seed t3 (Failed m3) (pollOne seed t2 (Failed m2) (pollOne seed t1 (Failed m1) d)))) seed = Some q
        \<and> \<not> Healthy q \<and> pr_State q = PeerUnhealthy \<and> pr_NodeID q = pr_NodeID p
        \<and> AdvertiseAddress q = AdvertiseAddress p \<and> PlacementCapacity q = PlacementCapacity p)"
  (is "?good \<and> ?bad")
proof
  obtain q1 where q1: "pollOne seed t (Answered b) d = store d q1" "SeedURL q1 = seed" "Healthy q1"
    using pollOne_accepted [OF assms(2)] by blast
  have d1: "table_ok (store d q1)" using pollOne_ok(1) [OF assms(1), of seed t "Answered b"] q1(1) by simp
  have "accepted (store d q1) b'" using assms(3) by (simp add: accepted_def)
  then obtain q2 where q2: "pollOne seed t' (Answered b') (store d q1) = store (store d q1) q2" "SeedURL q2 = seed" "Healthy q2"
      "pr_NodeID q2 = b_NodeID b'"
    using pollOne_accepted by blast
  obtain u where u: "map_of (peers (store d q1)) seed = Some ((storeSuccess (previousPeer d seed) q1)\<lparr>LastTransition := u\<rparr>)"
    using store_entry [of d q1] q1(2,3) by auto
  have cs: "ConsecutiveSuccesses (previousPeer d seed) \<le> 2" using previousPeer_ok [OF assms(1)] by (simp add: prev_ok_def)
  have "\<not> min (ConsecutiveSuccesses (previousPeer (store d q1) seed) + 1) 2 < 2"
  proof -
    let ?s = "ConsecutiveSuccesses (previousPeer d seed)"
    have "ConsecutiveSuccesses (previousPeer (store d q1) seed) = min (?s + 1) 2"
      using u by (simp add: previousPeer_def storeSuccess_def Let_def)
    moreover have "?s = 0 \<or> ?s = 1 \<or> ?s = 2" using cs by (simp add: word_le_nat_alt word_unat_eq_iff) linarith
    ultimately show ?thesis by auto
  qed
  then have "pr_State (storeSuccess (previousPeer (store d q1) seed) q2) = PeerHealthy"
    "Healthy (storeSuccess (previousPeer (store d q1) seed) q2)"
    "pr_NodeID (storeSuccess (previousPeer (store d q1) seed) q2) = b_NodeID b'"
    using q2(3,4) by (simp_all add: storeSuccess_def Let_def)
  moreover obtain w where "map_of (peers (store (store d q1) q2)) seed
      = Some ((storeSuccess (previousPeer (store d q1) seed) q2)\<lparr>LastTransition := w\<rparr>)"
    using store_entry [of "store d q1" q2] q2(2,3) by auto
  ultimately show ?good unfolding q1(1) q2(1) by simp
next
  obtain q1 where q1: "map_of (peers (pollOne seed t1 (Failed m1) d)) seed = Some q1"
      "pr_NodeID q1 = pr_NodeID p" "AdvertiseAddress q1 = AdvertiseAddress p" "PlacementCapacity q1 = PlacementCapacity p"
      "ConsecutiveFailures q1 = min (ConsecutiveFailures p + 1) 3"
    using pollOne_failed [OF assms(4,5)] by metis
  obtain q2 where q2: "map_of (peers (pollOne seed t2 (Failed m2) (pollOne seed t1 (Failed m1) d))) seed = Some q2"
      "pr_NodeID q2 = pr_NodeID p" "AdvertiseAddress q2 = AdvertiseAddress p" "PlacementCapacity q2 = PlacementCapacity p"
      "ConsecutiveFailures q2 = min (ConsecutiveFailures q1 + 1) 3"
    using pollOne_failed [OF q1(1)] q1(2-4) assms(5) by metis
  have f: "ConsecutiveFailures p \<le> 3" using assms(1,4) by (auto simp: table_ok_def peer_ok_def)
  show ?bad
    using pollOne_failed [OF q2(1), of t3 m3] q2(2-5) q1(5) assms(5) three_failures [OF f] by metis
qed

subsection \<open>A concrete table\<close>

definition sample_body :: node_body where
  "sample_body = \<lparr>b_NodeID = sample_node (CHR ''3''), b_ClusterID = sample_node (CHR ''2''), b_AdvertiseAddress = ''x:1'',
    b_MetadataEpoch = 1, b_ReplicationFactor = 1, b_PlacementCapacity = 0, b_MinProtocolVersion = 0, b_ProtocolVersion = 2,
    b_MembershipDigest = [], b_CatalogDigest = [], b_PlacementDigest = []\<rparr>"

definition sample_table :: Discovery where
  "sample_table = \<lparr>localNodeID = sample_node (CHR ''1''), clusterID = sample_node (CHR ''2''),
    peers = [(''a'', zeroPeer\<lparr>SeedURL := ''a'', pr_State := PeerUnknown, LastTransition := 1\<rparr>)]\<rparr>"

definition sample_round :: "string \<Rightarrow> nat \<times> probe" where
  "sample_round seed = (2, Answered sample_body)"

lemma sample_new: "NewDiscovery Inr 1 (sample_node (CHR ''1'')) (sample_node (CHR ''2'')) [''a''] = Inr sample_table"
  by code_simp

lemma sample_entry:
  "map_option (\<lambda>p. (Healthy p, pr_NodeID p)) (map_of (peers (Poll sample_round (run_polls [] sample_table))) ''a'')
    = Some (True, sample_node (CHR ''3''))"
  by code_simp

theorem healthy_peers_are_sound_witness:
  "{t. \<exists>q. map_of (peers (Poll sample_round (run_polls [] sample_table))) t = Some q \<and> Healthy q
      \<and> pr_NodeID q = sample_node (CHR ''3'')} = {''a''}"
proof -
  obtain p where p: "map_of (peers (Poll sample_round (run_polls [] sample_table))) ''a'' = Some p" "Healthy p"
      "pr_NodeID p = sample_node (CHR ''3'')"
    using sample_entry by (auto simp del: fold_simps)
  show ?thesis using healthy_peers_are_sound [OF sample_new refl p(1,2)] p(3) by metis
qed

definition sample_known :: Discovery where
  "sample_known = Poll sample_round sample_table"

theorem health_converges_witness:
  "\<exists>q. map_of (peers (pollOne ''a'' 3 (Answered sample_body) (pollOne ''a'' 2 (Answered sample_body) sample_known))) ''a'' = Some q
     \<and> pr_State q = PeerHealthy"
proof -
  have ok: "table_ok sample_known" unfolding sample_known_def by (rule Poll_ok(1) [OF NewDiscovery_ok(1) [OF sample_new]])
  have a: "accepted sample_known sample_body" by code_simp
  have "map_option (\<lambda>p. pr_NodeID p \<noteq> []) (map_of (peers sample_known) ''a'') = Some True" by code_simp
  then obtain p where p: "map_of (peers sample_known) ''a'' = Some p" "pr_NodeID p \<noteq> []" by auto
  show ?thesis using health_converges [OF ok a a p, of 3 2] by blast
qed

end
