(* ===== verification/Go_Sort.thy ===== *)
theory Go_Sort
  imports Prelude "HOL-Library.Product_Lexorder"
begin

text \<open>
  Sorting and selection: \<open>sort.Slice\<close> with a comparison function, and the bounded binary heap that
  \<open>internal/index/flat/flat.go\<close> and \<open>internal/collection/collection.go\<close> each write out to keep the best
  results. The heap is an array updated in place. The locale \<open>ranked\<close> shows once that pushing, replacing
  the root and the final insertion sort select the best elements in order.
\<close>

subsection \<open>Sorting by a comparison\<close>

text \<open>\<open>sort.Slice\<close>: the result is determined by the comparison when that is a strict total order on the elements.\<close>

fun insertBy :: "('a \<Rightarrow> 'a \<Rightarrow> bool) \<Rightarrow> 'a \<Rightarrow> 'a list \<Rightarrow> 'a list" where
  "insertBy lt x [] = [x]"
| "insertBy lt x (y # ys) = (if lt y x then y # insertBy lt x ys else x # y # ys)"

definition sortBy :: "('a \<Rightarrow> 'a \<Rightarrow> bool) \<Rightarrow> 'a list \<Rightarrow> 'a list" where
  "sortBy lt xs = foldr (insertBy lt) xs []"

lemma mset_insertBy [simp]: "mset (insertBy lt x xs) = add_mset x (mset xs)"
  by (induction xs) auto

lemma mset_sortBy [simp]: "mset (sortBy lt xs) = mset xs"
  by (induction xs) (auto simp: sortBy_def)

lemma set_insertBy [simp]: "set (insertBy lt x xs) = insert x (set xs)"
  by (induction xs) auto

lemma set_sortBy [simp]: "set (sortBy lt xs) = set xs"
  by (metis mset_sortBy set_mset_mset)

lemma length_sortBy [simp]: "length (sortBy lt xs) = length xs"
  by (metis mset_sortBy size_mset)

lemma sorted_insertBy:
  assumes "\<And>x y z. lt x y \<Longrightarrow> lt y z \<Longrightarrow> lt x z" and "\<And>x y. \<not> lt x y \<Longrightarrow> lt y x \<or> x = y"
    and "sorted_wrt (\<lambda>x y. lt x y \<or> x = y) xs"
  shows "sorted_wrt (\<lambda>x y. lt x y \<or> x = y) (insertBy lt x xs)"
  using assms(3)
proof (induction xs)
  case (Cons y ys)
  show ?case
  proof (cases "lt y x")
    case True
    then show ?thesis using Cons by auto
  next
    case False
    then have "lt x y \<or> x = y" using assms(2) by blast
    then show ?thesis using False Cons.prems assms(1) by (auto; blast)
  qed
qed simp

lemma sorted_sortBy:
  assumes "\<And>x y z. lt x y \<Longrightarrow> lt y z \<Longrightarrow> lt x z" and "\<And>x y. \<not> lt x y \<Longrightarrow> lt y x \<or> x = y"
  shows "sorted_wrt (\<lambda>x y. lt x y \<or> x = y) (sortBy lt xs)"
  by (induction xs) (auto simp: sortBy_def intro: sorted_insertBy [OF assms])

text \<open>A comparison that compares keys sorts by the key.\<close>

lemma sortBy_key:
  assumes "\<And>a b. a \<in> set xs \<Longrightarrow> b \<in> set xs \<Longrightarrow> lt a b \<longleftrightarrow> key a < key b"
  shows "sortBy lt xs = sort_key key xs"
  using assms
proof (induction xs)
  case (Cons x xs)
  have "insertBy lt x ys = insort_key key x ys" if "set ys \<subseteq> set xs" for ys
    using that
  proof (induction ys)
    case (Cons y ys)
    then have "lt y x \<longleftrightarrow> key y < key x" using Cons.prems \<open>\<And>a b. a \<in> set (x # xs) \<Longrightarrow> b \<in> set (x # xs) \<Longrightarrow> lt a b \<longleftrightarrow> key a < key b\<close> by auto
    then show ?case using Cons by auto
  qed simp
  moreover have "sortBy lt xs = sort_key key xs" using Cons by simp
  ultimately show ?case by (simp add: sortBy_def)
qed (simp add: sortBy_def)

subsection \<open>Choosing the best\<close>

text \<open>\<open>best_k f k S T\<close>: the multiset \<open>T\<close> holds \<open>k\<close> elements of \<open>S\<close>, or all if there are fewer, and nothing left
  out has a smaller \<open>f\<close> than something chosen.\<close>

definition best_k :: "('a \<Rightarrow> 'k::linorder) \<Rightarrow> nat \<Rightarrow> 'a multiset \<Rightarrow> 'a multiset \<Rightarrow> bool" where
  "best_k f k S T \<longleftrightarrow>
     (\<exists>R. S = T + R \<and> size T \<le> k \<and> (size T < k \<longrightarrow> R = {#}) \<and> (\<forall>t \<in># T. \<forall>r \<in># R. f t \<le> f r))"

lemma best_kI:
  "S = T + R \<Longrightarrow> size T \<le> k \<Longrightarrow> (size T < k \<Longrightarrow> R = {#}) \<Longrightarrow> (\<And>t r. t \<in># T \<Longrightarrow> r \<in># R \<Longrightarrow> f t \<le> f r) \<Longrightarrow> best_k f k S T"
  by (auto simp: best_k_def)

lemma best_k_size: "best_k f k S T \<Longrightarrow> size T = min k (size S)"
  by (auto simp: best_k_def min_def)

lemma best_k_subset: "best_k f k S T \<Longrightarrow> T \<subseteq># S"
  by (auto simp: best_k_def)

lemma best_k_le: "best_k f k S T \<Longrightarrow> t \<in># T \<Longrightarrow> s \<in># S - T \<Longrightarrow> f t \<le> f s"
  by (auto simp: best_k_def)

lemma best_k_mono:
  assumes "best_k f k S T" and "\<And>a b. a \<in># S \<Longrightarrow> b \<in># S \<Longrightarrow> f a \<le> f b \<Longrightarrow> g a \<le> g b"
  shows "best_k g k S T"
proof -
  obtain R where R: "S = T + R" "size T \<le> k" "size T < k \<longrightarrow> R = {#}" "\<forall>t \<in># T. \<forall>r \<in># R. f t \<le> f r"
    using assms(1) by (auto simp: best_k_def)
  show ?thesis by (rule best_kI [OF R(1,2)]) (use R assms(2) in auto)
qed

lemma best_k_take_sort: "best_k f k (mset xs) (mset (take k (sort_key f xs)))"
proof (rule best_kI)
  let ?ys = "sort_key f xs"
  show "mset xs = mset (take k ?ys) + mset (drop k ?ys)" by (metis append_take_drop_id mset_append mset_sort)
  have "sorted (map f (take k ?ys @ drop k ?ys))" by simp
  then show "f t \<le> f r" if "t \<in># mset (take k ?ys)" "r \<in># mset (drop k ?ys)" for t r
    using that unfolding map_append sorted_append by auto
qed simp_all

lemma best_k_empty [simp]: "best_k f k {#} T \<longleftrightarrow> T = {#}"
  by (auto simp: best_k_def)

text \<open>Choosing from parts first and then from what they returned chooses from the whole.\<close>

lemma best_k_part:
  assumes "T1 + T2 = T + R" and "size T = k" and "size T1 = k" and "t \<in># T" and "t \<notin># T1"
  shows "\<exists>u. u \<in># T1 \<and> u \<in># R"
proof (rule ccontr)
  assume no: "\<not> (\<exists>u. u \<in># T1 \<and> u \<in># R)"
  have "T1 \<subseteq># T"
  proof (rule mset_subset_eqI)
    fix x
    have "count T1 x + count T2 x = count T x + count R x" using arg_cong [OF assms(1), of "\<lambda>m. count m x"] by simp
    moreover have "count T1 x = 0 \<or> count R x = 0" using no by (metis not_in_iff)
    ultimately show "count T1 x \<le> count T x" by linarith
  qed
  then have "T1 = T" using assms(2,3) by (metis mset_subset_size nless_le subset_mset.nless_le)
  then show False using assms(4,5) by simp
qed

lemma best_k_absorb:
  assumes "best_k f k S1 T1" and "best_k f k (T1 + X) T"
  shows "best_k f k (S1 + X) T"
proof -
  obtain R1 R where r1: "S1 = T1 + R1" "size T1 \<le> k" "size T1 < k \<longrightarrow> R1 = {#}" "\<forall>t \<in># T1. \<forall>r \<in># R1. f t \<le> f r"
    and r: "T1 + X = T + R" "size T \<le> k" "size T < k \<longrightarrow> R = {#}" "\<forall>t \<in># T. \<forall>r \<in># R. f t \<le> f r"
    using assms by (auto simp: best_k_def)
  have sizes: "size T1 + size X = size T + size R" using arg_cong [OF r(1), of size] by simp
  have part: "f t \<le> f s" if t: "t \<in># T" and s: "s \<in># R1" for t s
  proof -
    have full: "size T1 = k" using s r1(2,3) by (cases "size T1 < k") auto
    then have fullT: "size T = k" using r(2,3) sizes by (cases "size T < k") auto
    show ?thesis
    proof (cases "t \<in># T1")
      case True
      then show ?thesis using s r1(4) by blast
    next
      case False
      then obtain u where "u \<in># T1" "u \<in># R" using best_k_part [OF r(1) fullT full t] by blast
      then show ?thesis using r(4) r1(4) t s by (meson order_trans)
    qed
  qed
  show ?thesis
  proof (rule best_kI)
    show "S1 + X = T + (R + R1)" unfolding r1(1) using r(1) by (simp add: add.assoc add.left_commute)
    show "size T \<le> k" by (rule r(2))
    show "R + R1 = {#}" if "size T < k" using that r r1 sizes by auto
    show "f t \<le> f s" if "t \<in># T" "s \<in># R + R1" for t s using that r(4) part by auto
  qed
qed

lemma best_k_parts:
  assumes "list_all2 (\<lambda>S p. best_k f k S (mset p)) Ss parts" and "best_k f k (mset (concat parts) + X) T"
  shows "best_k f k (sum_list Ss + X) T"
  using assms
proof (induction arbitrary: X rule: list_all2_induct)
  case (Cons S Ss p parts)
  have "best_k f k (S + (mset (concat parts) + X)) T"
    by (rule best_k_absorb [OF Cons.hyps(1)]) (use Cons.prems in \<open>simp add: add.assoc\<close>)
  then show ?case using Cons.IH [of "S + X"] by (simp add: ac_simps)
qed simp

subsection \<open>The bounded heap\<close>

definition swap :: "'a list \<Rightarrow> nat \<Rightarrow> nat \<Rightarrow> 'a list" where
  "swap h i j = h[i := h ! j, j := h ! i]"

lemma length_swap [simp]: "length (swap h i j) = length h"
  by (simp add: swap_def)

lemma mset_swap_same [simp]: "i < length h \<Longrightarrow> j < length h \<Longrightarrow> mset (swap h i j) = mset h"
  by (simp add: swap_def mset_swap)

lemma nth_swap: "i < length h \<Longrightarrow> j < length h \<Longrightarrow> swap h i j ! x = (if x = j then h ! i else if x = i then h ! j else h ! x)"
  by (auto simp: swap_def nth_list_update)

text \<open>The loop that moves a new last element towards the root while it is worse than its parent.\<close>

function siftUp :: "('a \<Rightarrow> 'a \<Rightarrow> bool) \<Rightarrow> 'a list \<Rightarrow> nat \<Rightarrow> 'a list" where
  "siftUp worse h position =
     (if position > 0 then
        let parent = (position - 1) div 2 in
        if \<not> worse (h ! position) (h ! parent) then h else siftUp worse (swap h position parent) parent
      else h)"
  by pat_completeness auto
termination
  by (relation "measure (\<lambda>(w, h, p). p)") (auto simp: Let_def)

text \<open>The loop that moves a replaced root towards the leaves while one of its children is worse.\<close>

function siftDown :: "('a \<Rightarrow> 'a \<Rightarrow> bool) \<Rightarrow> 'a list \<Rightarrow> nat \<Rightarrow> 'a list" where
  "siftDown worse h position =
     (let left = position * 2 + 1 in
      if left \<ge> length h then h
      else
        let right = left + 1;
            worst = (if right < length h \<and> worse (h ! right) (h ! left) then right else left) in
        if \<not> worse (h ! worst) (h ! position) then h else siftDown worse (swap h position worst) worst)"
  by pat_completeness auto
termination
  by (relation "measure (\<lambda>(w, h, p). length h - p)") (auto simp: Let_def split: if_splits)

declare siftUp.simps [simp del] siftDown.simps [simp del]

text \<open>One element offered to a heap that keeps at most \<open>k\<close>.\<close>

definition offer :: "('a \<Rightarrow> 'a \<Rightarrow> bool) \<Rightarrow> ('a \<Rightarrow> 'a \<Rightarrow> bool) \<Rightarrow> int \<Rightarrow> 'a \<Rightarrow> 'a list \<Rightarrow> 'a list result" where
  "offer worse better k x h =
     (if int (length h) < k then Inr (siftUp worse (h @ [x]) (length h))
      else if h = [] then Inl GoPanic
      else if better x (h ! 0) then Inr (siftDown worse (h[0 := x]) 0)
      else Inr h)"

text \<open>The final insertion sort, in place: shift what the element precedes by one and put it into the gap.\<close>

fun shiftInsert :: "('a \<Rightarrow> 'a \<Rightarrow> bool) \<Rightarrow> 'a \<Rightarrow> 'a list \<Rightarrow> nat \<Rightarrow> 'a list" where
  "shiftInsert better x xs 0 = xs[0 := x]"
| "shiftInsert better x xs (Suc i) =
     (if better x (xs ! i) then shiftInsert better x (xs[Suc i := xs ! i]) i else xs[Suc i := x])"

definition insertionSort :: "('a \<Rightarrow> 'a \<Rightarrow> bool) \<Rightarrow> 'a list \<Rightarrow> 'a list" where
  "insertionSort better xs = fold (\<lambda>position xs. shiftInsert better (xs ! position) xs position) [1..<length xs] xs"

subsection \<open>Ranked elements\<close>

text \<open>What the heap needs of its comparisons: on the elements that are \<open>ok\<close> they compare a key, smaller keys being better.\<close>

locale ranked =
  fixes key :: "'a \<Rightarrow> 'k::linorder" and ok :: "'a \<Rightarrow> bool" and worse better :: "'a \<Rightarrow> 'a \<Rightarrow> bool"
  assumes worse_iff: "ok a \<Longrightarrow> ok b \<Longrightarrow> worse a b \<longleftrightarrow> key b < key a"
    and better_iff: "ok a \<Longrightarrow> ok b \<Longrightarrow> better a b \<longleftrightarrow> key a < key b"
begin

definition heap :: "'a list \<Rightarrow> bool" where
  "heap h \<longleftrightarrow> (\<forall>i. 0 < i \<and> i < length h \<longrightarrow> key (h ! i) \<le> key (h ! ((i - 1) div 2)))"

text \<open>A heap up to position \<open>p\<close>, whose children already fit below its parent.\<close>

definition up_to :: "'a list \<Rightarrow> nat \<Rightarrow> bool" where
  "up_to h p \<longleftrightarrow>
     (\<forall>i. 0 < i \<and> i < length h \<and> i \<noteq> p \<longrightarrow> key (h ! i) \<le> key (h ! ((i - 1) div 2)))
     \<and> (\<forall>i. 0 < p \<and> 0 < i \<and> i < length h \<and> (i - 1) div 2 = p \<longrightarrow> key (h ! i) \<le> key (h ! ((p - 1) div 2)))"

definition down_to :: "'a list \<Rightarrow> nat \<Rightarrow> bool" where
  "down_to h p \<longleftrightarrow>
     (\<forall>i. 0 < i \<and> i < length h \<and> (i - 1) div 2 \<noteq> p \<longrightarrow> key (h ! i) \<le> key (h ! ((i - 1) div 2)))
     \<and> (\<forall>i. 0 < p \<and> 0 < i \<and> i < length h \<and> (i - 1) div 2 = p \<longrightarrow> key (h ! i) \<le> key (h ! ((p - 1) div 2)))"

lemma siftUp_heap:
  assumes "up_to h p" and "p < length h" and "\<forall>x \<in> set h. ok x"
  shows "heap (siftUp worse h p) \<and> mset (siftUp worse h p) = mset h"
  using assms
proof (induction p arbitrary: h rule: less_induct)
  case (less p)
  define q where "q = (p - 1) div 2"
  have first: "key (h ! i) \<le> key (h ! ((i - 1) div 2))" if "0 < i" "i < length h" "i \<noteq> p" for i
    using less.prems(1) that by (auto simp: up_to_def)
  show ?case
  proof (cases "0 < p \<and> worse (h ! p) (h ! q)")
    case False
    then have eq: "siftUp worse h p = h" by (auto simp: siftUp.simps [of worse h p] Let_def q_def)
    have "key (h ! p) \<le> key (h ! q)" if "0 < p"
      using False that less.prems(2,3) worse_iff [of "h ! p" "h ! q"] by (auto simp: not_less q_def)
    then have "heap h" using first by (metis heap_def q_def)
    then show ?thesis by (simp add: eq)
  next
    case True
    let ?h = "swap h p q"
    have q: "q < length h" "q < p" using True less.prems(2) by (auto simp: q_def)
    have lt: "key (h ! q) < key (h ! p)" using True worse_iff less.prems(2,3) q by simp
    have kids: "key (h ! i) \<le> key (h ! q)" if "0 < i" "i < length h" "(i - 1) div 2 = p" for i
      using less.prems(1) that True by (auto simp: up_to_def q_def)
    note sw = nth_swap [OF less.prems(2) q(1)]
    have "up_to ?h q"
      unfolding up_to_def length_swap
    proof (intro conjI allI impI)
      fix i assume i: "0 < i \<and> i < length h \<and> i \<noteq> q"
      show "key (?h ! i) \<le> key (?h ! ((i - 1) div 2))"
      proof (cases "i = p")
        case True
        then have "(i - 1) div 2 = q" by (simp add: q_def)
        then show ?thesis using True lt q by (simp add: sw)
      next
        case ne: False
        have "key (h ! i) \<le> key (h ! ((i - 1) div 2))" using first i ne by simp
        then show ?thesis using i ne lt kids [of i] by (auto simp: sw)
      qed
    next
      fix i assume i: "0 < q \<and> 0 < i \<and> i < length h \<and> (i - 1) div 2 = q"
      have "key (h ! q) \<le> key (h ! ((q - 1) div 2))" using first [of q] i q by simp
      moreover have "(q - 1) div 2 < q" using conjunct1 [OF i] by simp
      moreover have "i \<noteq> p \<Longrightarrow> key (h ! i) \<le> key (h ! q)" using first [of i] i by simp
      moreover have "i \<noteq> q" using i by presburger
      ultimately show "key (?h ! i) \<le> key (?h ! ((q - 1) div 2))" using i q by (auto simp: sw)
    qed
    moreover have "mset ?h = mset h" using less.prems(2) q by simp
    moreover have "\<forall>x \<in> set ?h. ok x" using less.prems(3) \<open>mset ?h = mset h\<close> by (metis set_mset_mset)
    ultimately have "heap (siftUp worse ?h q) \<and> mset (siftUp worse ?h q) = mset h"
      using less.IH [OF q(2), of ?h] q by simp
    moreover have "siftUp worse h p = siftUp worse ?h q" using True by (simp add: siftUp.simps [of worse h p] Let_def q_def)
    ultimately show ?thesis by simp
  qed
qed

lemma siftDown_heap:
  assumes "down_to h p" and "p < length h" and "\<forall>x \<in> set h. ok x"
  shows "heap (siftDown worse h p) \<and> mset (siftDown worse h p) = mset h"
  using assms
proof (induction "length h - p" arbitrary: h p rule: less_induct)
  case less
  let ?l = "p * 2 + 1" and ?r = "p * 2 + 2"
  have first: "key (h ! i) \<le> key (h ! ((i - 1) div 2))" if "0 < i" "i < length h" "(i - 1) div 2 \<noteq> p" for i
    using less.prems(1) that by (auto simp: down_to_def)
  have child: "i = ?l \<or> i = ?r" if "0 < i" "(i - 1) div 2 = p" for i using that by presburger
  show ?case
  proof (cases "?l < length h")
    case False
    then have "(i - 1) div 2 \<noteq> p" if "0 < i" "i < length h" for i using child [of i] that by auto
    then have "heap h" using first by (simp add: heap_def)
    then show ?thesis using False by (simp add: siftDown.simps [of worse h p] Let_def)
  next
    case l: True
    define w where "w = (if ?r < length h \<and> worse (h ! ?r) (h ! ?l) then ?r else ?l)"
    have w: "w < length h" "p < w" "(w - 1) div 2 = p" "0 < w" using l by (auto simp: w_def)
    have best: "key (h ! i) \<le> key (h ! w)" if "0 < i" "i < length h" "(i - 1) div 2 = p" for i
      using child [OF that(1,3)] that(2) l less.prems(3) worse_iff [of "h ! ?r" "h ! ?l"] by (auto simp: w_def)
    have step: "siftDown worse h p = (if \<not> worse (h ! w) (h ! p) then h else siftDown worse (swap h p w) w)"
      using l by (simp add: siftDown.simps [of worse h p] Let_def w_def)
    show ?thesis
    proof (cases "worse (h ! w) (h ! p)")
      case False
      then have "key (h ! w) \<le> key (h ! p)" using worse_iff less.prems(2,3) w by (simp add: not_less)
      then have "heap h" using first best unfolding heap_def by (metis order_trans)
      then show ?thesis using False step by simp
    next
      case True
      let ?h = "swap h p w"
      have lt: "key (h ! p) < key (h ! w)" using True worse_iff less.prems(2,3) w by simp
      have above: "key (h ! i) \<le> key (h ! ((p - 1) div 2))" if "0 < p" "0 < i" "i < length h" "(i - 1) div 2 = p" for i
        using less.prems(1) that by (auto simp: down_to_def)
      note sw = nth_swap [OF less.prems(2) w(1)]
      have "down_to ?h w"
        unfolding down_to_def length_swap
      proof (intro conjI allI impI)
        fix i assume i: "0 < i \<and> i < length h \<and> (i - 1) div 2 \<noteq> w"
        show "key (?h ! i) \<le> key (?h ! ((i - 1) div 2))"
        proof (cases "(i - 1) div 2 = p")
          case True
          then show ?thesis using best [of i] i lt w by (auto simp: sw)
        next
          case False
          have "key (h ! i) \<le> key (h ! ((i - 1) div 2))" using first i False by simp
          moreover have "i = p \<Longrightarrow> key (h ! w) \<le> key (h ! ((i - 1) div 2))" using above [of w] i w by simp
          moreover have "i \<noteq> w" using False w by auto
          ultimately show ?thesis using i False by (auto simp: sw)
        qed
      next
        fix i assume i: "0 < w \<and> 0 < i \<and> i < length h \<and> (i - 1) div 2 = w"
        have "key (h ! i) \<le> key (h ! w)" using first [of i] i w by auto
        moreover have "i \<noteq> w" "i \<noteq> p" using i w by auto
        ultimately show "key (?h ! i) \<le> key (?h ! ((w - 1) div 2))" using w by (simp add: sw)
      qed
      moreover have m: "mset ?h = mset h" using less.prems(2) w by simp
      moreover have "\<forall>x \<in> set ?h. ok x" using less.prems(3) m by (metis set_mset_mset)
      moreover have "length ?h - w < length h - p" using w by simp
      ultimately have "heap (siftDown worse ?h w) \<and> mset (siftDown worse ?h w) = mset h"
        using less.hyps [of ?h w] w by simp
      then show ?thesis using True step by simp
    qed
  qed
qed

lemma heap_root:
  assumes "heap h" and "i < length h"
  shows "key (h ! i) \<le> key (h ! 0)"
  using assms(2)
proof (induction i rule: less_induct)
  case (less i)
  show ?case
  proof (cases "i = 0")
    case False
    then have "(i - 1) div 2 < i" by simp
    then have "key (h ! ((i - 1) div 2)) \<le> key (h ! 0)" using less by simp
    moreover have "key (h ! i) \<le> key (h ! ((i - 1) div 2))" using assms(1) False less.prems by (simp add: heap_def)
    ultimately show ?thesis by order
  qed simp
qed

lemma heap_root_in: "heap h \<Longrightarrow> t \<in> set h \<Longrightarrow> key t \<le> key (h ! 0)"
  by (metis heap_root in_set_conv_nth)

lemma mset_replace_root: "h \<noteq> [] \<Longrightarrow> mset (h[0 := x]) = add_mset x (mset h - {#h ! 0#})"
  by (simp add: mset_update)

lemma offer_push:
  assumes "heap h" "\<forall>y \<in> set h. ok y" "ok x"
  shows "heap (siftUp worse (h @ [x]) (length h)) \<and> mset (siftUp worse (h @ [x]) (length h)) = add_mset x (mset h)"
proof -
  have "up_to (h @ [x]) (length h)"
    unfolding up_to_def
  proof (intro conjI allI impI)
    fix i assume i: "0 < i \<and> i < length (h @ [x]) \<and> i \<noteq> length h"
    then have "i < length h" "(i - 1) div 2 < length h" by auto
    then show "key ((h @ [x]) ! i) \<le> key ((h @ [x]) ! ((i - 1) div 2))" using assms(1) i by (auto simp: heap_def nth_append)
  qed auto
  from siftUp_heap [OF this] assms show ?thesis by simp
qed

lemma offer_replace:
  assumes "heap h" "\<forall>y \<in> set h. ok y" "ok x" "h \<noteq> []"
  shows "heap (siftDown worse (h[0 := x]) 0) \<and> mset (siftDown worse (h[0 := x]) 0) = add_mset x (mset h - {#h ! 0#})"
proof -
  have "down_to (h[0 := x]) 0" using assms(1) by (auto simp: down_to_def heap_def)
  moreover have "\<forall>y \<in> set (h[0 := x]). ok y" using assms(2,3) set_update_subset_insert [of h 0 x] by blast
  ultimately show ?thesis using siftDown_heap [of "h[0 := x]" 0] assms(4) by (simp add: mset_replace_root)
qed

text \<open>Offering an element keeps the best \<open>k\<close> seen so far.\<close>

lemma offer_best:
  assumes "heap h" "\<forall>y \<in> set h. ok y" "ok x" "0 < k" "best_k key k S (mset h)"
  shows "\<exists>h'. offer worse better (int k) x h = Inr h' \<and> heap h' \<and> best_k key k (add_mset x S) (mset h')
    \<and> set h' \<subseteq> insert x (set h)"
proof -
  obtain R where R: "S = mset h + R" "length h \<le> k" "length h < k \<longrightarrow> R = {#}" "\<forall>t \<in> set h. \<forall>r \<in># R. key t \<le> key r"
    using assms(5) by (auto simp: best_k_def)
  consider (push) "length h < k" | (swap) "length h = k" "better x (h ! 0)" | (keep) "length h = k" "\<not> better x (h ! 0)"
    using R(2) by fastforce
  then show ?thesis
  proof cases
    case push
    let ?h = "siftUp worse (h @ [x]) (length h)"
    note p = offer_push [OF assms(1-3)]
    have "best_k key k (add_mset x S) (mset ?h)" using p R push by (intro best_kI [where R = "{#}"]) auto
    moreover have "set ?h = insert x (set h)" using p by (metis set_mset_add_mset_insert set_mset_mset)
    ultimately show ?thesis using p push by (simp add: offer_def)
  next
    case swap
    let ?h = "siftDown worse (h[0 := x]) 0"
    have ne: "h \<noteq> []" using swap assms(4) by auto
    then have root: "h ! 0 \<in> set h" by simp
    note p = offer_replace [OF assms(1-3) ne]
    have lt: "key x < key (h ! 0)" using swap(2) better_iff assms(2,3) root by blast
    have "best_k key k (add_mset x S) (mset ?h)"
    proof (rule best_kI [where R = "add_mset (h ! 0) R"])
      show "add_mset x S = mset ?h + add_mset (h ! 0) R" using p R(1) root by simp
      have "size (mset ?h) = size (mset h)" using p root by (metis insert_DiffM set_mset_mset size_add_mset)
      then show "size (mset ?h) \<le> k" "size (mset ?h) < k \<Longrightarrow> add_mset (h ! 0) R = {#}" using swap(1) by simp_all
      show "key t \<le> key r" if "t \<in># mset ?h" "r \<in># add_mset (h ! 0) R" for t r
      proof -
        have t: "key t \<le> key (h ! 0)" using that(1) p lt heap_root_in [OF assms(1)] by (auto dest: in_diffD)
        have "key (h ! 0) \<le> key r" using that(2) R(4) root by auto
        then show ?thesis using t by order
      qed
    qed
    moreover have "set ?h \<subseteq> insert x (set h)"
      unfolding set_mset_mset [symmetric] using p by (auto dest: in_diffD)
    ultimately show ?thesis using p swap ne by (simp add: offer_def)
  next
    case keep
    have ne: "h \<noteq> []" using keep assms(4) by auto
    then have root: "h ! 0 \<in> set h" by simp
    have le: "key (h ! 0) \<le> key x" using keep(2) better_iff assms(2,3) root by (meson not_less)
    have "best_k key k (add_mset x S) (mset h)"
      by (rule best_kI [where R = "add_mset x R"])
        (use R keep(1) le heap_root_in [OF assms(1)] in \<open>auto intro: order_trans\<close>)
    then show ?thesis using assms(1) keep ne by (auto simp: offer_def)
  qed
qed

lemma offer_all:
  assumes "heap h" "\<forall>y \<in> set h \<union> set xs. ok y" "0 < k" "best_k key k S (mset h)"
  shows "\<exists>h'. foldR (offer worse better (int k)) xs h = Inr h' \<and> heap h' \<and> best_k key k (S + mset xs) (mset h')
    \<and> set h' \<subseteq> set h \<union> set xs"
  using assms
proof (induction xs arbitrary: h S)
  case (Cons x xs)
  obtain h1 where h1: "offer worse better (int k) x h = Inr h1" "heap h1" "best_k key k (add_mset x S) (mset h1)"
      "set h1 \<subseteq> insert x (set h)"
    using offer_best [OF Cons.prems(1) _ _ Cons.prems(3,4), of x] Cons.prems(2) by auto
  have "\<forall>y \<in> set h1 \<union> set xs. ok y" using h1(4) Cons.prems(2) by auto
  from Cons.IH [OF h1(2) this Cons.prems(3) h1(3)] show ?case using h1(1,4) by auto
qed auto

lemma while_parts:
  "length (takeWhile P ys) + length (dropWhile P ys) = length ys" "mset (takeWhile P ys) + mset (dropWhile P ys) = mset ys"
  by (induction ys) auto

lemma take_append_len: "length xs = n \<Longrightarrow> take n (xs @ ys) = xs"
  by simp

lemma while_snoc:
  assumes "\<not> P z"
  shows "takeWhile P (ys @ [z]) = takeWhile P ys" and "dropWhile P (ys @ [z]) = dropWhile P ys @ [z]"
  using assms by (induction ys) auto

text \<open>The insertion step puts the element behind everything that is not after it.\<close>

lemma shiftInsert_split:
  assumes "i < length xs" "\<forall>y \<in> set xs. ok y" "ok x" "sorted (map key (take i xs))"
  shows "shiftInsert better x xs i
    = takeWhile (\<lambda>y. key y \<le> key x) (take i xs) @ x # dropWhile (\<lambda>y. key y \<le> key x) (take i xs) @ drop (Suc i) xs"
  using assms
proof (induction i arbitrary: xs)
  case 0
  then show ?case by (cases xs) auto
next
  case (Suc i)
  have i: "i < length xs" "xs ! i \<in> set xs" using Suc.prems(1) by simp_all
  have t: "take (Suc i) xs = take i xs @ [xs ! i]" using i by (simp add: take_Suc_conv_app_nth)
  have srt: "sorted (map key (take i xs))" "\<forall>y \<in> set (take i xs). key y \<le> key (xs ! i)"
    using Suc.prems(4) by (auto simp: t sorted_append)
  show ?case
  proof (cases "better x (xs ! i)")
    case True
    then have lt: "\<not> key (xs ! i) \<le> key x" using better_iff Suc.prems(2,3) i by simp
    let ?xs = "xs[Suc i := xs ! i]"
    have "\<forall>y \<in> set ?xs. ok y" using Suc.prems(2) i set_update_subset_insert [of xs "Suc i" "xs ! i"] by blast
    then have "shiftInsert better x ?xs i
      = takeWhile (\<lambda>y. key y \<le> key x) (take i xs) @ x # dropWhile (\<lambda>y. key y \<le> key x) (take i xs) @ drop (Suc i) ?xs"
      using Suc.IH [of ?xs] Suc.prems i srt by simp
    moreover have "drop (Suc i) ?xs = xs ! i # drop (Suc (Suc i)) xs"
      using Suc.prems(1) by (simp add: drop_update_swap Cons_nth_drop_Suc [symmetric])
    moreover have "takeWhile (\<lambda>y. key y \<le> key x) (take (Suc i) xs) = takeWhile (\<lambda>y. key y \<le> key x) (take i xs)"
      "dropWhile (\<lambda>y. key y \<le> key x) (take (Suc i) xs) = dropWhile (\<lambda>y. key y \<le> key x) (take i xs) @ [xs ! i]"
      using lt unfolding t by (simp_all add: while_snoc)
    ultimately show ?thesis using True by simp
  next
    case False
    then have "key (xs ! i) \<le> key x" using better_iff Suc.prems(2,3) i by (simp add: not_less)
    then have all: "\<forall>y \<in> set (take (Suc i) xs). key y \<le> key x" using srt(2) unfolding t by auto
    then have tw: "takeWhile (\<lambda>y. key y \<le> key x) (take (Suc i) xs) = take (Suc i) xs"
      "dropWhile (\<lambda>y. key y \<le> key x) (take (Suc i) xs) = []" by (simp_all add: takeWhile_eq_all_conv dropWhile_eq_Nil_conv)
    show ?thesis unfolding tw using False Suc.prems(1) by (simp add: upd_conv_take_nth_drop)
  qed
qed

lemma sorted_insert_split:
  "sorted (map key ys) \<Longrightarrow> sorted (map key (takeWhile (\<lambda>y. key y \<le> key x) ys @ x # dropWhile (\<lambda>y. key y \<le> key x) ys))"
  by (induction ys) (auto simp: not_le dest: set_takeWhileD set_dropWhileD)

lemma shiftInsert_sorted:
  assumes "i < length xs" "\<forall>y \<in> set xs. ok y" "sorted (map key (take i xs))"
  shows "mset (shiftInsert better (xs ! i) xs i) = mset xs \<and> sorted (map key (take (Suc i) (shiftInsert better (xs ! i) xs i)))"
proof -
  let ?P = "\<lambda>y. key y \<le> key (xs ! i)" and ?t = "take i xs"
  have eq: "shiftInsert better (xs ! i) xs i = (takeWhile ?P ?t @ xs ! i # dropWhile ?P ?t) @ drop (Suc i) xs"
    using shiftInsert_split [OF assms(1,2) _ assms(3), of "xs ! i"] assms(1,2) by simp
  have len: "length (takeWhile ?P ?t @ xs ! i # dropWhile ?P ?t) = Suc i"
    using assms(1) while_parts(1) [of ?P ?t] by simp
  have "mset xs = mset (?t @ xs ! i # drop (Suc i) xs)" using id_take_nth_drop [OF assms(1)] by simp
  then have "mset (shiftInsert better (xs ! i) xs i) = mset xs" unfolding eq using while_parts(2) [of ?P ?t] by simp
  moreover have "take (Suc i) (shiftInsert better (xs ! i) xs i) = takeWhile ?P ?t @ xs ! i # dropWhile ?P ?t"
    unfolding eq by (rule take_append_len [OF len])
  ultimately show ?thesis using sorted_insert_split [OF assms(3), of "xs ! i"] by simp
qed

lemma insertionSort_sorted:
  assumes "\<forall>y \<in> set xs. ok y"
  shows "mset (insertionSort better xs) = mset xs" and "sorted (map key (insertionSort better xs))"
proof -
  let ?step = "\<lambda>position xs. shiftInsert better (xs ! position) xs position"
  have "mset (fold ?step [1..<j] xs) = mset xs \<and> sorted (map key (take j (fold ?step [1..<j] xs)))" if "j \<le> length xs" for j
    using that
  proof (induction j)
    case (Suc j)
    show ?case
    proof (cases j)
      case 0
      then show ?thesis by (cases xs) auto
    next
      case (Suc j')
      note j = this
      let ?ys = "fold ?step [1..<j] xs"
      have IH: "mset ?ys = mset xs" "sorted (map key (take j ?ys))" using Suc.IH Suc.prems by simp_all
      have "length ?ys = length xs" "set ?ys = set xs" by (rule mset_eq_length [OF IH(1)], rule mset_eq_setD [OF IH(1)])
      then have "mset (?step j ?ys) = mset ?ys \<and> sorted (map key (take (Suc j) (?step j ?ys)))"
        using shiftInsert_sorted [of j ?ys] assms IH(2) Suc.prems by simp
      moreover have "fold ?step [1..<Suc j] xs = ?step j ?ys" using j by simp
      ultimately show ?thesis using IH(1) by simp
    qed
  qed simp
  from this [OF order_refl] have r: "mset (insertionSort better xs) = mset xs"
      "sorted (map key (take (length xs) (insertionSort better xs)))" by (simp_all add: insertionSort_def)
  then show "mset (insertionSort better xs) = mset xs" by simp
  show "sorted (map key (insertionSort better xs))" using r(2) mset_eq_length [OF r(1)] by simp
qed

text \<open>Keeping the best in the heap and sorting it at the end.\<close>

lemma select_best:
  assumes "\<forall>x \<in> set xs. ok x" and "0 < k"
  shows "\<exists>h. foldR (offer worse better (int k)) xs [] = Inr h \<and> best_k key k (mset xs) (mset (insertionSort better h))
    \<and> sorted (map key (insertionSort better h)) \<and> set h \<subseteq> set xs"
proof -
  have "heap []" "best_k key k {#} (mset [])" by (simp_all add: heap_def)
  then obtain h where h: "foldR (offer worse better (int k)) xs [] = Inr h" "best_k key k (mset xs) (mset h)" "set h \<subseteq> set xs"
    using offer_all [of "[]" xs k "{#}"] assms by auto
  then have "\<forall>x \<in> set h. ok x" using assms(1) by auto
  then show ?thesis using h insertionSort_sorted [of h] by auto
qed

end

end
