(* ===== verification/Placement.thy ===== *)
theory Placement
  imports Peer_Discovery Core_Types Go_Sort
begin

text \<open>
  Shard placement of \<open>internal/cluster/placement.go\<close>, \<open>replicas.go\<close> and \<open>view.go\<close>: weighted rendezvous hashing of
  the logical shards over the cluster members, replica sets, and the digests by which nodes compare
  their views. SHA-256 is an argument \<open>H\<close> and nothing is assumed of it.
\<close>

subsection \<open>Tables\<close>

record PlacementNode =
  pn_NodeID :: string
  pn_AdvertiseAddress :: string
  pn_Capacity :: u32
  pn_Healthy :: bool
  pn_Local :: bool

record ShardPlacement =
  sp_Collection :: string
  sp_ShardID :: u32
  sp_NodeID :: string

record PlacementTable =
  pt_Epoch :: u64
  pt_Authoritative :: bool
  pt_Nodes :: "PlacementNode list"
  pt_Shards :: "ShardPlacement list"
  NextCursor :: string

subsection \<open>Rendezvous scores\<close>

type_synonym hash = "bytes \<Rightarrow> bytes"

definition placementScore :: "hash \<Rightarrow> string \<Rightarrow> u32 \<Rightarrow> string \<Rightarrow> bytes" where
  "placementScore H collection shardID nodeID =
     H (bytes_of_string collection @ [0] @ put_be 4 shardID @ bytes_of_string nodeID)"

definition placementTicketScore :: "hash \<Rightarrow> string \<Rightarrow> u32 \<Rightarrow> string \<Rightarrow> u32 \<Rightarrow> bytes" where
  "placementTicketScore H collection shardID nodeID ticket =
     H (bytes_of_string collection @ [0] @ put_be 4 shardID @ bytes_of_string nodeID @ put_be 4 ticket)"

definition placementNodeScore :: "hash \<Rightarrow> string \<Rightarrow> u32 \<Rightarrow> PlacementNode \<Rightarrow> bytes" where
  "placementNodeScore H collection shardID node =
     fold (\<lambda>ticket best.
         let score = placementTicketScore H collection shardID (pn_NodeID node) (of_nat ticket) in
         if score > best then score else best)
       [1..<unat (pn_Capacity node)] (placementScore H collection shardID (pn_NodeID node))"

subsection \<open>Planning\<close>

definition addPeer :: "Peer \<Rightarrow> PlacementNode list \<Rightarrow> PlacementNode list result" where
  "addPeer peer nodes =
     (if pr_NodeID peer = [] then Inr nodes
      else if \<not> ValidNodeID (pr_NodeID peer) \<or> AdvertiseAddress peer = [] then Inl (ErrMsg ''invalid discovered peer'')
      else if pr_NodeID peer \<in> set (map pn_NodeID nodes) then Inl (ErrMsg ''duplicate placement node ID'')
      else
        let capacity = (if PlacementCapacity peer = 0 then 1 else PlacementCapacity peer) in
        and_then (validatePlacementCapacity capacity) (\<lambda>_.
        Inr (nodes @ [\<lparr>pn_NodeID = pr_NodeID peer, pn_AdvertiseAddress = AdvertiseAddress peer,
                       pn_Capacity = capacity, pn_Healthy = Healthy peer, pn_Local = False\<rparr>])))"

text \<open>The loop over the nodes that keeps the first one with the best score.\<close>

definition shardOwner :: "hash \<Rightarrow> string \<Rightarrow> u32 \<Rightarrow> PlacementNode list \<Rightarrow> string" where
  "shardOwner H collection shardID nodes =
     snd (fold (\<lambda>node (best, owner).
            let score = placementNodeScore H collection shardID node in
            if score > best then (score, pn_NodeID node) else (best, owner))
          (tl nodes) (placementNodeScore H collection shardID (hd nodes), pn_NodeID (hd nodes)))"

definition configShards :: "hash \<Rightarrow> PlacementNode list \<Rightarrow> CollectionConfig \<Rightarrow> ShardPlacement list" where
  "configShards H nodes config =
     map (\<lambda>shardID. \<lparr>sp_Collection = Name config, sp_ShardID = of_nat shardID,
                      sp_NodeID = shardOwner H (Name config) (of_nat shardID) nodes\<rparr>)
       [0..<nat (ShardCount config)]"

definition PlanPlacementWithCapacity ::
  "hash \<Rightarrow> u64 \<Rightarrow> string \<Rightarrow> string \<Rightarrow> u32 \<Rightarrow> Peer list \<Rightarrow> CollectionConfig list \<Rightarrow> PlacementTable result" where
  "PlanPlacementWithCapacity H epoch localID localAddress localCapacity ps collections =
     (if epoch = 0 \<or> \<not> ValidNodeID localID \<or> localAddress = []
      then Inl (ErrMsg ''valid epoch, local node ID, and local address are required'')
      else
        and_then (validatePlacementCapacity localCapacity) (\<lambda>_.
        and_then (foldR addPeer ps
          [\<lparr>pn_NodeID = localID, pn_AdvertiseAddress = localAddress, pn_Capacity = localCapacity,
            pn_Healthy = True, pn_Local = True\<rparr>]) (\<lambda>nodes.
        let nodes' = sort_key pn_NodeID nodes; configs = sort_key Name collections in
        and_then (foldR (\<lambda>config shards. and_then (Validate config) (\<lambda>_. Inr (shards @ configShards H nodes' config)))
          configs []) (\<lambda>shards.
        Inr \<lparr>pt_Epoch = epoch, pt_Authoritative = False, pt_Nodes = nodes', pt_Shards = shards, NextCursor = []\<rparr>))))"

definition PlanPlacement ::
  "hash \<Rightarrow> u64 \<Rightarrow> string \<Rightarrow> string \<Rightarrow> Peer list \<Rightarrow> CollectionConfig list \<Rightarrow> PlacementTable result" where
  "PlanPlacement H epoch localID localAddress ps collections =
     PlanPlacementWithCapacity H epoch localID localAddress 1 ps collections"

subsection \<open>Replica sets\<close>

record ShardReplicaPlacement =
  sr_Collection :: string
  sr_ShardID :: u32
  LeaderID :: string
  Replicas :: "string list"

record ReplicaPlacementTable =
  rt_Epoch :: u64
  rt_Authoritative :: bool
  rt_ReplicationFactor :: int
  rt_Nodes :: "PlacementNode list"
  rt_Shards :: "ShardReplicaPlacement list"

text \<open>Candidates are pairs of a score and a node ID.\<close>

definition candidateLess :: "bytes \<times> string \<Rightarrow> bytes \<times> string \<Rightarrow> bool" where
  "candidateLess a b = (if fst a = fst b then snd a < snd b else fst a > fst b)"

definition shardReplicas :: "hash \<Rightarrow> string \<Rightarrow> u32 \<Rightarrow> PlacementNode list \<Rightarrow> nat \<Rightarrow> string list" where
  "shardReplicas H collection shardID nodes factor =
     map snd (take factor
       (sortBy candidateLess (map (\<lambda>n. (placementNodeScore H collection shardID n, pn_NodeID n)) nodes)))"

definition configReplicas :: "hash \<Rightarrow> PlacementNode list \<Rightarrow> nat \<Rightarrow> CollectionConfig \<Rightarrow> ShardReplicaPlacement list" where
  "configReplicas H nodes factor config =
     map (\<lambda>shardID. let rs = shardReplicas H (Name config) (of_nat shardID) nodes factor in
            \<lparr>sr_Collection = Name config, sr_ShardID = of_nat shardID, LeaderID = hd rs, Replicas = rs\<rparr>)
       [0..<nat (ShardCount config)]"

definition PlanReplicaPlacementWithCapacity ::
  "hash \<Rightarrow> u64 \<Rightarrow> string \<Rightarrow> string \<Rightarrow> u32 \<Rightarrow> Peer list \<Rightarrow> CollectionConfig list \<Rightarrow> int \<Rightarrow> ReplicaPlacementTable result" where
  "PlanReplicaPlacementWithCapacity H epoch localID localAddress localCapacity ps collections factor =
     and_then (PlanPlacementWithCapacity H epoch localID localAddress localCapacity ps collections) (\<lambda>base.
     if factor < 1 \<or> factor > int (length (pt_Nodes base)) then Inl (ErrMsg ''replication factor out of range'')
     else
       Inr \<lparr>rt_Epoch = epoch, rt_Authoritative = False, rt_ReplicationFactor = factor, rt_Nodes = pt_Nodes base,
            rt_Shards = concat (map (configReplicas H (pt_Nodes base) (nat factor)) (sort_key Name collections))\<rparr>)"

definition PlanReplicaPlacement ::
  "hash \<Rightarrow> u64 \<Rightarrow> string \<Rightarrow> string \<Rightarrow> Peer list \<Rightarrow> CollectionConfig list \<Rightarrow> int \<Rightarrow> ReplicaPlacementTable result" where
  "PlanReplicaPlacement H epoch localID localAddress ps collections factor =
     PlanReplicaPlacementWithCapacity H epoch localID localAddress 1 ps collections factor"

subsection \<open>View digests\<close>

text \<open>\<open>digestJSON\<close> of node IDs, of configurations and of placements: a hash of their JSON encoding.\<close>

record digest_lib =
  digest_ids :: "string list \<Rightarrow> string"
  digest_configs :: "CollectionConfig list \<Rightarrow> string"
  digest_shards :: "ShardPlacement list \<Rightarrow> string"

definition collectIDs :: "Peer list \<Rightarrow> string list \<Rightarrow> string list result" where
  "collectIDs ps start =
     foldR (\<lambda>peer ids.
         if pr_NodeID peer = [] then Inr ids
         else if pr_NodeID peer \<in> set ids then Inl (ErrMsg ''duplicate node ID'')
         else Inr (ids @ [pr_NodeID peer])) ps start"

definition ComputeViewDigestsWithCapacity ::
  "hash \<Rightarrow> digest_lib \<Rightarrow> u64 \<Rightarrow> string \<Rightarrow> string \<Rightarrow> u32 \<Rightarrow> Peer list \<Rightarrow> CollectionConfig list \<Rightarrow> ViewDigests result" where
  "ComputeViewDigestsWithCapacity H D epoch localID localAddress localCapacity ps collections =
     and_then (collectIDs ps [localID]) (\<lambda>ids.
     let nodeIDs = sort ids; configs = sort_key Name (map Normalized collections) in
     and_then (PlanPlacementWithCapacity H epoch localID localAddress localCapacity ps configs) (\<lambda>table.
     Inr \<lparr>Membership = digest_ids D nodeIDs, Catalog = digest_configs D configs, Placement = digest_shards D (pt_Shards table),
          CapacityManifest =
            marshal_capacities (Some (map (\<lambda>n. \<lparr>nc_node = pn_NodeID n, nc_capacity = pn_Capacity n\<rparr>) (pt_Nodes table)))\<rparr>))"

definition ComputeViewDigests ::
  "hash \<Rightarrow> digest_lib \<Rightarrow> u64 \<Rightarrow> string \<Rightarrow> string \<Rightarrow> Peer list \<Rightarrow> CollectionConfig list \<Rightarrow> ViewDigests result" where
  "ComputeViewDigests H D epoch localID localAddress ps collections =
     ComputeViewDigestsWithCapacity H D epoch localID localAddress 1 ps collections"

subsection \<open>The order of the candidates\<close>

lemma candidateLess_order:
  "candidateLess x y \<Longrightarrow> candidateLess y z \<Longrightarrow> candidateLess x z"
  "\<not> candidateLess x y \<Longrightarrow> candidateLess y x \<or> x = y"
  by (auto simp: candidateLess_def prod_eq_iff split: if_splits)

subsection \<open>Owners\<close>

text \<open>The owner is the node of the best score and, among equals, of the smallest ID.\<close>

definition best_of :: "hash \<Rightarrow> string \<Rightarrow> u32 \<Rightarrow> PlacementNode list \<Rightarrow> PlacementNode \<Rightarrow> bool" where
  "best_of H c s nodes n \<longleftrightarrow>
     n \<in> set nodes \<and> (\<forall>m \<in> set nodes. placementNodeScore H c s m < placementNodeScore H c s n
        \<or> placementNodeScore H c s m = placementNodeScore H c s n \<and> pn_NodeID n \<le> pn_NodeID m)"

lemma shardOwner_best:
  assumes "nodes \<noteq> []" and "sorted (map pn_NodeID nodes)"
  shows "\<exists>n. best_of H c s nodes n \<and> shardOwner H c s nodes = pn_NodeID n"
proof -
  let ?sc = "placementNodeScore H c s"
  let ?step = "\<lambda>node (best, owner). let score = ?sc node in if score > best then (score, pn_NodeID node) else (best, owner)"
  have "\<exists>n. best_of H c s (pre @ xs) n \<and> fold ?step xs (?sc b, pn_NodeID b) = (?sc n, pn_NodeID n)"
    if "best_of H c s pre b" "sorted (map pn_NodeID (pre @ xs))" for pre xs b
    using that
  proof (induction xs arbitrary: pre b)
    case (Cons x xs)
    have ord: "pn_NodeID m \<le> pn_NodeID x" if "m \<in> set pre" for m using that Cons.prems(2) by (auto simp: sorted_append)
    show ?case
    proof (cases "?sc x > ?sc b")
      case True
      then have "best_of H c s (pre @ [x]) x"
        using Cons.prems(1) by (auto simp: best_of_def)
      from Cons.IH [OF this] show ?thesis using True Cons.prems(2) by simp
    next
      case False
      then have "best_of H c s (pre @ [x]) b"
        using Cons.prems(1) ord by (auto simp: best_of_def)
      from Cons.IH [OF this] show ?thesis using False Cons.prems(2) by simp
    qed
  qed auto
  from this [of "[hd nodes]" "hd nodes" "tl nodes"] show ?thesis
    using assms by (auto simp: shardOwner_def best_of_def)
qed

lemma best_of_unique:
  assumes "best_of H c s nodes n" and "best_of H c s nodes m"
  shows "pn_NodeID n = pn_NodeID m"
  using assms unfolding best_of_def by (metis order.asym order.antisym)

text \<open>Scores and owners only depend on the IDs and the capacities of the nodes, in their order.\<close>

definition node_key :: "PlacementNode \<Rightarrow> string \<times> u32" where
  "node_key n = (pn_NodeID n, pn_Capacity n)"

definition key_node :: "string \<times> u32 \<Rightarrow> PlacementNode" where
  "key_node k = \<lparr>pn_NodeID = fst k, pn_AdvertiseAddress = [], pn_Capacity = snd k, pn_Healthy = True, pn_Local = False\<rparr>"

lemma score_key: "placementNodeScore H c s (key_node (node_key n)) = placementNodeScore H c s n"
  by (simp add: placementNodeScore_def key_node_def node_key_def)

lemma key_ID [simp]: "pn_NodeID (key_node (node_key n)) = pn_NodeID n"
  by (simp add: key_node_def node_key_def)

lemma shardOwner_keys:
  assumes "nodes \<noteq> []"
  shows "shardOwner H c s nodes = shardOwner H c s (map key_node (map node_key nodes))"
  using assms by (simp add: shardOwner_def fold_map comp_def score_key hd_map map_tl [symmetric] Let_def cong: if_cong)

lemma shardReplicas_keys:
  "shardReplicas H c s nodes k = shardReplicas H c s (map key_node (map node_key nodes)) k"
  by (simp add: shardReplicas_def comp_def score_key)

lemma configShards_keys:
  "nodes \<noteq> [] \<Longrightarrow> nodes' \<noteq> [] \<Longrightarrow> map node_key nodes = map node_key nodes' \<Longrightarrow> configShards H nodes = configShards H nodes'"
  using shardOwner_keys [of nodes H] shardOwner_keys [of nodes' H] by (auto simp: configShards_def fun_eq_iff)

subsection \<open>The member list\<close>

definition peerCapacity :: "Peer \<Rightarrow> u32" where
  "peerCapacity p = (if PlacementCapacity p = 0 then 1 else PlacementCapacity p)"

text \<open>The members a node knows: itself and the identified peers, with their capacities.\<close>

definition view_members :: "string \<Rightarrow> u32 \<Rightarrow> Peer list \<Rightarrow> (string \<times> u32) set" where
  "view_members l cap ps = insert (l, cap) ((\<lambda>p. (pr_NodeID p, peerCapacity p)) ` {p \<in> set ps. pr_NodeID p \<noteq> []})"

lemma one_le_word: "(1 :: u32) \<le> x \<longleftrightarrow> x \<noteq> 0"
  by (auto simp: word_le_nat_alt word_unat_eq_iff)

lemma addPeer_Inr:
  assumes "addPeer p nodes = Inr nodes'"
  shows "pr_NodeID p = [] \<and> nodes' = nodes
    \<or> pr_NodeID p \<noteq> [] \<and> ValidNodeID (pr_NodeID p) \<and> pr_NodeID p \<notin> pn_NodeID ` set nodes
      \<and> 1 \<le> peerCapacity p \<and> peerCapacity p \<le> 256
      \<and> nodes' = nodes @ [\<lparr>pn_NodeID = pr_NodeID p, pn_AdvertiseAddress = AdvertiseAddress p,
            pn_Capacity = peerCapacity p, pn_Healthy = Healthy p, pn_Local = False\<rparr>]"
  using assms
  by (auto simp: addPeer_def Let_def and_then_Inr_iff peerCapacity_def validatePlacementCapacity_def
      MaxPlacementCapacity_def not_less one_le_word split: if_splits)

lemma addPeers:
  assumes "foldR addPeer ps nodes = Inr nodes'" and "distinct (map pn_NodeID nodes)"
  shows "distinct (map pn_NodeID nodes')"
    and "node_key ` set nodes' = node_key ` set nodes \<union> (\<lambda>p. (pr_NodeID p, peerCapacity p)) ` {p \<in> set ps. pr_NodeID p \<noteq> []}"
    and "nodes \<noteq> [] \<Longrightarrow> nodes' \<noteq> []"
proof -
  have "distinct (map pn_NodeID nodes')
    \<and> node_key ` set nodes' = node_key ` set nodes \<union> (\<lambda>p. (pr_NodeID p, peerCapacity p)) ` {p \<in> set ps. pr_NodeID p \<noteq> []}
    \<and> (nodes \<noteq> [] \<longrightarrow> nodes' \<noteq> [])"
    using assms
  proof (induction ps arbitrary: nodes)
    case (Cons p ps)
    then obtain nodes1 where n1: "addPeer p nodes = Inr nodes1" "foldR addPeer ps nodes1 = Inr nodes'"
      by (auto simp: and_then_Inr_iff)
    show ?case
    proof (cases "pr_NodeID p = []")
      case True
      then have "nodes1 = nodes" using addPeer_Inr [OF n1(1)] by blast
      moreover have "{q \<in> set (p # ps). pr_NodeID q \<noteq> []} = {q \<in> set ps. pr_NodeID q \<noteq> []}" using True by auto
      ultimately show ?thesis using Cons.IH [OF n1(2)] Cons.prems(2) by simp
    next
      case False
      define x where "x = \<lparr>pn_NodeID = pr_NodeID p, pn_AdvertiseAddress = AdvertiseAddress p,
            pn_Capacity = peerCapacity p, pn_Healthy = Healthy p, pn_Local = False\<rparr>"
      have x: "nodes1 = nodes @ [x]" "pr_NodeID p \<notin> pn_NodeID ` set nodes"
        using addPeer_Inr [OF n1(1)] False by (auto simp: x_def)
      have "pn_NodeID x = pr_NodeID p" "node_key x = (pr_NodeID p, peerCapacity p)" by (simp_all add: x_def node_key_def)
      moreover have "{q \<in> set (p # ps). pr_NodeID q \<noteq> []} = insert p {q \<in> set ps. pr_NodeID q \<noteq> []}" using False by auto
      ultimately show ?thesis using Cons.IH [OF n1(2)] Cons.prems(2) x by auto
    qed
  qed simp
  then show "distinct (map pn_NodeID nodes')"
    "node_key ` set nodes' = node_key ` set nodes \<union> (\<lambda>p. (pr_NodeID p, peerCapacity p)) ` {p \<in> set ps. pr_NodeID p \<noteq> []}"
    "nodes \<noteq> [] \<Longrightarrow> nodes' \<noteq> []" by blast+
qed

lemma foldR_collect:
  "foldR (\<lambda>x acc. and_then (v x) (\<lambda>_. Inr (acc @ g x))) xs acc = Inr zs
    \<longleftrightarrow> (\<forall>x \<in> set xs. is_ok (v x)) \<and> zs = acc @ concat (map g xs)"
proof (induction xs arbitrary: acc)
  case (Cons x xs)
  then show ?case by (cases "v x") auto
qed auto

text \<open>What a successful plan consists of.\<close>

lemma Plan_Inr:
  assumes "PlanPlacementWithCapacity H e l a cap ps cs = Inr t"
  shows "pt_Shards t = concat (map (configShards H (pt_Nodes t)) (sort_key Name cs))"
    and "sorted (map pn_NodeID (pt_Nodes t))" and "distinct (map pn_NodeID (pt_Nodes t))" and "pt_Nodes t \<noteq> []"
    and "node_key ` set (pt_Nodes t) = view_members l cap ps" and "pt_Epoch t = e" and "ValidNodeID l"
    and "\<And>c. c \<in> set cs \<Longrightarrow> Validate c = Inr ()" and "\<And>p. p \<in> set ps \<Longrightarrow> pr_NodeID p \<noteq> [] \<Longrightarrow> ValidNodeID (pr_NodeID p)"
proof -
  let ?local = "\<lparr>pn_NodeID = l, pn_AdvertiseAddress = a, pn_Capacity = cap, pn_Healthy = True, pn_Local = True\<rparr>"
  obtain nodes where n: "foldR addPeer ps [?local] = Inr nodes" "ValidNodeID l"
      "t = \<lparr>pt_Epoch = e, pt_Authoritative = False, pt_Nodes = sort_key pn_NodeID nodes,
        pt_Shards = concat (map (configShards H (sort_key pn_NodeID nodes)) (sort_key Name cs)), NextCursor = []\<rparr>"
      "\<forall>c \<in> set (sort_key Name cs). is_ok (Validate c)"
    using assms
    by (auto simp: PlanPlacementWithCapacity_def Let_def and_then_Inr_iff foldR_collect split: if_splits)
  have f: "distinct (map pn_NodeID nodes)" "nodes \<noteq> []" "node_key ` set nodes = view_members l cap ps"
    using addPeers [OF n(1)] by (simp_all add: view_members_def node_key_def)
  show "pt_Shards t = concat (map (configShards H (pt_Nodes t)) (sort_key Name cs))" "pt_Epoch t = e" "ValidNodeID l"
    "sorted (map pn_NodeID (pt_Nodes t))" using n by simp_all
  show "node_key ` set (pt_Nodes t) = view_members l cap ps" using n(3) f(3) by simp
  show "pt_Nodes t \<noteq> []" using n(3) f(2) by (metis PlacementTable.select_convs(3) set_empty set_sort)
  have "mset (map pn_NodeID (pt_Nodes t)) = mset (map pn_NodeID nodes)" using n(3) by simp
  then show "distinct (map pn_NodeID (pt_Nodes t))" using f(1) by (metis mset_eq_imp_distinct_iff)
  show "\<And>c. c \<in> set cs \<Longrightarrow> Validate c = Inr ()" using n(4) by (auto elim!: is_okE)
  have "ValidNodeID (pr_NodeID p)" if "foldR addPeer qs ns = Inr ms" "p \<in> set qs" "pr_NodeID p \<noteq> []" for qs ns ms p
    using that by (induction qs arbitrary: ns) (auto simp: and_then_Inr_iff dest: addPeer_Inr)
  then show "\<And>p. p \<in> set ps \<Longrightarrow> pr_NodeID p \<noteq> [] \<Longrightarrow> ValidNodeID (pr_NodeID p)" using n(1) by blast
qed

end
