(* ===== verification/Placement_Props.thy ===== *)
theory Placement_Props
  imports Placement
begin

text \<open>
  Properties of shard placement: every shard has exactly one best owner, nodes that know the same members
  compute the same view, membership growth only moves shards to the new node, replica sets are
  distinct and led by the owner, and failed health probes move nothing.
\<close>

subsection \<open>Completeness and optimality\<close>

lemma configShards_best:
  assumes "nodes \<noteq> []" and "sorted (map pn_NodeID nodes)" and "sh \<in> set (configShards H nodes c)"
  shows "\<exists>n. best_of H (sp_Collection sh) (sp_ShardID sh) nodes n \<and> sp_NodeID sh = pn_NodeID n"
  using assms(3) shardOwner_best [OF assms(1,2)] by (auto simp: configShards_def)

text \<open>
  C16: A placement plan assigns every shard of every collection exactly once, in the order of the collection
  names, and each shard goes to the cluster member with the best rendezvous score, the smallest node ID
  deciding between equal scores; the members are the local node and the identified peers.
\<close>

theorem placement_is_total_and_best:
  assumes "PlanPlacementWithCapacity H e l a cap ps cs = Inr t"
  shows "map (\<lambda>s. (sp_Collection s, sp_ShardID s)) (pt_Shards t)
      = concat (map (\<lambda>c. map (\<lambda>i. (Name c, of_nat i)) [0..<nat (ShardCount c)]) (sort_key Name cs))
    \<and> (\<forall>s \<in> set (pt_Shards t). \<exists>n. best_of H (sp_Collection s) (sp_ShardID s) (pt_Nodes t) n \<and> sp_NodeID s = pn_NodeID n)
    \<and> node_key ` set (pt_Nodes t) = view_members l cap ps"
proof -
  note p = Plan_Inr [OF assms]
  have "map (\<lambda>s. (sp_Collection s, sp_ShardID s)) (pt_Shards t)
      = concat (map (\<lambda>c. map (\<lambda>i. (Name c, of_nat i)) [0..<nat (ShardCount c)]) (sort_key Name cs))"
    unfolding p(1) map_concat by (simp add: comp_def configShards_def)
  moreover have "\<exists>n. best_of H (sp_Collection s) (sp_ShardID s) (pt_Nodes t) n \<and> sp_NodeID s = pn_NodeID n"
    if "s \<in> set (pt_Shards t)" for s
    using that p(1) configShards_best [OF p(4,2)] by auto
  ultimately show ?thesis using p(5) by blast
qed

subsection \<open>Convergence of views\<close>

lemma nodes_determined:
  assumes "PlanPlacementWithCapacity H e l a cap ps cs = Inr t" and "PlanPlacementWithCapacity H e' l' a' cap' ps' cs' = Inr t'"
    and "view_members l cap ps = view_members l' cap' ps'"
  shows "map node_key (pt_Nodes t) = map node_key (pt_Nodes t')"
proof (rule map_sorted_distinct_set_unique [where f = fst])
  note p = Plan_Inr [OF assms(1)] and q = Plan_Inr [OF assms(2)]
  have k: "map fst (map node_key ns) = map pn_NodeID ns" for ns by (simp add: node_key_def)
  show "set (map node_key (pt_Nodes t)) = set (map node_key (pt_Nodes t'))" using p(5) q(5) assms(3) by simp
  then show "inj_on fst (set (map node_key (pt_Nodes t)) \<union> set (map node_key (pt_Nodes t')))"
    using p(3) k [of "pt_Nodes t"] by (metis Un_absorb distinct_map)
  show "sorted (map fst (map node_key (pt_Nodes t)))" "sorted (map fst (map node_key (pt_Nodes t')))"
    "distinct (map fst (map node_key (pt_Nodes t)))" "distinct (map fst (map node_key (pt_Nodes t')))"
    using p(2,3) q(2,3) by (simp_all only: k)
qed

lemma collectIDs_Inr:
  assumes "collectIDs ps start = Inr ids" and "distinct start"
  shows "distinct ids \<and> set ids = set start \<union> pr_NodeID ` {p \<in> set ps. pr_NodeID p \<noteq> []}"
  using assms unfolding collectIDs_def
proof (induction ps arbitrary: start)
  case (Cons p ps)
  show ?case
  proof (cases "pr_NodeID p = []")
    case True
    then have "{q \<in> set (p # ps). pr_NodeID q \<noteq> []} = {q \<in> set ps. pr_NodeID q \<noteq> []}" by auto
    then show ?thesis using Cons True by simp
  next
    case False
    then have "{q \<in> set (p # ps). pr_NodeID q \<noteq> []} = insert p {q \<in> set ps. pr_NodeID q \<noteq> []}" by auto
    then show ?thesis using Cons False by (auto split: if_splits)
  qed
qed simp

lemma sort_key_determined:
  assumes "mset xs = mset ys" and "distinct (map f xs)"
  shows "sort_key f xs = sort_key f ys"
proof (rule map_sorted_distinct_set_unique [where f = f])
  have s: "set xs = set ys" using assms(1) by (metis set_mset_mset)
  show "set (sort_key f xs) = set (sort_key f ys)" using s by simp
  show "inj_on f (set (sort_key f xs) \<union> set (sort_key f ys))" using assms(2) s by (simp add: distinct_map)
  have "mset (map f (sort_key f xs)) = mset (map f xs)" "mset (map f (sort_key f ys)) = mset (map f xs)"
    using assms(1) by simp_all
  then show "distinct (map f (sort_key f xs))" "distinct (map f (sort_key f ys))"
    using assms(2) by (metis mset_eq_imp_distinct_iff)+
qed simp_all

lemma Name_Normalized [simp]: "Name (Normalized c) = Name c"
  by (simp add: Normalized_def)

text \<open>
  C17: Views converge: any two nodes that know the same members with the same capacities and have the same
  catalog compute identical digests, capacity manifest included, whichever of them is the local node,
  whatever addresses and health they have recorded, and in whatever order peers and collections come.
\<close>

theorem views_converge:
  assumes "ComputeViewDigestsWithCapacity H D e l a cap ps cs = Inr v"
    and "ComputeViewDigestsWithCapacity H D e' l' a' cap' ps' cs' = Inr v'"
    and "view_members l cap ps = view_members l' cap' ps'" and "mset cs = mset cs'" and "distinct (map Name cs)"
  shows "v = v'"
proof -
  let ?c = "sort_key Name (map Normalized cs)" and ?c' = "sort_key Name (map Normalized cs')"
  obtain ids t where v: "collectIDs ps [l] = Inr ids" "PlanPlacementWithCapacity H e l a cap ps ?c = Inr t"
      "v = \<lparr>Membership = digest_ids D (sort ids), Catalog = digest_configs D ?c, Placement = digest_shards D (pt_Shards t),
          CapacityManifest = marshal_capacities (Some (map (\<lambda>n. \<lparr>nc_node = pn_NodeID n, nc_capacity = pn_Capacity n\<rparr>) (pt_Nodes t)))\<rparr>"
    using assms(1) by (auto simp: ComputeViewDigestsWithCapacity_def Let_def and_then_Inr_iff)
  obtain ids' t' where v': "collectIDs ps' [l'] = Inr ids'" "PlanPlacementWithCapacity H e' l' a' cap' ps' ?c' = Inr t'"
      "v' = \<lparr>Membership = digest_ids D (sort ids'), Catalog = digest_configs D ?c', Placement = digest_shards D (pt_Shards t'),
          CapacityManifest = marshal_capacities (Some (map (\<lambda>n. \<lparr>nc_node = pn_NodeID n, nc_capacity = pn_Capacity n\<rparr>) (pt_Nodes t')))\<rparr>"
    using assms(2) by (auto simp: ComputeViewDigestsWithCapacity_def Let_def and_then_Inr_iff)
  have cc: "?c = ?c'"
    by (rule sort_key_determined) (use assms(4,5) in \<open>simp_all add: comp_def\<close>)
  have keys: "map node_key (pt_Nodes t) = map node_key (pt_Nodes t')"
    by (rule nodes_determined [OF v(2) v'(2) assms(3)])
  have "pt_Shards t = pt_Shards t'"
    using configShards_keys [OF Plan_Inr(4) [OF v(2)] Plan_Inr(4) [OF v'(2)] keys, of H]
    by (simp add: Plan_Inr(1) [OF v(2)] Plan_Inr(1) [OF v'(2)] cc)
  moreover have "map (\<lambda>n. \<lparr>nc_node = pn_NodeID n, nc_capacity = pn_Capacity n\<rparr>) (pt_Nodes t)
      = map (\<lambda>n. \<lparr>nc_node = pn_NodeID n, nc_capacity = pn_Capacity n\<rparr>) (pt_Nodes t')"
    using arg_cong [OF keys, of "map (\<lambda>k. \<lparr>nc_node = fst k, nc_capacity = snd k\<rparr>)"] by (simp add: node_key_def comp_def)
  moreover have "sort ids = sort ids'"
  proof (rule sorted_distinct_set_unique)
    have "set ids = fst ` view_members l cap ps" "set ids' = fst ` view_members l' cap' ps'"
      using collectIDs_Inr [OF v(1)] collectIDs_Inr [OF v'(1)] by (simp_all add: view_members_def image_image)
    then show "set (sort ids) = set (sort ids')" using assms(3) by simp
  qed (use collectIDs_Inr [OF v(1)] collectIDs_Inr [OF v'(1)] in simp_all)
  ultimately show ?thesis using cc unfolding v(3) v'(3) by simp
qed

subsection \<open>Growth of the membership\<close>

text \<open>Being the best node only depends on the set of IDs and capacities.\<close>

lemma best_of_grow:
  assumes "best_of H c s nodes n" and "best_of H c s nodes' n'"
    and "node_key ` set nodes' = insert (x, k) (node_key ` set nodes)" and "pn_NodeID n' \<noteq> x"
  shows "pn_NodeID n' = pn_NodeID n"
proof -
  let ?sc = "placementNodeScore H c s"
  have same: "?sc a = ?sc b \<and> pn_NodeID a = pn_NodeID b" if "node_key a = node_key b" for a b
    using that score_key [of H c s a] score_key [of H c s b] by (simp add: node_key_def)
  have "node_key n' \<in> insert (x, k) (node_key ` set nodes)" using assms(2,3) by (auto simp: best_of_def)
  then obtain m where m: "m \<in> set nodes" "node_key m = node_key n'"
    using assms(4) by (auto simp: node_key_def)
  have "best_of H c s nodes m"
    unfolding best_of_def
  proof (intro conjI ballI m(1))
    fix j assume "j \<in> set nodes"
    then have "node_key j \<in> node_key ` set nodes'" using assms(3) by auto
    then obtain j' where j': "j' \<in> set nodes'" "node_key j' = node_key j" by auto
    have "?sc j' < ?sc n' \<or> ?sc j' = ?sc n' \<and> pn_NodeID n' \<le> pn_NodeID j'" using assms(2) j'(1) by (auto simp: best_of_def)
    then show "?sc j < ?sc m \<or> ?sc j = ?sc m \<and> pn_NodeID m \<le> pn_NodeID j"
      using same [OF j'(2)] same [OF m(2)] by simp
  qed
  then show ?thesis using best_of_unique [OF assms(1)] same [OF m(2)] by metis
qed

lemma list_all2_concat_map:
  "(\<And>x. x \<in> set xs \<Longrightarrow> list_all2 P (f x) (g x)) \<Longrightarrow> list_all2 P (concat (map f xs)) (concat (map g xs))"
  by (induction xs) (auto intro: list_all2_appendI)

text \<open>
  C18: Adding a node moves as little as possible: when the members grow by one node, every shard keeps its owner or
  moves to the new node; no shard moves between two old nodes.
\<close>

theorem growth_moves_only_to_new_node:
  assumes "PlanPlacementWithCapacity H e l a cap ps cs = Inr t" and "PlanPlacementWithCapacity H e' l' a' cap' ps' cs = Inr t'"
    and "view_members l' cap' ps' = insert (x, k) (view_members l cap ps)"
  shows "list_all2 (\<lambda>s s'. s' = s \<or> s' = s\<lparr>sp_NodeID := x\<rparr>) (pt_Shards t) (pt_Shards t')"
proof -
  note p = Plan_Inr [OF assms(1)] and q = Plan_Inr [OF assms(2)]
  have own: "shardOwner H c i (pt_Nodes t') = x \<or> shardOwner H c i (pt_Nodes t') = shardOwner H c i (pt_Nodes t)" for c i
    using shardOwner_best [OF p(4,2), of H c i] shardOwner_best [OF q(4,2), of H c i]
      best_of_grow [of H c i "pt_Nodes t" _ "pt_Nodes t'" _ x k] p(5) q(5) assms(3) by metis
  show ?thesis
    unfolding p(1) q(1)
    by (rule list_all2_concat_map) (use own in \<open>auto simp: configShards_def list_all2_conv_all_nth\<close>)
qed

subsection \<open>Replica sets\<close>

lemma distinct_snd_sortBy:
  "distinct (map snd xs) \<Longrightarrow> distinct (map snd (sortBy lt xs))"
  using mset_eq_imp_distinct_iff [of "map snd xs" "map snd (sortBy lt xs)"] by simp

text \<open>The first candidate is the owner of the shard in the plan without replicas.\<close>

lemma hd_shardReplicas:
  assumes "nodes \<noteq> []" and "sorted (map pn_NodeID nodes)" and "0 < k"
  shows "hd (shardReplicas H c s nodes k) = shardOwner H c s nodes"
proof -
  let ?sc = "placementNodeScore H c s"
  let ?cand = "map (\<lambda>n. (?sc n, pn_NodeID n)) nodes"
  have ms: "set (sortBy candidateLess ?cand) = set ?cand" using mset_eq_setD [OF mset_sortBy] .
  have "length (sortBy candidateLess ?cand) \<noteq> 0" using assms(1) by (simp only: length_sortBy length_map) simp
  then obtain y ys where y: "sortBy candidateLess ?cand = y # ys" by (cases "sortBy candidateLess ?cand") simp_all
  have "y \<in> set ?cand" using ms y by auto
  then obtain n where n: "n \<in> set nodes" "y = (?sc n, pn_NodeID n)" by auto
  have "sorted_wrt (\<lambda>a b. candidateLess a b \<or> a = b) (y # ys)"
    unfolding y [symmetric] by (rule sorted_sortBy) (fact candidateLess_order)+
  then have first: "candidateLess y z \<or> y = z" if "z \<in> set ?cand" for z using that ms y by auto
  have "best_of H c s nodes n"
    unfolding best_of_def
  proof (intro conjI ballI n(1))
    fix m assume "m \<in> set nodes"
    then have "candidateLess y (?sc m, pn_NodeID m) \<or> y = (?sc m, pn_NodeID m)" using first by simp
    then show "?sc m < ?sc n \<or> ?sc m = ?sc n \<and> pn_NodeID n \<le> pn_NodeID m"
      using n(2) by (auto simp: candidateLess_def split: if_splits)
  qed
  then have "pn_NodeID n = shardOwner H c s nodes"
    using shardOwner_best [OF assms(1,2), of H c s] best_of_unique by metis
  then show ?thesis using y n(2) assms(3) by (simp add: shardReplicas_def take_Cons')
qed

lemma shardReplicas_sound:
  assumes "distinct (map pn_NodeID nodes)" and "k \<le> length nodes"
  shows "distinct (shardReplicas H c s nodes k)" and "length (shardReplicas H c s nodes k) = k"
    and "set (shardReplicas H c s nodes k) \<subseteq> pn_NodeID ` set nodes"
proof -
  let ?cand = "map (\<lambda>n. (placementNodeScore H c s n, pn_NodeID n)) nodes"
  have "distinct (map snd (sortBy candidateLess ?cand))" by (rule distinct_snd_sortBy) (simp add: assms(1) comp_def)
  then show "distinct (shardReplicas H c s nodes k)" by (simp add: shardReplicas_def take_map [symmetric])
  show "length (shardReplicas H c s nodes k) = k" using assms(2) by (simp add: shardReplicas_def)
  have "set (shardReplicas H c s nodes k) \<subseteq> snd ` set (sortBy candidateLess ?cand)"
    unfolding shardReplicas_def set_map by (intro image_mono set_take_subset)
  then show "set (shardReplicas H c s nodes k) \<subseteq> pn_NodeID ` set nodes" by auto
qed

text \<open>
  C19: Replica placement extends the placement of the owners: for every shard it chooses exactly as many different
  members as the replication factor asks for, and the first of them, the initial leader, is the owner
  that the plan without replicas names.
\<close>

theorem replicas_extend_placement:
  assumes "PlanReplicaPlacementWithCapacity H e l a cap ps cs k = Inr r"
  shows "\<exists>t. PlanPlacementWithCapacity H e l a cap ps cs = Inr t \<and> list_all2 (\<lambda>s g.
      sr_Collection g = sp_Collection s \<and> sr_ShardID g = sp_ShardID s \<and> LeaderID g = sp_NodeID s
      \<and> hd (Replicas g) = LeaderID g \<and> distinct (Replicas g) \<and> int (length (Replicas g)) = k
      \<and> set (Replicas g) \<subseteq> fst ` view_members l cap ps) (pt_Shards t) (rt_Shards r)"
proof -
  obtain t where t: "PlanPlacementWithCapacity H e l a cap ps cs = Inr t" "1 \<le> k" "k \<le> int (length (pt_Nodes t))"
      "rt_Shards r = concat (map (configReplicas H (pt_Nodes t) (nat k)) (sort_key Name cs))"
    using assms by (auto simp: PlanReplicaPlacementWithCapacity_def and_then_Inr_iff split: if_splits)
  note p = Plan_Inr [OF t(1)]
  have ids: "pn_NodeID ` set (pt_Nodes t) = fst ` view_members l cap ps"
    unfolding p(5) [symmetric] by (simp add: image_image node_key_def)
  have rep: "hd (shardReplicas H c i (pt_Nodes t) (nat k)) = shardOwner H c i (pt_Nodes t)"
      "distinct (shardReplicas H c i (pt_Nodes t) (nat k))" "length (shardReplicas H c i (pt_Nodes t) (nat k)) = nat k"
      "set (shardReplicas H c i (pt_Nodes t) (nat k)) \<subseteq> fst ` view_members l cap ps" for c i
    using hd_shardReplicas [OF p(4,2), of "nat k" H c i] shardReplicas_sound [OF p(3), of "nat k" H c i] t(2,3) ids
    by simp_all
  have "list_all2 (\<lambda>s g.
      sr_Collection g = sp_Collection s \<and> sr_ShardID g = sp_ShardID s \<and> LeaderID g = sp_NodeID s
      \<and> hd (Replicas g) = LeaderID g \<and> distinct (Replicas g) \<and> int (length (Replicas g)) = k
      \<and> set (Replicas g) \<subseteq> fst ` view_members l cap ps) (pt_Shards t) (rt_Shards r)"
    unfolding p(1) t(4)
    by (rule list_all2_concat_map)
      (use rep t(2) in \<open>simp add: configShards_def configReplicas_def list_all2_conv_all_nth Let_def\<close>)
  then show ?thesis using t(1) by blast
qed

subsection \<open>Health probes\<close>

text \<open>What the plan reads of a peer, apart from its health.\<close>

definition peer_identity :: "Peer \<Rightarrow> string \<times> string \<times> string \<times> u32" where
  "peer_identity p = (SeedURL p, pr_NodeID p, AdvertiseAddress p, PlacementCapacity p)"

lemma node_key_make [simp]:
  "node_key \<lparr>pn_NodeID = i, pn_AdvertiseAddress = a, pn_Capacity = c, pn_Healthy = h, pn_Local = b\<rparr> = (i, c)"
  by (simp add: node_key_def)

lemma addPeers_identity:
  assumes "foldR addPeer ps ns = Inr ms" and "map peer_identity ps = map peer_identity ps'"
    and "map node_key ns = map node_key ns'"
  shows "\<exists>ms'. foldR addPeer ps' ns' = Inr ms' \<and> map node_key ms = map node_key ms'"
  using assms
proof (induction ps arbitrary: ns ps' ns')
  case (Cons p ps)
  obtain q qs where q: "ps' = q # qs" "peer_identity p = peer_identity q" "map peer_identity ps = map peer_identity qs"
    using Cons.prems(2) by (cases ps') auto
  obtain ns1 where n1: "addPeer p ns = Inr ns1" "foldR addPeer ps ns1 = Inr ms"
    using Cons.prems(1) by (auto simp: and_then_Inr_iff)
  have "map pn_NodeID ns = map pn_NodeID ns'"
    using arg_cong [OF Cons.prems(3), of "map fst"] by (simp add: node_key_def comp_def)
  then have "set (map pn_NodeID ns) = set (map pn_NodeID ns')" by (rule arg_cong)
  then obtain ns1' where "addPeer q ns' = Inr ns1'" "map node_key ns1 = map node_key ns1'"
    using n1(1) q(2) Cons.prems(3)
    by (auto simp: addPeer_def Let_def and_then_Inr_iff peer_identity_def split: if_splits)
  then show ?case using Cons.IH [OF n1(2) q(3)] by (simp add: q(1))
qed simp

lemma Plan_identity:
  assumes "PlanPlacementWithCapacity H e l a cap ps cs = Inr t" and "map peer_identity ps = map peer_identity ps'"
  shows "\<exists>t'. PlanPlacementWithCapacity H e l a cap ps' cs = Inr t' \<and> pt_Shards t' = pt_Shards t"
proof -
  let ?local = "\<lparr>pn_NodeID = l, pn_AdvertiseAddress = a, pn_Capacity = cap, pn_Healthy = True, pn_Local = True\<rparr>"
  obtain ns where n: "foldR addPeer ps [?local] = Inr ns" "\<not> (e = 0 \<or> \<not> ValidNodeID l \<or> a = [])"
      "validatePlacementCapacity cap = Inr ()" "\<forall>c \<in> set cs. is_ok (Validate c)"
    using assms(1) by (auto simp: PlanPlacementWithCapacity_def Let_def and_then_Inr_iff foldR_collect split: if_splits)
  obtain ns' where n': "foldR addPeer ps' [?local] = Inr ns'" "map node_key ns = map node_key ns'"
    using addPeers_identity [OF n(1) assms(2)] by blast
  have ok: "\<exists>t'. PlanPlacementWithCapacity H e l a cap ps' cs = Inr t'"
    using n n'(1) by (auto simp: PlanPlacementWithCapacity_def Let_def and_then_Inr_iff foldR_collect)
  then obtain t' where t': "PlanPlacementWithCapacity H e l a cap ps' cs = Inr t'" by blast
  have "view_members l cap ps = view_members l cap ps'"
  proof -
    have e: "set (map peer_identity ps) = set (map peer_identity ps')" using assms(2) by simp
    have im: "(\<lambda>p. (pr_NodeID p, peerCapacity p)) ` {p \<in> set qs. pr_NodeID p \<noteq> []}
        = (\<lambda>(s, n, a, c). (n, if c = 0 then 1 else c)) ` {i \<in> set (map peer_identity qs). fst (snd i) \<noteq> []}" for qs
    proof -
      have "{i \<in> set (map peer_identity qs). fst (snd i) \<noteq> []} = peer_identity ` {p \<in> set qs. pr_NodeID p \<noteq> []}"
        by (auto simp: peer_identity_def)
      then show ?thesis by (simp only: image_image) (simp add: peer_identity_def peerCapacity_def)
    qed
    show ?thesis unfolding view_members_def im e by (rule refl)
  qed
  then have "map node_key (pt_Nodes t) = map node_key (pt_Nodes t')" by (rule nodes_determined [OF assms(1) t'])
  then have "pt_Shards t' = pt_Shards t"
    using configShards_keys [OF Plan_Inr(4) [OF assms(1)] Plan_Inr(4) [OF t'], of H]
    by (simp add: Plan_Inr(1) [OF assms(1)] Plan_Inr(1) [OF t'])
  then show ?thesis using t' by blast
qed

text \<open>Failed probes keep what the plan reads.\<close>

definition identities :: "Discovery \<Rightarrow> (string \<times> string \<times> string \<times> string \<times> u32) list" where
  "identities d = map (\<lambda>(seed, p). (seed, peer_identity p)) (peers d)"

lemma map_update_same:
  "map_of xs k = Some q \<Longrightarrow> f v = f q \<Longrightarrow> map (\<lambda>(k, p). (k, f p)) (AList.update k v xs) = map (\<lambda>(k, p). (k, f p)) xs"
  by (induction xs) (auto split: if_splits)

lemma failed_identities:
  assumes "table_ok d" and "seed \<in> set (map fst (peers d))"
  shows "identities (pollOne seed t (Failed m) d) = identities d"
proof -
  obtain q where q: "map_of (peers d) seed = Some q" using assms(2) by (metis list.set_map map_of_eq_None_iff option.exhaust)
  then have s: "SeedURL q = seed" using assms(1) by (simp add: table_ok_def)
  show ?thesis
    using s unfolding identities_def pollOne_def
    by (simp add: Let_def store_def previousPeer_def q zeroPeer_def storeFailure_def keepIdentity_def peer_identity_def
        map_update_same [OF q])
qed

lemma keys_identities: "map fst (peers d) = map fst (identities d)"
  by (simp add: identities_def comp_def case_prod_unfold)

lemma failed_fold:
  assumes "table_ok d" and "set seeds \<subseteq> set (map fst (peers d))" and "\<forall>seed. \<exists>m. snd (A seed) = Failed m"
  shows "identities (fold (\<lambda>seed d. pollOne seed (fst (A seed)) (snd (A seed)) d) seeds d) = identities d"
  using assms(1,2)
proof (induction seeds arbitrary: d)
  case (Cons seed seeds)
  obtain m where m: "snd (A seed) = Failed m" using assms(3) by blast
  have i: "identities (pollOne seed (fst (A seed)) (Failed m) d) = identities d"
    by (rule failed_identities [OF Cons.prems(1)]) (use Cons.prems(2) in simp)
  have "identities (fold (\<lambda>seed d. pollOne seed (fst (A seed)) (snd (A seed)) d) seeds (pollOne seed (fst (A seed)) (Failed m) d))
      = identities (pollOne seed (fst (A seed)) (Failed m) d)"
    by (rule Cons.IH [OF pollOne_ok(1) [OF Cons.prems(1)]]) (use Cons.prems(2) in \<open>simp add: keys_identities i del: set_map\<close>)
  then show ?case by (simp add: m i)
qed simp

lemma failed_Poll:
  assumes "table_ok d" and "\<forall>seed. \<exists>m. snd (A seed) = Failed m"
  shows "identities (Poll A d) = identities d"
proof -
  have "peer_identity (reconciled ps p) = peer_identity p" for ps p
    by (simp add: peer_identity_def reconciled_def Let_def markDuplicate_def)
  then have "identities (reconcileDuplicateNodeIDs e) = identities e" for e
    by (simp add: identities_def reconcile_map comp_def case_prod_unfold)
  then show ?thesis unfolding Poll_def using failed_fold [OF assms(1) order_refl assms(2)] by simp
qed

lemma failed_run:
  assumes "table_ok d" and "\<forall>A \<in> set rounds. \<forall>seed. \<exists>m. snd (A seed) = Failed m"
  shows "identities (run_polls rounds d) = identities d"
  using assms
proof (induction rounds arbitrary: d)
  case (Cons A rounds)
  have "identities (run_polls rounds (Poll A d)) = identities (Poll A d)"
    by (rule Cons.IH [OF Poll_ok(1) [OF Cons.prems(1)]]) (use Cons.prems(2) in simp)
  moreover have "identities (Poll A d) = identities d" by (rule failed_Poll [OF Cons.prems(1)]) (use Cons.prems(2) in simp)
  ultimately show ?case by (simp add: run_polls_def)
qed (simp add: run_polls_def)

lemma map_sort_key: "map g (sort_key (\<lambda>x. h (g x)) xs) = sort_key h (map g xs)"
proof (induction xs)
  case (Cons x xs)
  have "map g (insort_key (\<lambda>x. h (g x)) x ys) = insort_key h (g x) (map g ys)" for ys by (induction ys) simp_all
  then show ?case using Cons by simp
qed simp

lemma PeersOf_identities: "map peer_identity (PeersOf d) = sort_key fst (map snd (identities d))"
proof -
  have "SeedURL = (\<lambda>p. fst (peer_identity p))" by (simp add: peer_identity_def fun_eq_iff)
  then show ?thesis
    using map_sort_key [of peer_identity fst "map snd (peers d)"]
    by (simp add: PeersOf_def identities_def comp_def case_prod_unfold)
qed

text \<open>
  C20: Transient failures move no shard: after any history of the discovery loop, further rounds in which every
  probe fails leave the placement plan over the discovered peers accepted and the owner of every shard
  as it was, although the peers become suspected and unhealthy.
\<close>

theorem failed_probes_move_nothing:
  assumes "NewDiscovery norm now l c seeds = Inr d0"
    and "PlanPlacementWithCapacity H e l a cap (PeersOf (run_polls past d0)) cs = Inr t"
    and "\<forall>A \<in> set rounds. \<forall>seed. \<exists>m. snd (A seed) = Failed m"
  shows "\<exists>t'. PlanPlacementWithCapacity H e l a cap (PeersOf (run_polls rounds (run_polls past d0))) cs = Inr t'
    \<and> pt_Shards t' = pt_Shards t"
proof (rule Plan_identity [OF assms(2)])
  have "table_ok (run_polls past d0)" by (rule run_polls_ok(1) [OF NewDiscovery_ok(1) [OF assms(1)]])
  then show "map peer_identity (PeersOf (run_polls past d0)) = map peer_identity (PeersOf (run_polls rounds (run_polls past d0)))"
    using failed_run [OF _ assms(3)] by (simp add: PeersOf_identities)
qed

subsection \<open>A concrete plan\<close>

definition sample_collection :: CollectionConfig where
  "sample_collection = \<lparr>Name = ''docs'', Dimension = 2, Metric = ''l2'', ShardCount = 2,
    cc_Index = \<lparr>ic_Type = [], ic_M = 0, EFConstruction = 0, EFSearch = 0, Quantization = [], Oversampling = 0,
      PQSubspaces = 0, MaxDegree = 0, Alpha = 0\<rparr>, Vectorizer = [], Vectors = []\<rparr>"

definition sample_peer :: "char \<Rightarrow> Peer" where
  "sample_peer c = zeroPeer\<lparr>SeedURL := [c], pr_NodeID := sample_node c, AdvertiseAddress := ''x:1''\<rparr>"

definition sample_plan :: "char \<Rightarrow> Peer list \<Rightarrow> PlacementTable result" where
  "sample_plan c ps = PlanPlacementWithCapacity id 1 (sample_node c) ''y:1'' 1 ps [sample_collection]"

definition owners :: "PlacementTable result \<Rightarrow> string list option" where
  "owners r = (case r of Inl _ \<Rightarrow> None | Inr t \<Rightarrow> Some (map sp_NodeID (pt_Shards t)))"

lemma ownersE:
  assumes "owners r = Some os"
  obtains t where "r = Inr t" and "map sp_NodeID (pt_Shards t) = os"
  using assms by (cases r) (auto simp: owners_def)

lemma sample_owners:
  "owners (sample_plan (CHR ''1'') []) = Some [sample_node (CHR ''1''), sample_node (CHR ''1'')]"
  "owners (sample_plan (CHR ''1'') [sample_peer (CHR ''2'')]) = Some [sample_node (CHR ''2''), sample_node (CHR ''2'')]"
  "owners (sample_plan (CHR ''2'') [sample_peer (CHR ''1'')]) = Some [sample_node (CHR ''2''), sample_node (CHR ''2'')]"
  by code_simp+

theorem placement_is_total_and_best_witness:
  "\<exists>t. sample_plan (CHR ''1'') [sample_peer (CHR ''2'')] = Inr t
    \<and> map (\<lambda>s. (sp_Collection s, sp_ShardID s)) (pt_Shards t) = [(''docs'', 0), (''docs'', 1)]
    \<and> node_key ` set (pt_Nodes t) = {(sample_node (CHR ''1''), 1), (sample_node (CHR ''2''), 1)}"
proof -
  obtain t where t: "sample_plan (CHR ''1'') [sample_peer (CHR ''2'')] = Inr t" by (rule ownersE [OF sample_owners(2)])
  have v: "view_members (sample_node (CHR ''1'')) 1 [sample_peer (CHR ''2'')]
      = {(sample_node (CHR ''1''), 1), (sample_node (CHR ''2''), 1)}" by code_simp
  show ?thesis
    using placement_is_total_and_best [OF t [unfolded sample_plan_def]] t v
    by (auto simp: sample_collection_def upt_rec)
qed

theorem growth_moves_only_to_new_node_witness:
  "\<exists>t t'. sample_plan (CHR ''1'') [] = Inr t \<and> sample_plan (CHR ''1'') [sample_peer (CHR ''2'')] = Inr t'
    \<and> list_all2 (\<lambda>s s'. s' = s \<or> s' = s\<lparr>sp_NodeID := sample_node (CHR ''2'')\<rparr>) (pt_Shards t) (pt_Shards t')
    \<and> map sp_NodeID (pt_Shards t') = [sample_node (CHR ''2''), sample_node (CHR ''2'')]"
proof -
  obtain t where t: "sample_plan (CHR ''1'') [] = Inr t" by (rule ownersE [OF sample_owners(1)])
  obtain t' where t': "sample_plan (CHR ''1'') [sample_peer (CHR ''2'')] = Inr t'"
      "map sp_NodeID (pt_Shards t') = [sample_node (CHR ''2''), sample_node (CHR ''2'')]"
    by (rule ownersE [OF sample_owners(2)])
  have v: "view_members (sample_node (CHR ''1'')) 1 [sample_peer (CHR ''2'')]
      = insert (sample_node (CHR ''2''), 1) (view_members (sample_node (CHR ''1'')) 1 [])" by code_simp
  show ?thesis
    using growth_moves_only_to_new_node [OF t [unfolded sample_plan_def] t'(1) [unfolded sample_plan_def] v] t t'
    by (intro exI conjI)
qed

definition sample_digests :: "char \<Rightarrow> Peer list \<Rightarrow> ViewDigests result" where
  "sample_digests c ps =
     ComputeViewDigestsWithCapacity id \<lparr>digest_ids = concat, digest_configs = concat \<circ> map Name, digest_shards = concat \<circ> map sp_NodeID\<rparr>
       1 (sample_node c) ''y:1'' 1 ps [sample_collection]"

theorem views_converge_witness:
  "\<exists>v. sample_digests (CHR ''1'') [sample_peer (CHR ''2'')] = Inr v \<and> sample_digests (CHR ''2'') [sample_peer (CHR ''1'')] = Inr v"
proof -
  have "is_ok (sample_digests (CHR ''1'') [sample_peer (CHR ''2'')])" "is_ok (sample_digests (CHR ''2'') [sample_peer (CHR ''1'')])"
    by code_simp+
  then obtain v v' where v: "sample_digests (CHR ''1'') [sample_peer (CHR ''2'')] = Inr v"
      "sample_digests (CHR ''2'') [sample_peer (CHR ''1'')] = Inr v'" by (auto elim!: is_okE)
  have m: "view_members (sample_node (CHR ''1'')) 1 [sample_peer (CHR ''2'')]
      = view_members (sample_node (CHR ''2'')) 1 [sample_peer (CHR ''1'')]" by code_simp
  show ?thesis
    using views_converge [OF v [unfolded sample_digests_def] m] v by simp
qed

theorem replicas_extend_placement_witness:
  "\<exists>r. PlanReplicaPlacementWithCapacity id 1 (sample_node (CHR ''1'')) ''y:1'' 1 [sample_peer (CHR ''2'')] [sample_collection] 2 = Inr r
    \<and> map (\<lambda>g. (LeaderID g, distinct (Replicas g), length (Replicas g))) (rt_Shards r)
      = [(sample_node (CHR ''2''), True, 2), (sample_node (CHR ''2''), True, 2)]"
proof -
  let ?r = "PlanReplicaPlacementWithCapacity id 1 (sample_node (CHR ''1'')) ''y:1'' 1 [sample_peer (CHR ''2'')] [sample_collection] 2"
  have "is_ok ?r" by code_simp
  then obtain r where r: "?r = Inr r" by (auto elim!: is_okE)
  obtain t where t: "sample_plan (CHR ''1'') [sample_peer (CHR ''2'')] = Inr t"
      "map sp_NodeID (pt_Shards t) = [sample_node (CHR ''2''), sample_node (CHR ''2'')]"
    by (rule ownersE [OF sample_owners(2)])
  from replicas_extend_placement [OF r] show ?thesis
    using r t by (auto simp: sample_plan_def map_eq_Cons_conv list_all2_Cons1)
qed

definition all_failing :: "string \<Rightarrow> nat \<times> probe" where
  "all_failing seed = (3, Failed ''timeout'')"

theorem failed_probes_move_nothing_witness:
  "\<exists>t'. PlanPlacementWithCapacity id 1 (sample_node (CHR ''1'')) ''y:1'' 1
      (PeersOf (run_polls [all_failing] (run_polls [sample_round] sample_table))) [sample_collection] = Inr t'
    \<and> map sp_NodeID (pt_Shards t') = [sample_node (CHR ''3''), sample_node (CHR ''3'')]"
proof -
  let ?p = "PlanPlacementWithCapacity id 1 (sample_node (CHR ''1'')) ''y:1'' 1
      (PeersOf (run_polls [sample_round] sample_table)) [sample_collection]"
  have "owners ?p = Some [sample_node (CHR ''3''), sample_node (CHR ''3'')]" by code_simp
  then obtain t where t: "?p = Inr t" "map sp_NodeID (pt_Shards t) = [sample_node (CHR ''3''), sample_node (CHR ''3'')]"
    by (rule ownersE)
  show ?thesis
    using failed_probes_move_nothing [OF sample_new t(1), of "[all_failing]"] t(2) by (auto simp: all_failing_def)
qed

end
