(* ===== verification/Vector_Index.thy ===== *)
theory Vector_Index
  imports Core_Types Go_Sort "HOL-Library.AList"
begin

text \<open>
  The local vector index: the interface of \<open>internal/index/index.go\<close>, the exact in-memory index of
  \<open>internal/index/flat/flat.go\<close> with its reused slots, and the read-only index over mapped vectors of
  \<open>mapped.go\<close>. The floating-point kernels of \<open>internal/distance\<close> are an argument \<open>D\<close>: a score for a metric, a query
  and a vector. The locale \<open>vector_index\<close> is what a segment relies on.
\<close>

subsection \<open>Candidates\<close>

record Candidate =
  cand_ID :: u64
  cand_Score :: f32

definition f32_eq :: "f32 \<Rightarrow> f32 \<Rightarrow> bool" where
  "f32_eq x y \<longleftrightarrow> \<not> f32_nan x \<and> \<not> f32_nan y \<and> f32_key x = f32_key y"

definition better :: "Candidate \<Rightarrow> Candidate \<Rightarrow> bool" where
  "better a b \<longleftrightarrow> f32_lt (cand_Score b) (cand_Score a) \<or> f32_eq (cand_Score a) (cand_Score b) \<and> cand_ID a < cand_ID b"

definition worse :: "Candidate \<Rightarrow> Candidate \<Rightarrow> bool" where
  "worse a b = better b a"

definition pushCandidate :: "Candidate list \<Rightarrow> Candidate \<Rightarrow> Candidate list" where
  "pushCandidate h c = siftUp worse (h @ [c]) (length h)"

definition fixCandidateRoot :: "Candidate list \<Rightarrow> Candidate list" where
  "fixCandidateRoot h = siftDown worse h 0"

definition sortCandidates :: "Candidate list \<Rightarrow> Candidate list" where
  "sortCandidates = insertionSort better"

text \<open>The body of the scan: a full heap only takes a candidate that beats its root.\<close>

definition keepCandidate :: "int \<Rightarrow> Candidate \<Rightarrow> Candidate list \<Rightarrow> Candidate list result" where
  "keepCandidate k c h =
     (if int (length h) < k then Inr (pushCandidate h c)
      else if h = [] then Inl GoPanic
      else if better c (h ! 0) then Inr (fixCandidateRoot (h[0 := c]))
      else Inr h)"

subsection \<open>The interface\<close>

type_synonym scorer = "string \<Rightarrow> f32 list \<Rightarrow> f32 list \<Rightarrow> f32 result"

record SearchOptions =
  so_EFSearch :: int
  so_AllowedCount :: int

text \<open>The methods of a \<open>VectorIndex\<close>; an index that cannot be tuned ignores the options.\<close>

record 'i index_ops =
  ixUpsert :: "'i \<Rightarrow> u64 \<Rightarrow> f32 list \<Rightarrow> 'i result"
  ixDelete :: "'i \<Rightarrow> u64 \<Rightarrow> 'i result"
  ixSearch :: "'i \<Rightarrow> f32 list \<Rightarrow> int \<Rightarrow> SearchOptions \<Rightarrow> (u64 \<Rightarrow> bool) \<Rightarrow> Candidate list result"
  ixLen :: "'i \<Rightarrow> int"

subsection \<open>The flat index\<close>

record FlatIndex =
  fi_dimension :: int
  fi_metric :: string
  fi_vectors :: "f32 list"
  fi_ids :: "u64 list"
  fi_ordinals :: "(u64 \<times> nat) list"
  fi_free :: "nat list"

definition FlatNew :: "int \<Rightarrow> string \<Rightarrow> FlatIndex result" where
  "FlatNew dimension metric =
     (if dimension \<le> 0 \<or> \<not> MetricValid metric then Inl (ErrInvalidArgument ''invalid flat index configuration'')
      else Inr \<lparr>fi_dimension = dimension, fi_metric = metric, fi_vectors = [], fi_ids = [], fi_ordinals = [], fi_free = []\<rparr>)"

definition flatVectorAt :: "FlatIndex \<Rightarrow> nat \<Rightarrow> f32 list" where
  "flatVectorAt f ordinal = (let d = nat (fi_dimension f) in take d (drop (ordinal * d) (fi_vectors f)))"

text \<open>\<open>copy\<close> into the slice of an ordinal.\<close>

definition writeVector :: "FlatIndex \<Rightarrow> nat \<Rightarrow> f32 list \<Rightarrow> f32 list" where
  "writeVector f ordinal vector =
     (let d = nat (fi_dimension f) in
      take (ordinal * d) (fi_vectors f) @ vector @ drop (ordinal * d + d) (fi_vectors f))"

definition FlatUpsert :: "FlatIndex \<Rightarrow> u64 \<Rightarrow> f32 list \<Rightarrow> FlatIndex result" where
  "FlatUpsert f uid vector =
     (if int (length vector) \<noteq> fi_dimension f then Inl ErrDimensionMismatch
      else
        case map_of (fi_ordinals f) uid of
          Some ordinal \<Rightarrow> Inr (f\<lparr>fi_vectors := writeVector f ordinal vector\<rparr>)
        | None \<Rightarrow>
            if fi_free f \<noteq> [] then
              let ordinal = last (fi_free f) in
              Inr (f\<lparr>fi_free := butlast (fi_free f), fi_vectors := writeVector f ordinal vector,
                     fi_ids := (fi_ids f)[ordinal := uid], fi_ordinals := AList.update uid ordinal (fi_ordinals f)\<rparr>)
            else
              let ordinal = length (fi_ids f) in
              Inr (f\<lparr>fi_vectors := fi_vectors f @ vector, fi_ids := fi_ids f @ [uid],
                     fi_ordinals := AList.update uid ordinal (fi_ordinals f)\<rparr>))"

definition FlatDelete :: "FlatIndex \<Rightarrow> u64 \<Rightarrow> FlatIndex result" where
  "FlatDelete f uid =
     (case map_of (fi_ordinals f) uid of
        None \<Rightarrow> Inl ErrNotFound
      | Some ordinal \<Rightarrow>
          Inr (f\<lparr>fi_ordinals := AList.delete uid (fi_ordinals f), fi_ids := (fi_ids f)[ordinal := 0],
                 fi_vectors := writeVector f ordinal (replicate (nat (fi_dimension f)) 0),
                 fi_free := fi_free f @ [ordinal]\<rparr>))"

definition FlatSearchFiltered :: "scorer \<Rightarrow> FlatIndex \<Rightarrow> f32 list \<Rightarrow> int \<Rightarrow> (u64 \<Rightarrow> bool) \<Rightarrow> Candidate list result" where
  "FlatSearchFiltered D f query k allowed =
     (if int (length query) \<noteq> fi_dimension f then Inl ErrDimensionMismatch
      else if k \<le> 0 then Inl (ErrInvalidArgument ''k must be positive'')
      else
        and_then
          (foldR (\<lambda>(ordinal, uid) h.
              if uid = 0 \<or> \<not> allowed uid then Inr h
              else and_then (D (fi_metric f) query (flatVectorAt f ordinal)) (\<lambda>score.
                   keepCandidate k \<lparr>cand_ID = uid, cand_Score = score\<rparr> h))
            (enumerate 0 (fi_ids f)) [])
          (\<lambda>h. Inr (sortCandidates h)))"

definition FlatLen :: "FlatIndex \<Rightarrow> int" where
  "FlatLen f = int (length (fi_ordinals f))"

subsection \<open>Mapped vectors\<close>

text \<open>
  A \<open>MappedSource\<close> is a column of vectors of one dimension; after \<open>Close\<close> the column is unmapped. Several segments are
  presented as one column by \<open>CompositeMappedVectors\<close>, so the rows are listed in the order of the logical column.
\<close>

record MappedSource =
  ms_dimension :: int
  ms_rows :: "f32 list list option"

definition ScoreAcquired :: "scorer \<Rightarrow> MappedSource \<Rightarrow> string \<Rightarrow> f32 list \<Rightarrow> nat \<Rightarrow> f32 result" where
  "ScoreAcquired D m metric query ordinal =
     (case ms_rows m of
        None \<Rightarrow> Inl (ErrMsg ''mapped vectors are closed'')
      | Some rows \<Rightarrow>
          if int (length query) \<noteq> ms_dimension m then Inl ErrDimensionMismatch
          else if ordinal \<ge> length rows then Inl (ErrInvalidArgument ''vector ordinal out of range'')
          else D metric query (rows ! ordinal))"

definition VectorCopy :: "MappedSource \<Rightarrow> nat \<Rightarrow> f32 list result" where
  "VectorCopy m ordinal =
     (case ms_rows m of
        None \<Rightarrow> Inl (ErrMsg ''mapped vectors are closed'')
      | Some rows \<Rightarrow>
          if ordinal \<ge> length rows then Inl (ErrInvalidArgument ''vector ordinal out of range'') else Inr (rows ! ordinal))"

definition MappedClose :: "MappedSource \<Rightarrow> MappedSource" where
  "MappedClose m = m\<lparr>ms_rows := None\<rparr>"

record MappedIndex =
  mi_source :: MappedSource
  mi_metric :: string
  mi_ids :: "u64 list"

definition NewMappedIndex :: "MappedSource \<Rightarrow> string \<Rightarrow> u64 list \<Rightarrow> MappedIndex result" where
  "NewMappedIndex source metric ids =
     (if \<not> MetricValid metric \<or> ms_dimension source \<le> 0
         \<or> (case ms_rows source of None \<Rightarrow> 0 | Some rows \<Rightarrow> length rows) \<noteq> length ids
      then Inl (ErrInvalidArgument ''invalid mapped index configuration'')
      else
        and_then
          (foldR (\<lambda>uid seen.
              if uid = 0 then Inl (ErrInvalidArgument ''mapped index IDs must be nonzero'')
              else if uid \<in> set seen then Inl (ErrInvalidArgument ''duplicate mapped index ID'')
              else Inr (uid # seen)) ids [])
          (\<lambda>_. Inr \<lparr>mi_source = source, mi_metric = metric, mi_ids = ids\<rparr>))"

definition MappedSearchFiltered :: "scorer \<Rightarrow> MappedIndex \<Rightarrow> f32 list \<Rightarrow> int \<Rightarrow> (u64 \<Rightarrow> bool) \<Rightarrow> Candidate list result" where
  "MappedSearchFiltered D m query k allowed =
     (if int (length query) \<noteq> ms_dimension (mi_source m) then Inl ErrDimensionMismatch
      else if k \<le> 0 then Inl (ErrInvalidArgument ''k must be positive'')
      else if ms_rows (mi_source m) = None then Inl (ErrMsg ''mapped vectors are closed'')
      else
        and_then
          (foldR (\<lambda>(ordinal, uid) h.
              if \<not> allowed uid then Inr h
              else and_then (ScoreAcquired D (mi_source m) (mi_metric m) query ordinal) (\<lambda>score.
                   keepCandidate k \<lparr>cand_ID = uid, cand_Score = score\<rparr> h))
            (enumerate 0 (mi_ids m)) [])
          (\<lambda>h. Inr (sortCandidates h)))"

subsection \<open>The exact indexes behind the interface\<close>

datatype local_index = FlatLocal FlatIndex | MappedLocal MappedIndex

definition exactOps :: "scorer \<Rightarrow> local_index index_ops" where
  "exactOps D = \<lparr>
     ixUpsert = (\<lambda>i uid v. case i of FlatLocal f \<Rightarrow> map_sum (\<lambda>e. e) FlatLocal (FlatUpsert f uid v)
                          | MappedLocal _ \<Rightarrow> Inl (ErrMsg ''mapped index is immutable'')),
     ixDelete = (\<lambda>i uid. case i of FlatLocal f \<Rightarrow> map_sum (\<lambda>e. e) FlatLocal (FlatDelete f uid)
                        | MappedLocal _ \<Rightarrow> Inl (ErrMsg ''mapped index is immutable'')),
     ixSearch = (\<lambda>i q k _ allowed. case i of FlatLocal f \<Rightarrow> FlatSearchFiltered D f q k allowed
                                   | MappedLocal m \<Rightarrow> MappedSearchFiltered D m q k allowed),
     ixLen = (\<lambda>i. case i of FlatLocal f \<Rightarrow> FlatLen f | MappedLocal m \<Rightarrow> int (length (mi_ids m)))\<rparr>"

subsection \<open>Ranking candidates\<close>

definition candKey :: "Candidate \<Rightarrow> int \<times> u64" where
  "candKey c = (- f32_key (cand_Score c), cand_ID c)"

definition candOk :: "Candidate \<Rightarrow> bool" where
  "candOk c \<longleftrightarrow> \<not> f32_nan (cand_Score c)"

interpretation cand: ranked candKey candOk worse better
  by unfold_locales
    (auto simp: worse_def better_def candKey_def candOk_def f32_lt_def f32_eq_def less_prod_def' less_le)

lemma keepCandidate_offer: "keepCandidate = offer worse better"
  by (simp add: fun_eq_iff keepCandidate_def offer_def pushCandidate_def fixCandidateRoot_def)

text \<open>A scan that skips some elements and fails on none offers the others in order.\<close>

lemma foldR_scan:
  assumes "\<And>x. x \<in> set xs \<Longrightarrow> \<not> skip x \<Longrightarrow> g x = Inr (score x)"
  shows "foldR (\<lambda>x h. if skip x then Inr h else and_then (g x) (\<lambda>s. keep (mk x s) h)) xs h
    = foldR keep (map (\<lambda>x. mk x (score x)) (filter (\<lambda>x. \<not> skip x) xs)) h"
  using assms
proof (induction xs arbitrary: h)
  case (Cons x xs)
  show ?case
  proof (cases "skip x")
    case True
    then show ?thesis using Cons by simp
  next
    case False
    then show ?thesis using Cons by (cases "keep (mk x (score x)) h") simp_all
  qed
qed simp

subsection \<open>Rows of a flat array\<close>

definition chunk :: "nat \<Rightarrow> 'a list \<Rightarrow> nat \<Rightarrow> 'a list" where
  "chunk d vs i = take d (drop (i * d) vs)"

definition put_chunk :: "nat \<Rightarrow> 'a list \<Rightarrow> nat \<Rightarrow> 'a list \<Rightarrow> 'a list" where
  "put_chunk d vs i v = take (i * d) vs @ v @ drop (i * d + d) vs"

lemma row_bound: "i < n \<Longrightarrow> i * d + d \<le> n * (d :: nat)"
  by (metis Suc_leI add.commute mult_Suc mult_le_mono1)

lemma length_put_chunk [simp]: "length vs = n * d \<Longrightarrow> length v = d \<Longrightarrow> i < n \<Longrightarrow> length (put_chunk d vs i v) = n * d"
  using row_bound [of i n d] by (simp add: put_chunk_def)

lemma length_chunk: "length vs = n * d \<Longrightarrow> i < n \<Longrightarrow> length (chunk d vs i) = d"
  using row_bound [of i n d] by (simp add: chunk_def)

lemma chunk_put_same: "length vs = n * d \<Longrightarrow> length v = d \<Longrightarrow> i < n \<Longrightarrow> chunk d (put_chunk d vs i v) i = v"
  using row_bound [of i n d] by (simp add: chunk_def put_chunk_def)

lemma nth_put_chunk:
  assumes "length vs = n * d" "length v = d" "i < n" "j < n * d" "j < i * d \<or> i * d + d \<le> j"
  shows "put_chunk d vs i v ! j = vs ! j"
  using assms row_bound [OF assms(3), of d] by (auto simp: put_chunk_def nth_append)

lemma chunk_put_other:
  assumes "length vs = n * d" "length v = d" "i < n" "j < n" "j \<noteq> i"
  shows "chunk d (put_chunk d vs i v) j = chunk d vs j"
proof (rule nth_equalityI)
  show "length (chunk d (put_chunk d vs i v) j) = length (chunk d vs j)"
    using assms by (simp add: length_chunk [where n = n])
  fix x assume "x < length (chunk d (put_chunk d vs i v) j)"
  then have x: "x < d" using assms by (simp add: length_chunk [where n = n])
  have in_range: "j * d + x < n * d" using row_bound [OF assms(4), of d] x by simp
  have "j * d + x < i * d \<or> i * d + d \<le> j * d + x"
    using assms(5) row_bound [of j i d] row_bound [of i j d] x by linarith
  then show "chunk d (put_chunk d vs i v) j ! x = chunk d vs j ! x"
    using nth_put_chunk [OF assms(1-3) in_range] x less_imp_le [OF le_less_trans [OF le_add1 in_range]] assms(1)
      length_put_chunk [OF assms(1-3)] by (simp add: chunk_def)
qed

lemma chunk_append:
  assumes "length vs = n * d" "length v = d"
  shows "chunk d (vs @ v) n = v" and "j < n \<Longrightarrow> chunk d (vs @ v) j = chunk d vs j"
  using assms row_bound [of j n d] by (simp_all add: chunk_def)

lemma flat_chunk: "flatVectorAt f i = chunk (nat (fi_dimension f)) (fi_vectors f) i"
  by (simp add: flatVectorAt_def chunk_def Let_def)

lemma write_chunk: "writeVector f i v = put_chunk (nat (fi_dimension f)) (fi_vectors f) i v"
  by (simp add: writeVector_def put_chunk_def Let_def)

subsection \<open>The flat index as a map\<close>

definition flat_inv :: "FlatIndex \<Rightarrow> bool" where
  "flat_inv f \<longleftrightarrow>
     0 < fi_dimension f \<and> length (fi_vectors f) = length (fi_ids f) * nat (fi_dimension f) \<and> distinct (map fst (fi_ordinals f))
     \<and> (\<forall>u i. map_of (fi_ordinals f) u = Some i \<longleftrightarrow> u \<noteq> 0 \<and> i < length (fi_ids f) \<and> fi_ids f ! i = u)
     \<and> distinct (fi_free f) \<and> set (fi_free f) = {i. i < length (fi_ids f) \<and> fi_ids f ! i = 0}"

definition flatVec :: "FlatIndex \<Rightarrow> u64 \<Rightarrow> f32 list option" where
  "flatVec f u = map_option (flatVectorAt f) (map_of (fi_ordinals f) u)"

lemma FlatNew_inv: "FlatNew d m = Inr f \<Longrightarrow> flat_inv f \<and> flatVec f = Map.empty \<and> fi_dimension f = d \<and> fi_metric f = m"
  by (auto simp: FlatNew_def flat_inv_def flatVec_def fun_eq_iff split: if_splits)

lemma flatVec_length: "flat_inv f \<Longrightarrow> flatVec f u = Some v \<Longrightarrow> int (length v) = fi_dimension f \<and> u \<noteq> 0"
  by (auto simp: flat_inv_def flatVec_def flat_chunk length_chunk)

lemma flatVec_rows: "flatVec f w = map_option (chunk (nat (fi_dimension f)) (fi_vectors f)) (map_of (fi_ordinals f) w)"
  by (cases "map_of (fi_ordinals f) w") (simp_all add: flatVec_def flat_chunk)

lemma FlatUpsert_inv:
  assumes "flat_inv f" and "u \<noteq> 0" and "int (length v) = fi_dimension f"
  shows "\<exists>f'. FlatUpsert f u v = Inr f' \<and> flat_inv f' \<and> flatVec f' = (flatVec f)(u \<mapsto> v)
    \<and> fi_dimension f' = fi_dimension f \<and> fi_metric f' = fi_metric f"
proof -
  let ?d = "nat (fi_dimension f)" and ?n = "length (fi_ids f)"
  have len: "length (fi_vectors f) = ?n * ?d" "length v = ?d" using assms by (auto simp: flat_inv_def)
  have own: "map_of (fi_ordinals f) w = Some i \<longleftrightarrow> w \<noteq> 0 \<and> i < ?n \<and> fi_ids f ! i = w" for w i
    using assms(1) by (simp add: flat_inv_def)
  have dist: "distinct (map fst (fi_ordinals f))" "distinct (fi_free f)" "set (fi_free f) = {i. i < ?n \<and> fi_ids f ! i = 0}" "0 < fi_dimension f"
    using assms(1) by (simp_all add: flat_inv_def)
  consider (old) i where "map_of (fi_ordinals f) u = Some i"
    | (reuse) "map_of (fi_ordinals f) u = None" "fi_free f \<noteq> []"
    | (grow) "map_of (fi_ordinals f) u = None" "fi_free f = []" by fastforce
  then show ?thesis
  proof cases
    case old
    then have i: "i < ?n" using own by blast
    have vec: "map_option (chunk ?d (put_chunk ?d (fi_vectors f) i v)) (map_of (fi_ordinals f) w) = ((flatVec f)(u \<mapsto> v)) w" for w
    proof (cases "map_of (fi_ordinals f) w")
      case None
      then show ?thesis using old by (auto simp: flatVec_def)
    next
      case (Some j)
      have "j < ?n" using own [of w j] Some by blast
      moreover have "j = i \<longleftrightarrow> w = u" using own [of w j] own [of u i] Some old by (metis option.inject)
      ultimately show ?thesis using Some chunk_put_same [OF len i] chunk_put_other [OF len i] by (auto simp: flatVec_def flat_chunk)
    qed
    define f' where "f' = f\<lparr>fi_vectors := put_chunk ?d (fi_vectors f) i v\<rparr>"
    have "FlatUpsert f u v = Inr f'" using old assms(3) by (simp add: FlatUpsert_def write_chunk f'_def)
    moreover have "flat_inv f'" using assms(1) len i by (simp add: flat_inv_def f'_def)
    moreover have "flatVec f' = (flatVec f)(u \<mapsto> v)" by (rule ext) (simp only: flatVec_rows [of f'], simp add: f'_def vec)
    ultimately show ?thesis by (auto simp: f'_def)
  next
    case reuse
    define i where "i = last (fi_free f)"
    have "i \<in> set (fi_free f)" using reuse(2) by (simp add: i_def)
    then have i: "i < ?n" "fi_ids f ! i = 0" unfolding dist(3) by simp_all
    have new: "fi_ids f ! j \<noteq> u" if "j < ?n" for j
      using own [of u j] reuse(1) assms(2) that by (metis option.distinct(1))
    have snoc: "fi_free f = butlast (fi_free f) @ [i]" using reuse(2) by (simp add: i_def)
    have "distinct (butlast (fi_free f) @ [i])" using dist(2) snoc by metis
    moreover have "insert i (set (butlast (fi_free f))) = set (fi_free f)" using arg_cong [OF snoc, of set] by simp
    ultimately have free: "distinct (butlast (fi_free f))"
        "set (butlast (fi_free f)) = {j. j < ?n \<and> (fi_ids f)[i := u] ! j = 0}"
      unfolding dist(3) using i assms(2) by (simp_all add: set_eq_iff nth_list_update) metis
    have own': "map_of (AList.update u i (fi_ordinals f)) w = Some j \<longleftrightarrow> w \<noteq> 0 \<and> j < ?n \<and> (fi_ids f)[i := u] ! j = w" for w j
    proof (cases "w = u")
      case True
      then show ?thesis using i(1) new assms(2) by (auto simp: update_conv' nth_list_update)
    next
      case False
      then show ?thesis using own [of w j] i by (simp add: update_conv' nth_list_update) metis
    qed
    have vec: "map_option (chunk ?d (put_chunk ?d (fi_vectors f) i v)) (map_of (AList.update u i (fi_ordinals f)) w)
        = ((flatVec f)(u \<mapsto> v)) w" for w
    proof (cases "w = u")
      case True
      then show ?thesis using chunk_put_same [OF len i(1)] by (simp add: update_conv')
    next
      case False
      have "chunk ?d (put_chunk ?d (fi_vectors f) i v) j = chunk ?d (fi_vectors f) j" if "map_of (fi_ordinals f) w = Some j" for j
        using chunk_put_other [OF len i(1)] own [of w j] that i by blast
      then show ?thesis using False by (cases "map_of (fi_ordinals f) w") (simp_all add: update_conv' flatVec_def flat_chunk)
    qed
    define f' where "f' = f\<lparr>fi_free := butlast (fi_free f), fi_vectors := put_chunk ?d (fi_vectors f) i v,
      fi_ids := (fi_ids f)[i := u], fi_ordinals := AList.update u i (fi_ordinals f)\<rparr>"
    have "FlatUpsert f u v = Inr f'" using reuse assms(3) by (simp add: FlatUpsert_def write_chunk f'_def Let_def i_def)
    moreover have "flat_inv f'" using len i free own' dist(1,4) by (simp add: flat_inv_def f'_def distinct_update)
    moreover have "flatVec f' = (flatVec f)(u \<mapsto> v)" by (rule ext) (simp only: flatVec_rows [of f'], simp add: f'_def vec)
    ultimately show ?thesis by (auto simp: f'_def)
  next
    case grow
    have new: "fi_ids f ! j \<noteq> u" if "j < ?n" for j
      using own [of u j] grow(1) assms(2) that by (metis option.distinct(1))
    have new0: "fi_ids f ! j \<noteq> 0" if "j < ?n" for j using grow(2) dist(3) that by auto
    have own': "map_of (AList.update u ?n (fi_ordinals f)) w = Some j \<longleftrightarrow> w \<noteq> 0 \<and> j < Suc ?n \<and> (fi_ids f @ [u]) ! j = w" for w j
    proof (cases "w = u")
      case True
      then show ?thesis using new assms(2) by (auto simp: update_conv' nth_append less_Suc_eq)
    next
      case False
      then show ?thesis using own [of w j] by (auto simp: update_conv' nth_append less_Suc_eq)
    qed
    have vec: "map_option (chunk ?d (fi_vectors f @ v)) (map_of (AList.update u ?n (fi_ordinals f)) w) = ((flatVec f)(u \<mapsto> v)) w" for w
      using chunk_append [OF len] own [of w]
      by (cases "map_of (fi_ordinals f) w") (auto simp: update_conv' flatVec_def flat_chunk)
    have free: "{j. j < Suc ?n \<and> (fi_ids f @ [u]) ! j = 0} = {}" using new0 assms(2) by (auto simp: nth_append less_Suc_eq)
    define f' where "f' = f\<lparr>fi_vectors := fi_vectors f @ v, fi_ids := fi_ids f @ [u], fi_ordinals := AList.update u ?n (fi_ordinals f)\<rparr>"
    have "FlatUpsert f u v = Inr f'" using grow assms(3) by (simp add: FlatUpsert_def f'_def Let_def)
    moreover have "flat_inv f'" using grow(2) len own' free dist(1,4) by (simp add: flat_inv_def f'_def distinct_update)
    moreover have "flatVec f' = (flatVec f)(u \<mapsto> v)" by (rule ext) (simp only: flatVec_rows [of f'], simp add: f'_def vec)
    ultimately show ?thesis by (auto simp: f'_def)
  qed
qed

lemma FlatDelete_inv:
  assumes "flat_inv f" and "flatVec f u \<noteq> None"
  shows "\<exists>f'. FlatDelete f u = Inr f' \<and> flat_inv f' \<and> flatVec f' = (flatVec f)(u := None)
    \<and> fi_dimension f' = fi_dimension f \<and> fi_metric f' = fi_metric f"
proof -
  let ?d = "nat (fi_dimension f)" and ?n = "length (fi_ids f)"
  let ?z = "replicate ?d 0 :: f32 list"
  have own: "map_of (fi_ordinals f) w = Some i \<longleftrightarrow> w \<noteq> 0 \<and> i < ?n \<and> fi_ids f ! i = w" for w i
    using assms(1) by (simp add: flat_inv_def)
  have dist: "distinct (map fst (fi_ordinals f))" "distinct (fi_free f)" "set (fi_free f) = {i. i < ?n \<and> fi_ids f ! i = 0}" "0 < fi_dimension f"
    using assms(1) by (simp_all add: flat_inv_def)
  obtain i where i: "map_of (fi_ordinals f) u = Some i" using assms(2) by (auto simp: flatVec_def)
  then have at: "i < ?n" "fi_ids f ! i = u" "u \<noteq> 0" using own by blast+
  have len: "length (fi_vectors f) = ?n * ?d" "length ?z = ?d" using assms(1) by (auto simp: flat_inv_def)
  have own': "map_of (AList.delete u (fi_ordinals f)) w = Some j \<longleftrightarrow> w \<noteq> 0 \<and> j < ?n \<and> (fi_ids f)[i := 0] ! j = w" for w j
  proof (cases "w = u")
    case True
    have one: "j = i" if "j < ?n" "fi_ids f ! j = u" using own [of u j] i that at(3) by simp
    have "\<not> (j < ?n \<and> (fi_ids f)[i := 0] ! j = u)" using one at(3) by (cases "j = i") auto
    then show ?thesis using True by (simp add: delete_conv')
  next
    case False
    then show ?thesis using own [of w j] at by (simp add: delete_conv' nth_list_update) metis
  qed
  have free: "set (fi_free f @ [i]) = {j. j < ?n \<and> (fi_ids f)[i := 0] ! j = 0}" "distinct (fi_free f @ [i])"
    using dist(2,3) at by (auto simp: nth_list_update)
  have vec: "map_option (chunk ?d (put_chunk ?d (fi_vectors f) i ?z)) (map_of (AList.delete u (fi_ordinals f)) w)
      = ((flatVec f)(u := None)) w" for w
  proof (cases "w = u")
    case False
    have "chunk ?d (put_chunk ?d (fi_vectors f) i ?z) j = chunk ?d (fi_vectors f) j" if "map_of (fi_ordinals f) w = Some j" for j
      using chunk_put_other [OF len at(1)] own [of w j] that at(2) False by blast
    then show ?thesis using False by (cases "map_of (fi_ordinals f) w") (simp_all add: delete_conv' flatVec_rows)
  qed (simp add: delete_conv')
  define f' where "f' = f\<lparr>fi_ordinals := AList.delete u (fi_ordinals f), fi_ids := (fi_ids f)[i := 0],
    fi_vectors := put_chunk ?d (fi_vectors f) i ?z, fi_free := fi_free f @ [i]\<rparr>"
  have "FlatDelete f u = Inr f'" using i by (simp add: FlatDelete_def write_chunk f'_def)
  moreover have "flat_inv f'" using len at free own' dist(1,4) by (simp add: flat_inv_def f'_def distinct_delete)
  moreover have "flatVec f' = (flatVec f)(u := None)" by (rule ext) (simp only: flatVec_rows [of f'], simp add: f'_def vec)
  ultimately show ?thesis by (auto simp: f'_def)
qed

lemma FlatLen_card: "flat_inv f \<Longrightarrow> FlatLen f = int (card (dom (flatVec f)))"
proof -
  assume "flat_inv f"
  then have d: "distinct (map fst (fi_ordinals f))" by (simp add: flat_inv_def)
  have "dom (flatVec f) = set (map fst (fi_ordinals f))" by (auto simp: flatVec_def dom_map_of_conv_image_fst [symmetric])
  then show ?thesis using distinct_card [OF d] by (simp add: FlatLen_def)
qed

subsection \<open>Exact search\<close>

text \<open>A vector that can be scored, with a score that is a number.\<close>

definition scorable :: "scorer \<Rightarrow> string \<Rightarrow> f32 list \<Rightarrow> f32 list \<Rightarrow> bool" where
  "scorable D metric q v \<longleftrightarrow> (\<exists>s. D metric q v = Inr s \<and> \<not> f32_nan s)"

definition scoreOf :: "scorer \<Rightarrow> string \<Rightarrow> f32 list \<Rightarrow> f32 list \<Rightarrow> f32" where
  "scoreOf D metric q v = (case D metric q v of Inr s \<Rightarrow> s | Inl _ \<Rightarrow> 0)"

lemma scorableD: "scorable D m q v \<Longrightarrow> D m q v = Inr (scoreOf D m q v) \<and> \<not> f32_nan (scoreOf D m q v)"
  by (auto simp: scorable_def scoreOf_def)

text \<open>All that an index could return: the allowed entries with their scores.\<close>

definition candidatesOf :: "scorer \<Rightarrow> string \<Rightarrow> f32 list \<Rightarrow> (u64 \<Rightarrow> f32 list option) \<Rightarrow> (u64 \<Rightarrow> bool) \<Rightarrow> Candidate set" where
  "candidatesOf D m q vec allowed =
     {\<lparr>cand_ID = u, cand_Score = scoreOf D m q v\<rparr> | u v. vec u = Some v \<and> allowed u}"

text \<open>A scan over rows with distinct IDs returns the best of them in order.\<close>

lemma scan_best:
  assumes "distinct (map fst rows)" and "0 < k"
    and "\<And>u v. (u, v) \<in> set rows \<Longrightarrow> allowed u \<Longrightarrow> scorable D m q v"
  shows "\<exists>h. foldR (keepCandidate (int k)) (map (\<lambda>(u, v). \<lparr>cand_ID = u, cand_Score = scoreOf D m q v\<rparr>) (filter (\<lambda>(u, v). allowed u) rows)) []
      = Inr h \<and> sorted (map candKey (sortCandidates h))
      \<and> best_k candKey k (mset_set (candidatesOf D m q (map_of rows) allowed)) (mset (sortCandidates h))"
proof -
  let ?mk = "\<lambda>(u, v). \<lparr>cand_ID = u, cand_Score = scoreOf D m q v\<rparr>"
  let ?xs = "map ?mk (filter (\<lambda>(u, v). allowed u) rows)"
  have "distinct (map cand_ID ?xs)"
    using assms(1) by (simp add: comp_def case_prod_unfold) (metis distinct_map_filter)
  then have "distinct ?xs" by (metis distinct_map)
  moreover have "set ?xs = candidatesOf D m q (map_of rows) allowed"
    using assms(1) by (auto simp: candidatesOf_def map_of_eq_Some_iff image_iff)
  ultimately have "mset_set (candidatesOf D m q (map_of rows) allowed) = mset ?xs" using mset_set_set by metis
  moreover have "\<forall>c \<in> set ?xs. candOk c" using assms(3) by (auto simp: candOk_def dest!: scorableD)
  ultimately show ?thesis
    using cand.select_best [OF _ assms(2), of ?xs] by (auto simp: keepCandidate_offer sortCandidates_def)
qed

lemma rows_map_of:
  assumes "\<And>i u. (i, u) \<in> set es \<longleftrightarrow> g u = Some i" and "distinct es"
  shows "map_of (map (\<lambda>(i, u). (u, r i)) es) u = map_option r (g u)" and "distinct (map fst (map (\<lambda>(i, u). (u, r i)) es))"
proof -
  have "inj_on snd (set es)"
    by (rule inj_onI) (use assms(1) in \<open>metis option.inject prod.collapse\<close>)
  then have "distinct (map snd es)" using assms(2) by (simp add: distinct_map)
  then show d: "distinct (map fst (map (\<lambda>(i, u). (u, r i)) es))" by (simp add: comp_def case_prod_unfold)
  show "map_of (map (\<lambda>(i, u). (u, r i)) es) u = map_option r (g u)"
  proof (cases "g u")
    case None
    then have "u \<notin> fst ` set (map (\<lambda>(i, u). (u, r i)) es)" using assms(1) by fastforce
    then show ?thesis using None unfolding map_of_eq_None_iff [symmetric] by simp
  next
    case (Some i)
    then have "(u, r i) \<in> set (map (\<lambda>(i, u). (u, r i)) es)" using assms(1) by force
    then show ?thesis using Some d by simp
  qed
qed

lemma flatVec_rows_list:
  assumes "flat_inv f"
  shows "flatVec f = map_of (map (\<lambda>(i, u). (u, flatVectorAt f i)) (filter (\<lambda>(i, u). u \<noteq> 0) (enumerate 0 (fi_ids f))))"
    and "distinct (map fst (map (\<lambda>(i, u). (u, flatVectorAt f i)) (filter (\<lambda>(i, u). u \<noteq> 0) (enumerate 0 (fi_ids f)))))"
proof -
  have mem: "(i, u) \<in> set (filter (\<lambda>(i, u). u \<noteq> 0) (enumerate 0 (fi_ids f))) \<longleftrightarrow> map_of (fi_ordinals f) u = Some i" for i u
    using assms by (auto simp: in_set_enumerate_eq flat_inv_def)
  note rows = rows_map_of [where g = "map_of (fi_ordinals f)" and r = "flatVectorAt f", OF mem]
  show "flatVec f = map_of (map (\<lambda>(i, u). (u, flatVectorAt f i)) (filter (\<lambda>(i, u). u \<noteq> 0) (enumerate 0 (fi_ids f))))"
    by (rule ext) (simp add: rows(1) flatVec_def del: filter.simps)
  show "distinct (map fst (map (\<lambda>(i, u). (u, flatVectorAt f i)) (filter (\<lambda>(i, u). u \<noteq> 0) (enumerate 0 (fi_ids f)))))"
    by (rule rows(2)) simp
qed

lemma FlatSearch_exact:
  assumes "flat_inv f" and "int (length q) = fi_dimension f" and "0 < k"
    and "\<And>u v. flatVec f u = Some v \<Longrightarrow> allowed u \<Longrightarrow> scorable D (fi_metric f) q v"
  shows "\<exists>cs. FlatSearchFiltered D f q (int k) allowed = Inr cs \<and> sorted (map candKey cs)
    \<and> best_k candKey k (mset_set (candidatesOf D (fi_metric f) q (flatVec f) allowed)) (mset cs)"
proof -
  let ?es = "filter (\<lambda>(i, u). u \<noteq> 0) (enumerate 0 (fi_ids f))"
  let ?rows = "map (\<lambda>(i, u). (u, flatVectorAt f i)) ?es"
  let ?skip = "\<lambda>x. snd x = 0 \<or> \<not> allowed (snd x)" and ?g = "\<lambda>x. D (fi_metric f) q (flatVectorAt f (fst x))"
  let ?sc = "\<lambda>x. scoreOf D (fi_metric f) q (flatVectorAt f (fst x))"
  note rows = flatVec_rows_list [OF assms(1)]
  have good: "scorable D (fi_metric f) q v" if "(u, v) \<in> set ?rows" "allowed u" for u v
    using that assms(4) rows by (metis map_of_eq_Some_iff)
  have ok: "?g x = Inr (?sc x)" if "x \<in> set (enumerate 0 (fi_ids f))" "\<not> ?skip x" for x
  proof -
    have "(snd x, flatVectorAt f (fst x)) \<in> set ?rows" using that by force
    then show ?thesis using good that(2) scorableD by blast
  qed
  have lists: "map (\<lambda>x. \<lparr>cand_ID = snd x, cand_Score = ?sc x\<rparr>) (filter (\<lambda>x. \<not> ?skip x) (enumerate 0 (fi_ids f)))
      = map (\<lambda>(u, v). \<lparr>cand_ID = u, cand_Score = scoreOf D (fi_metric f) q v\<rparr>) (filter (\<lambda>(u, v). allowed u) ?rows)"
    by (simp add: filter_map comp_def case_prod_unfold conj_commute)
  obtain h where h: "foldR (keepCandidate (int k)) (map (\<lambda>(u, v). \<lparr>cand_ID = u, cand_Score = scoreOf D (fi_metric f) q v\<rparr>) (filter (\<lambda>(u, v). allowed u) ?rows)) [] = Inr h"
      "sorted (map candKey (sortCandidates h))"
      "best_k candKey k (mset_set (candidatesOf D (fi_metric f) q (map_of ?rows) allowed)) (mset (sortCandidates h))"
    using scan_best [OF rows(2) assms(3), of allowed D "fi_metric f" q] good by blast
  have "foldR (\<lambda>x h. if ?skip x then Inr h else and_then (?g x) (\<lambda>s. keepCandidate (int k) \<lparr>cand_ID = snd x, cand_Score = s\<rparr> h))
      (enumerate 0 (fi_ids f)) [] = Inr h"
    using foldR_scan [of "enumerate 0 (fi_ids f)" ?skip ?g ?sc "keepCandidate (int k)" "\<lambda>x s. \<lparr>cand_ID = snd x, cand_Score = s\<rparr>" "[]"]
      ok h(1) lists by simp
  then have "FlatSearchFiltered D f q (int k) allowed = Inr (sortCandidates h)"
    using assms(2,3) by (simp add: FlatSearchFiltered_def case_prod_unfold)
  then show ?thesis using h(2,3) rows(1) by simp
qed

subsection \<open>The mapped index as a map\<close>

definition mapped_inv :: "MappedIndex \<Rightarrow> bool" where
  "mapped_inv m \<longleftrightarrow>
     0 < ms_dimension (mi_source m) \<and> distinct (mi_ids m) \<and> 0 \<notin> set (mi_ids m)
     \<and> (case ms_rows (mi_source m) of None \<Rightarrow> False
        | Some rows \<Rightarrow> length rows = length (mi_ids m) \<and> (\<forall>v \<in> set rows. int (length v) = ms_dimension (mi_source m)))"

definition mappedVec :: "MappedIndex \<Rightarrow> u64 \<Rightarrow> f32 list option" where
  "mappedVec m = map_of (zip (mi_ids m) (case ms_rows (mi_source m) of None \<Rightarrow> [] | Some rows \<Rightarrow> rows))"

lemma foldR_distinct:
  "foldR (\<lambda>u seen. if u = z then Inl e else if u \<in> set seen then Inl e' else Inr (u # seen)) us seen = Inr r
    \<longleftrightarrow> distinct us \<and> z \<notin> set us \<and> set us \<inter> set seen = {} \<and> r = rev us @ seen"
  by (induction us arbitrary: seen) (auto simp: and_then_def)

lemma NewMappedIndex_inv:
  assumes "NewMappedIndex src metric ids = Inr m" and "ms_rows src = Some rows" and "\<forall>v \<in> set rows. int (length v) = ms_dimension src"
  shows "mapped_inv m \<and> mappedVec m = map_of (zip ids rows) \<and> mi_metric m = metric \<and> ms_dimension (mi_source m) = ms_dimension src"
  using assms
  by (auto simp: NewMappedIndex_def mapped_inv_def mappedVec_def and_then_Inr_iff foldR_distinct split: if_splits)

lemma enumerate_zip:
  "length rows = length ids \<Longrightarrow> map (\<lambda>(i, u). (u, rows ! (i - n))) (enumerate n ids) = zip ids rows"
proof (induction ids arbitrary: n rows)
  case (Cons u ids)
  then obtain r rs where rows: "rows = r # rs" by (cases rows) auto
  have "map (\<lambda>(i, u). (u, (r # rs) ! (i - n))) (enumerate (Suc n) ids) = map (\<lambda>(i, u). (u, rs ! (i - Suc n))) (enumerate (Suc n) ids)"
    by (rule map_cong) (auto simp: in_set_enumerate_eq Suc_le_eq nth_Cons')
  moreover have "\<dots> = zip ids rs" using Cons.IH [of rs "Suc n"] Cons.prems rows by simp
  ultimately show ?case by (simp only: rows enumerate_simps list.map prod.case zip_Cons_Cons diff_self_eq_0 nth_Cons_0)
qed simp

lemma MappedSearch_exact:
  assumes "mapped_inv m" and "int (length q) = ms_dimension (mi_source m)" and "0 < k"
    and "\<And>u v. mappedVec m u = Some v \<Longrightarrow> allowed u \<Longrightarrow> scorable D (mi_metric m) q v"
  shows "\<exists>cs. MappedSearchFiltered D m q (int k) allowed = Inr cs \<and> sorted (map candKey cs)
    \<and> best_k candKey k (mset_set (candidatesOf D (mi_metric m) q (mappedVec m) allowed)) (mset cs)"
proof -
  obtain rows where rows: "ms_rows (mi_source m) = Some rows" "length rows = length (mi_ids m)" "distinct (mi_ids m)"
    using assms(1) by (auto simp: mapped_inv_def split: option.splits)
  let ?z = "zip (mi_ids m) rows"
  have z: "map (\<lambda>(i, u). (u, rows ! i)) (enumerate 0 (mi_ids m)) = ?z" using enumerate_zip [OF rows(2), of 0] by simp
  have dist: "distinct (map fst ?z)" using rows by simp
  have vec: "mappedVec m = map_of ?z" using rows by (simp add: mappedVec_def)
  have good: "scorable D (mi_metric m) q v" if "(u, v) \<in> set ?z" "allowed u" for u v
    using that assms(4) vec dist by (metis map_of_eq_Some_iff)
  let ?g = "\<lambda>x. ScoreAcquired D (mi_source m) (mi_metric m) q (fst x)" and ?sc = "\<lambda>x. scoreOf D (mi_metric m) q (rows ! fst x)"
  have ok: "?g x = Inr (?sc x)" if "x \<in> set (enumerate 0 (mi_ids m))" "allowed (snd x)" for x
  proof -
    have "(snd x, rows ! fst x) \<in> set ?z" unfolding z [symmetric] using that by force
    then have "scorable D (mi_metric m) q (rows ! fst x)" using good that(2) by blast
    moreover have "fst x < length rows" using that(1) rows(2) by (simp add: in_set_enumerate_eq)
    ultimately show ?thesis using rows(1) assms(2) scorableD by (simp add: ScoreAcquired_def)
  qed
  have lists: "map (\<lambda>x. \<lparr>cand_ID = snd x, cand_Score = ?sc x\<rparr>) (filter (\<lambda>x. allowed (snd x)) (enumerate 0 (mi_ids m)))
      = map (\<lambda>(u, v). \<lparr>cand_ID = u, cand_Score = scoreOf D (mi_metric m) q v\<rparr>) (filter (\<lambda>(u, v). allowed u) ?z)"
    unfolding z [symmetric] by (simp add: filter_map comp_def case_prod_unfold)
  obtain h where h: "foldR (keepCandidate (int k)) (map (\<lambda>(u, v). \<lparr>cand_ID = u, cand_Score = scoreOf D (mi_metric m) q v\<rparr>) (filter (\<lambda>(u, v). allowed u) ?z)) [] = Inr h"
      "sorted (map candKey (sortCandidates h))"
      "best_k candKey k (mset_set (candidatesOf D (mi_metric m) q (map_of ?z) allowed)) (mset (sortCandidates h))"
    using scan_best [OF dist assms(3), of allowed D "mi_metric m" q] good by blast
  have "foldR (\<lambda>x h. if \<not> allowed (snd x) then Inr h else and_then (?g x) (\<lambda>s. keepCandidate (int k) \<lparr>cand_ID = snd x, cand_Score = s\<rparr> h))
      (enumerate 0 (mi_ids m)) [] = Inr h"
    using foldR_scan [of "enumerate 0 (mi_ids m)" "\<lambda>x. \<not> allowed (snd x)" ?g ?sc "keepCandidate (int k)" "\<lambda>x s. \<lparr>cand_ID = snd x, cand_Score = s\<rparr>" "[]"]
      ok h(1) lists by simp
  then have "MappedSearchFiltered D m q (int k) allowed = Inr (sortCandidates h)"
    using assms(2,3) rows(1) by (simp add: MappedSearchFiltered_def case_prod_unfold)
  then show ?thesis using h(2,3) vec by simp
qed

subsection \<open>What a segment relies on\<close>

locale vector_index =
  fixes ops :: "'i index_ops" and inv :: "'i \<Rightarrow> bool" and vec :: "'i \<Rightarrow> u64 \<Rightarrow> f32 list option"
    and dim :: "'i \<Rightarrow> int" and metric :: "'i \<Rightarrow> string" and frozen :: "'i \<Rightarrow> bool"
  assumes upsert: "inv i \<Longrightarrow> \<not> frozen i \<Longrightarrow> u \<noteq> 0 \<Longrightarrow> int (length v) = dim i \<Longrightarrow>
      \<exists>i'. ixUpsert ops i u v = Inr i' \<and> inv i' \<and> \<not> frozen i' \<and> dim i' = dim i \<and> metric i' = metric i \<and> vec i' = (vec i)(u \<mapsto> v)"
    and upsert_dim: "\<not> frozen i \<Longrightarrow> int (length v) \<noteq> dim i \<Longrightarrow> ixUpsert ops i u v = Inl ErrDimensionMismatch"
    and delete: "inv i \<Longrightarrow> \<not> frozen i \<Longrightarrow> vec i u \<noteq> None \<Longrightarrow>
      \<exists>i'. ixDelete ops i u = Inr i' \<and> inv i' \<and> \<not> frozen i' \<and> dim i' = dim i \<and> metric i' = metric i \<and> vec i' = (vec i)(u := None)"
    and len: "inv i \<Longrightarrow> ixLen ops i = int (card (dom (vec i)))"
    and vec_dim: "inv i \<Longrightarrow> vec i u = Some v \<Longrightarrow> int (length v) = dim i \<and> u \<noteq> 0"

text \<open>An exact index returns the best of all it could return.\<close>

locale exact_index = vector_index +
  fixes D :: scorer
  assumes search: "inv i \<Longrightarrow> int (length q) = dim i \<Longrightarrow> 0 < k \<Longrightarrow>
      (\<And>u v. vec i u = Some v \<Longrightarrow> allowed u \<Longrightarrow> scorable D (metric i) q v) \<Longrightarrow>
      \<exists>cs. ixSearch ops i q (int k) options allowed = Inr cs \<and> sorted (map candKey cs)
        \<and> best_k candKey k (mset_set (candidatesOf D (metric i) q (vec i) allowed)) (mset cs)"

definition local_inv :: "local_index \<Rightarrow> bool" where
  "local_inv i = (case i of FlatLocal f \<Rightarrow> flat_inv f | MappedLocal m \<Rightarrow> mapped_inv m)"

definition local_vec :: "local_index \<Rightarrow> u64 \<Rightarrow> f32 list option" where
  "local_vec i = (case i of FlatLocal f \<Rightarrow> flatVec f | MappedLocal m \<Rightarrow> mappedVec m)"

definition local_dim :: "local_index \<Rightarrow> int" where
  "local_dim i = (case i of FlatLocal f \<Rightarrow> fi_dimension f | MappedLocal m \<Rightarrow> ms_dimension (mi_source m))"

definition local_metric :: "local_index \<Rightarrow> string" where
  "local_metric i = (case i of FlatLocal f \<Rightarrow> fi_metric f | MappedLocal m \<Rightarrow> mi_metric m)"

definition local_frozen :: "local_index \<Rightarrow> bool" where
  "local_frozen i = (case i of FlatLocal f \<Rightarrow> False | MappedLocal m \<Rightarrow> True)"

lemmas local_defs = local_inv_def local_vec_def local_dim_def local_metric_def local_frozen_def exactOps_def

lemma mapped_facts:
  assumes "mapped_inv m"
  shows "int (length (mi_ids m)) = int (card (dom (mappedVec m)))"
    and "mappedVec m u = Some v \<Longrightarrow> int (length v) = ms_dimension (mi_source m) \<and> u \<noteq> 0"
proof -
  obtain rows where rows: "ms_rows (mi_source m) = Some rows" "length rows = length (mi_ids m)" "distinct (mi_ids m)"
      "0 \<notin> set (mi_ids m)" "\<forall>v \<in> set rows. int (length v) = ms_dimension (mi_source m)"
    using assms by (auto simp: mapped_inv_def split: option.splits)
  show "int (length (mi_ids m)) = int (card (dom (mappedVec m)))"
    using rows by (simp add: mappedVec_def dom_map_of_zip distinct_card)
  have "u \<in> set (mi_ids m) \<and> v \<in> set rows" if "mappedVec m u = Some v"
    using that rows(1) by (simp add: mappedVec_def) (meson map_of_SomeD set_zip_leftD set_zip_rightD)
  then show "mappedVec m u = Some v \<Longrightarrow> int (length v) = ms_dimension (mi_source m) \<and> u \<noteq> 0"
    using rows(4,5) by metis
qed

lemma local_upsert:
  assumes "local_inv i" "\<not> local_frozen i" "u \<noteq> 0" "int (length v) = local_dim i"
  shows "\<exists>i'. ixUpsert (exactOps D) i u v = Inr i' \<and> local_inv i' \<and> \<not> local_frozen i' \<and> local_dim i' = local_dim i
    \<and> local_metric i' = local_metric i \<and> local_vec i' = (local_vec i)(u \<mapsto> v)"
proof (cases i)
  case (FlatLocal f)
  then obtain f' where "FlatUpsert f u v = Inr f'" "flat_inv f'" "flatVec f' = (flatVec f)(u \<mapsto> v)"
      "fi_dimension f' = fi_dimension f" "fi_metric f' = fi_metric f"
    using FlatUpsert_inv [of f u v] assms by (auto simp: local_defs)
  then show ?thesis using FlatLocal by (intro exI [of _ "FlatLocal f'"]) (simp add: local_defs)
qed (use assms in \<open>simp add: local_defs\<close>)

lemma local_delete:
  assumes "local_inv i" "\<not> local_frozen i" "local_vec i u \<noteq> None"
  shows "\<exists>i'. ixDelete (exactOps D) i u = Inr i' \<and> local_inv i' \<and> \<not> local_frozen i' \<and> local_dim i' = local_dim i
    \<and> local_metric i' = local_metric i \<and> local_vec i' = (local_vec i)(u := None)"
proof (cases i)
  case (FlatLocal f)
  then obtain f' where "FlatDelete f u = Inr f'" "flat_inv f'" "flatVec f' = (flatVec f)(u := None)"
      "fi_dimension f' = fi_dimension f" "fi_metric f' = fi_metric f"
    using FlatDelete_inv [of f u] assms by (auto simp: local_defs)
  then show ?thesis using FlatLocal by (intro exI [of _ "FlatLocal f'"]) (simp add: local_defs)
qed (use assms in \<open>simp add: local_defs\<close>)

lemma local_search:
  assumes "local_inv i" "int (length q) = local_dim i" "0 < k"
    "\<And>u v. local_vec i u = Some v \<Longrightarrow> allowed u \<Longrightarrow> scorable D (local_metric i) q v"
  shows "\<exists>cs. ixSearch (exactOps D) i q (int k) options allowed = Inr cs \<and> sorted (map candKey cs)
    \<and> best_k candKey k (mset_set (candidatesOf D (local_metric i) q (local_vec i) allowed)) (mset cs)"
  using assms FlatSearch_exact [of _ q k allowed D] MappedSearch_exact [of _ q k allowed D] by (cases i) (auto simp: local_defs)

lemma local_facts:
  assumes "local_inv i"
  shows "ixLen (exactOps D) i = int (card (dom (local_vec i)))"
    and "local_vec i u = Some v \<Longrightarrow> int (length v) = local_dim i \<and> u \<noteq> 0"
  using assms FlatLen_card flatVec_length mapped_facts by (cases i; auto simp: local_defs)+

interpretation li: exact_index "exactOps D" local_inv local_vec local_dim local_metric local_frozen D for D
proof unfold_locales
  show "ixUpsert (exactOps D) i u v = Inl ErrDimensionMismatch" if "\<not> local_frozen i" "int (length v) \<noteq> local_dim i" for i u v
    using that by (cases i) (auto simp: local_defs FlatUpsert_def)
qed (fact local_upsert local_delete local_facts local_search)+

subsection \<open>Histories\<close>

text \<open>A history of the flat index: an ID with its new vector, or with \<open>None\<close> for a deletion.\<close>

definition run_flat :: "(u64 \<times> f32 list option) list \<Rightarrow> FlatIndex \<Rightarrow> FlatIndex result" where
  "run_flat = foldR (\<lambda>(u, ov) f. case ov of None \<Rightarrow> FlatDelete f u | Some v \<Rightarrow> FlatUpsert f u v)"

definition flat_table :: "(u64 \<times> f32 list option) list \<Rightarrow> u64 \<Rightarrow> f32 list option" where
  "flat_table ops = fold (\<lambda>(u, ov) t. t(u := ov)) ops Map.empty"

lemma FlatUpsert_dim: "FlatUpsert f u v = Inr f' \<Longrightarrow> int (length v) = fi_dimension f"
  by (auto simp: FlatUpsert_def split: if_splits)

lemma FlatDelete_known: "FlatDelete f u = Inr f' \<Longrightarrow> flatVec f u \<noteq> None"
  by (auto simp: FlatDelete_def flatVec_def split: option.splits)

lemma run_flat_inv:
  assumes "run_flat ops f = Inr f'" and "flat_inv f" and "0 \<notin> fst ` set ops"
  shows "flat_inv f' \<and> flatVec f' = fold (\<lambda>(u, ov) t. t(u := ov)) ops (flatVec f)
    \<and> fi_dimension f' = fi_dimension f \<and> fi_metric f' = fi_metric f"
  using assms
proof (induction ops arbitrary: f)
  case (Cons a ops)
  obtain u ov where a: "a = (u, ov)" by (cases a)
  obtain f1 where f1: "(case ov of None \<Rightarrow> FlatDelete f u | Some v \<Rightarrow> FlatUpsert f u v) = Inr f1" "run_flat ops f1 = Inr f'"
    using Cons.prems(1) by (auto simp: run_flat_def a and_then_Inr_iff)
  have "flat_inv f1 \<and> flatVec f1 = (flatVec f)(u := ov) \<and> fi_dimension f1 = fi_dimension f \<and> fi_metric f1 = fi_metric f"
  proof (cases ov)
    case None
    then show ?thesis using f1(1) FlatDelete_inv [OF Cons.prems(2)] FlatDelete_known by fastforce
  next
    case (Some v)
    then show ?thesis using f1(1) FlatUpsert_inv [OF Cons.prems(2), of u v] FlatUpsert_dim [of f u v] Cons.prems(3) a by force
  qed
  then show ?case using Cons.IH [OF f1(2)] Cons.prems(3) by (simp add: a del: fun_upd_apply)
qed (simp add: run_flat_def)

text \<open>
  C5: Search in the flat index is exact. After any accepted history of inserts, overwrites and deletions, slots being
  freed and reused on the way, a search returns the best \<open>k\<close> of the allowed live vectors, or all of them if
  there are fewer, in the order of decreasing score and increasing ID: the bounded heap loses nothing and
  no deleted vector comes back.
\<close>

theorem flat_search_exact:
  assumes "FlatNew d m = Inr f0" and "run_flat ops f0 = Inr f" and "0 \<notin> fst ` set ops"
    and "int (length q) = d" and "0 < k"
    and "\<And>u v. flat_table ops u = Some v \<Longrightarrow> allowed u \<Longrightarrow> scorable D m q v"
  shows "\<exists>cs. FlatSearchFiltered D f q (int k) allowed = Inr cs \<and> sorted (map candKey cs)
    \<and> best_k candKey k (mset_set (candidatesOf D m q (flat_table ops) allowed)) (mset cs)"
proof -
  note n = FlatNew_inv [OF assms(1)]
  have f: "flat_inv f" "flatVec f = flat_table ops" "fi_dimension f = d" "fi_metric f = m"
    using run_flat_inv [OF assms(2) _ assms(3)] n by (simp_all add: flat_table_def)
  show ?thesis using FlatSearch_exact [OF f(1) _ assms(5), of q allowed D] assms(4,6) f(2-4) by simp
qed

definition sample_scorer :: scorer where
  "sample_scorer m q v = (if length q = length v then Inr (hd v) else Inl ErrDimensionMismatch)"

definition sample_ops :: "(u64 \<times> f32 list option) list" where
  "sample_ops = [(1, Some [0x3F800000]), (2, Some [0x40000000]), (3, Some [0x40400000]), (2, None), (4, Some [0x3F000000])]"

definition sample_flat :: FlatIndex where
  "sample_flat = \<lparr>fi_dimension = 1, fi_metric = ''dot'', fi_vectors = [0x3F800000, 0x3F000000, 0x40400000], fi_ids = [1, 4, 3],
    fi_ordinals = [(1, 0), (3, 2), (4, 1)], fi_free = []\<rparr>"

lemma sample_flat_run:
  "FlatNew 1 ''dot'' = Inr \<lparr>fi_dimension = 1, fi_metric = ''dot'', fi_vectors = [], fi_ids = [], fi_ordinals = [], fi_free = []\<rparr>"
  "run_flat sample_ops \<lparr>fi_dimension = 1, fi_metric = ''dot'', fi_vectors = [], fi_ids = [], fi_ordinals = [], fi_free = []\<rparr> = Inr sample_flat"
  by code_simp+

lemma sample_flat_table:
  "flat_table sample_ops u = Some v \<Longrightarrow> (u, v) \<in> {(1, [0x3F800000]), (3, [0x40400000]), (4, [0x3F000000])}"
  by (auto simp: flat_table_def sample_ops_def split: if_splits)

theorem flat_search_exact_witness:
  "\<exists>cs. FlatSearchFiltered sample_scorer sample_flat [0] 2 (\<lambda>_. True) = Inr cs \<and> sorted (map candKey cs) \<and> map cand_ID cs = [3, 1]"
proof -
  have sc: "scorable sample_scorer ''dot'' [0] v" if "flat_table sample_ops u = Some v" for u v
    using sample_flat_table [OF that] by (auto simp: scorable_def sample_scorer_def f32_nan_def)
  have "0 \<notin> fst ` set sample_ops" by code_simp
  from flat_search_exact [OF sample_flat_run this, of "[0]" 2 "\<lambda>_. True" sample_scorer] sc
  obtain cs where "FlatSearchFiltered sample_scorer sample_flat [0] 2 (\<lambda>_. True) = Inr cs" "sorted (map candKey cs)" by auto
  moreover have "map_sum (\<lambda>e. e) (map cand_ID) (FlatSearchFiltered sample_scorer sample_flat [0] 2 (\<lambda>_. True)) = Inr [3, 1]"
    by code_simp
  ultimately show ?thesis by auto
qed

end
