(* ===== verification/Search_Merge.thy ===== *)
theory Search_Merge
  imports Vector_Index
begin

text \<open>
  Search results and the merge of per-shard results in \<open>internal/collection/collection.go\<close>: a bounded heap
  over all results, sorted at the end. Merging the best of every part gives the best of the whole.
\<close>

subsection \<open>Results\<close>

record SearchResult =
  res_ID :: string
  res_Score :: f32
  res_Metadata :: "(string \<times> Value) list"
  res_Payload :: "(string \<times> Value) list"
  res_Namespace :: string
  res_Text :: string

definition worseSearchResult :: "SearchResult \<Rightarrow> SearchResult \<Rightarrow> bool" where
  "worseSearchResult a b \<longleftrightarrow>
     f32_lt (res_Score a) (res_Score b) \<or> f32_eq (res_Score a) (res_Score b) \<and> res_ID a > res_ID b"

text \<open>The condition that lets a result replace the worst one, and by which results are sorted.\<close>

definition betterResult :: "SearchResult \<Rightarrow> SearchResult \<Rightarrow> bool" where
  "betterResult a b \<longleftrightarrow>
     f32_lt (res_Score b) (res_Score a) \<or> f32_eq (res_Score a) (res_Score b) \<and> res_ID a < res_ID b"

definition pushSearchResult :: "SearchResult list \<Rightarrow> SearchResult \<Rightarrow> SearchResult list" where
  "pushSearchResult h r = siftUp worseSearchResult (h @ [r]) (length h)"

definition fixSearchResultRoot :: "SearchResult list \<Rightarrow> SearchResult list" where
  "fixSearchResultRoot h = siftDown worseSearchResult h 0"

definition sortSearchResults :: "SearchResult list \<Rightarrow> SearchResult list" where
  "sortSearchResults = insertionSort betterResult"

definition keepResult :: "int \<Rightarrow> SearchResult \<Rightarrow> SearchResult list \<Rightarrow> SearchResult list result" where
  "keepResult k r best =
     (if int (length best) < k then Inr (pushSearchResult best r)
      else if best = [] then Inl GoPanic
      else if betterResult r (best ! 0) then Inr (fixSearchResultRoot (best[0 := r]))
      else Inr best)"

text \<open>\<open>make\<close> with a negative capacity panics.\<close>

definition mergeTopK :: "SearchResult list list \<Rightarrow> int \<Rightarrow> SearchResult list result" where
  "mergeTopK perShard k =
     (if k < 0 then Inl GoPanic
      else and_then (foldR (foldR (keepResult k)) perShard []) (\<lambda>best. Inr (sortSearchResults best)))"

subsection \<open>Ranking results\<close>

definition resKey :: "SearchResult \<Rightarrow> int \<times> string" where
  "resKey r = (- f32_key (res_Score r), res_ID r)"

definition resOk :: "SearchResult \<Rightarrow> bool" where
  "resOk r \<longleftrightarrow> \<not> f32_nan (res_Score r)"

interpretation res: ranked resKey resOk worseSearchResult betterResult
  by unfold_locales
    (auto simp: worseSearchResult_def betterResult_def resKey_def resOk_def f32_lt_def f32_eq_def less_prod_def' less_le)

text \<open>Ties between scores are broken differently by ordinals and by IDs, so results of segments are compared by score alone.\<close>

definition scoreKey :: "SearchResult \<Rightarrow> int" where
  "scoreKey r = - f32_key (res_Score r)"

lemma best_k_scoreKey: "best_k resKey k S T \<Longrightarrow> best_k scoreKey k S T"
  by (erule best_k_mono) (auto simp: resKey_def scoreKey_def less_eq_prod_def)

lemma keepResult_offer: "keepResult = offer worseSearchResult betterResult"
  by (simp add: fun_eq_iff keepResult_def offer_def pushSearchResult_def fixSearchResultRoot_def)

lemma foldR_concat: "foldR (foldR f) xss a = foldR f (concat xss) a"
  by (induction xss arbitrary: a) (auto simp: and_then_def split: sum.splits)

lemma mergeTopK_best:
  assumes "\<forall>r \<in> set (concat parts). resOk r" and "0 < k"
  shows "\<exists>best. mergeTopK parts (int k) = Inr best \<and> sorted (map resKey best) \<and> best_k resKey k (mset (concat parts)) (mset best)
    \<and> set best \<subseteq> set (concat parts)"
proof -
  obtain h where h: "foldR (keepResult (int k)) (concat parts) [] = Inr h"
      "best_k resKey k (mset (concat parts)) (mset (sortSearchResults h))" "sorted (map resKey (sortSearchResults h))"
    using res.select_best [OF assms] unfolding keepResult_offer sortSearchResults_def by blast
  moreover have "set (sortSearchResults h) \<subseteq> set (concat parts)"
    using best_k_subset [OF h(2)] by (metis set_mset_mono set_mset_mset)
  ultimately show ?thesis by (auto simp: mergeTopK_def foldR_concat)
qed

lemma best_k_image:
  assumes "best_k (\<lambda>x. g (h x)) k S T"
  shows "best_k g k (image_mset h S) (image_mset h T)"
proof -
  obtain R where R: "S = T + R" "size T \<le> k" "size T < k \<longrightarrow> R = {#}" "\<forall>t \<in># T. \<forall>r \<in># R. g (h t) \<le> g (h r)"
    using assms by (auto simp: best_k_def)
  show ?thesis by (rule best_kI [of _ _ "image_mset h R"]) (use R in auto)
qed

text \<open>
  C7: Searching the parts and merging is searching the whole. If every part answers with the best \<open>k\<close> of its own results, in
  any order, then the bounded heap that merges them holds the best \<open>k\<close> of all results of all parts, and returns
  them by decreasing score and increasing ID; no result of any part that it leaves out would rank before one it returns.
\<close>

theorem merge_of_local_bests:
  assumes "list_all2 (\<lambda>S part. best_k resKey k S (mset part)) Ss parts"
    and "\<forall>part \<in> set parts. \<forall>r \<in> set part. resOk r" and "0 < k"
  shows "\<exists>best. mergeTopK parts (int k) = Inr best \<and> sorted (map resKey best) \<and> best_k resKey k (sum_list Ss) (mset best)"
proof -
  obtain best where b: "mergeTopK parts (int k) = Inr best" "sorted (map resKey best)" "best_k resKey k (mset (concat parts)) (mset best)"
    using mergeTopK_best [of parts k] assms(2,3) by auto
  then show ?thesis using best_k_parts [OF assms(1), of "{#}"] by auto
qed

definition sample_result :: "string \<Rightarrow> f32 \<Rightarrow> SearchResult" where
  "sample_result name score = \<lparr>res_ID = name, res_Score = score, res_Metadata = [], res_Payload = [], res_Namespace = [], res_Text = []\<rparr>"

definition sample_parts :: "SearchResult list list" where
  "sample_parts = [[sample_result ''b'' 0x40000000, sample_result ''c'' 0x3F800000], [sample_result ''a'' 0x40000000, sample_result ''d'' 0x3F800000]]"

lemma sample_parts_best:
  "list_all2 (\<lambda>S part. best_k resKey 2 S (mset part)) (map mset sample_parts) sample_parts"
proof -
  have "best_k resKey 2 (mset part) (mset part)" if "length part = 2" for part
  proof -
    have "take 2 (sort_key resKey part) = sort_key resKey part" using that by simp
    then show ?thesis using best_k_take_sort [of resKey 2 part] by (metis mset_sort)
  qed
  then show ?thesis by (simp add: sample_parts_def del: mset.simps)
qed

theorem merge_of_local_bests_witness:
  "\<exists>best. mergeTopK sample_parts 2 = Inr best \<and> best_k resKey 2 (sum_list (map mset sample_parts)) (mset best) \<and> map res_ID best = [''a'', ''b'']"
proof -
  have "list_all (list_all resOk) sample_parts" by code_simp
  then have "\<forall>part \<in> set sample_parts. \<forall>r \<in> set part. resOk r" by (auto simp: list_all_iff)
  from merge_of_local_bests [OF sample_parts_best this]
  obtain best where "mergeTopK sample_parts 2 = Inr best" "best_k resKey 2 (sum_list (map mset sample_parts)) (mset best)" by auto
  moreover have "map_sum (\<lambda>e. e) (map res_ID) (mergeTopK sample_parts 2) = Inr [''a'', ''b'']" by code_simp
  ultimately show ?thesis by auto
qed

end
