(* ===== verification/Lexical.thy ===== *)
theory Lexical
  imports Meta_Index Search_Merge
begin

text \<open>
  The lexical index of \<open>internal/segment/lexical.go\<close>: inverted lists for sparse vectors and for tokenized text, with the
  statistics BM25 needs. Splitting text into words (Unicode letters and digits) and the floating-point formulas
  are the fields of an argument \<open>F\<close>; which documents are visited, which numbers enter the formulas and
  how the candidates are ranked is written out.
\<close>

subsection \<open>Arithmetic\<close>

record lex_lib =
  fieldsOf :: "string \<Rightarrow> string list"
  sumSquares :: "f32 list \<Rightarrow> f64"
  sqrt64 :: "f64 \<Rightarrow> f64"
  addProduct :: "f64 \<Rightarrow> f32 \<Rightarrow> f32 \<Rightarrow> f64"
  cosineOf :: "f64 \<Rightarrow> f64 \<Rightarrow> f64 \<Rightarrow> f32"
  averageOf :: "u64 \<Rightarrow> nat \<Rightarrow> f64"
  idfOf :: "nat \<Rightarrow> nat \<Rightarrow> f64"
  addTerm :: "f64 \<Rightarrow> f64 \<Rightarrow> u32 \<Rightarrow> u32 \<Rightarrow> f64 \<Rightarrow> f64"
  float32Of :: "f64 \<Rightarrow> f32"

definition f64_zero :: "f64 \<Rightarrow> bool" where
  "f64_zero x \<longleftrightarrow> take_bit 63 x = 0"

definition f64_nan :: "f64 \<Rightarrow> bool" where
  "f64_nan x \<longleftrightarrow> take_bit 63 x > 0x7FF0000000000000"

definition f64_pos :: "f64 \<Rightarrow> bool" where
  "f64_pos x \<longleftrightarrow> \<not> f64_nan x \<and> f64_key x > 0"

subsection \<open>Tokens\<close>

definition stopwords :: "string list" where
  "stopwords = [''a'', ''an'', ''and'', ''are'', ''as'', ''at'', ''be'', ''by'', ''for'', ''from'', ''in'', ''is'', ''it'', ''of'',
     ''on'', ''or'', ''that'', ''the'', ''this'', ''to'', ''was'', ''with'']"

definition Tokenize :: "lex_lib \<Rightarrow> string \<Rightarrow> string list" where
  "Tokenize F text = filter (\<lambda>t. t \<notin> set stopwords) (fieldsOf F text)"

definition frequencies :: "string list \<Rightarrow> (string \<times> u32) list" where
  "frequencies tokens =
     fold (\<lambda>t fr. AList.update t ((case map_of fr t of None \<Rightarrow> 0 | Some c \<Rightarrow> c) + 1) fr) tokens []"

subsection \<open>The index\<close>

type_synonym 'v inverted = "(string \<times> (u64 \<times> 'v) list) list"

record lexicalIndex =
  lx_sparse :: "f32 inverted"
  lx_sparseNorm :: "(u64 \<times> f64) list"
  lx_text :: "u32 inverted"
  docLength :: "(u64 \<times> u32) list"
  totalTerms :: u64

definition newLexicalIndex :: lexicalIndex where
  "newLexicalIndex = \<lparr>lx_sparse = [], lx_sparseNorm = [], lx_text = [], docLength = [], totalTerms = 0\<rparr>"

definition setPosting :: "'v inverted \<Rightarrow> string \<Rightarrow> u64 \<Rightarrow> 'v \<Rightarrow> 'v inverted" where
  "setPosting pm t n v =
     (let ps = (case map_of pm t of None \<Rightarrow> [] | Some ps \<Rightarrow> ps) in AList.update t (AList.update n v ps) pm)"

definition dropPosting :: "u64 \<Rightarrow> string \<Rightarrow> 'v inverted \<Rightarrow> 'v inverted" where
  "dropPosting n t pm =
     (case map_of pm t of
        None \<Rightarrow> pm
      | Some ps \<Rightarrow>
          let ps' = AList.delete n ps in
          if ps' = [] then AList.delete t pm else AList.update t ps' pm)"

definition addSparse :: "lex_lib \<Rightarrow> u64 \<Rightarrow> CoreRecord \<Rightarrow> lexicalIndex \<Rightarrow> lexicalIndex" where
  "addSparse F n r l =
     (case SparseVector r of
        None \<Rightarrow> l
      | Some sv \<Rightarrow>
          if sv = [] then l
          else
            let entries = filter (\<lambda>(t, w). \<not> f32_is_zero w) sv;
                l1 = l\<lparr>lx_sparse := fold (\<lambda>(t, w) pm. setPosting pm t n w) entries (lx_sparse l)\<rparr>;
                squared = sumSquares F (map snd entries) in
            if f64_pos squared then l1\<lparr>lx_sparseNorm := AList.update n (sqrt64 F squared) (lx_sparseNorm l1)\<rparr> else l1)"

definition addText :: "lex_lib \<Rightarrow> u64 \<Rightarrow> CoreRecord \<Rightarrow> lexicalIndex \<Rightarrow> lexicalIndex" where
  "addText F n r l =
     (if Text r = [] then l
      else
        let tokens = Tokenize F (Text r); len = (of_nat (length tokens) :: u32) in
        if len = 0 then l
        else l\<lparr>lx_text := fold (\<lambda>(t, c) pm. setPosting pm t n c) (frequencies tokens) (lx_text l),
               docLength := AList.update n len (docLength l), totalTerms := totalTerms l + ucast len\<rparr>)"

definition lexAdd :: "lex_lib \<Rightarrow> u64 \<Rightarrow> CoreRecord \<Rightarrow> lexicalIndex \<Rightarrow> lexicalIndex" where
  "lexAdd F n r l = addText F n r (addSparse F n r l)"

definition lexRemove :: "lex_lib \<Rightarrow> u64 \<Rightarrow> CoreRecord \<Rightarrow> lexicalIndex \<Rightarrow> lexicalIndex" where
  "lexRemove F n r l =
     (let l1 = l\<lparr>lx_sparse := fold (dropPosting n) (map fst (case SparseVector r of None \<Rightarrow> [] | Some sv \<Rightarrow> sv)) (lx_sparse l),
                 lx_sparseNorm := AList.delete n (lx_sparseNorm l)\<rparr> in
      case map_of (docLength l1) n of
        None \<Rightarrow> l1
      | Some len \<Rightarrow>
          l1\<lparr>lx_text := fold (dropPosting n) (Tokenize F (Text r)) (lx_text l1),
             docLength := AList.delete n (docLength l1), totalTerms := totalTerms l1 - ucast len\<rparr>)"

subsection \<open>Search\<close>

record scoredOrdinal =
  so_ordinal :: u64
  so_score :: f32

definition scoredLess :: "scoredOrdinal \<Rightarrow> scoredOrdinal \<Rightarrow> bool" where
  "scoredLess a b \<longleftrightarrow>
     f32_lt (so_score b) (so_score a) \<or> f32_eq (so_score a) (so_score b) \<and> so_ordinal a < so_ordinal b"

definition topScored :: "scoredOrdinal list \<Rightarrow> int \<Rightarrow> scoredOrdinal list" where
  "topScored results limit =
     (let rs = sortBy scoredLess results in
      if limit > 0 \<and> int (length rs) > limit then take (nat limit) rs else rs)"

definition postingsOf :: "'v inverted \<Rightarrow> string \<Rightarrow> (u64 \<times> 'v) list" where
  "postingsOf pm t = (case map_of pm t of None \<Rightarrow> [] | Some ps \<Rightarrow> ps)"

text \<open>The scorer is built once per query: the distinct query tokens that occur, with their inverse document frequency.\<close>

definition bm25Terms :: "lex_lib \<Rightarrow> lexicalIndex \<Rightarrow> string \<Rightarrow> ((u64 \<times> u32) list \<times> f64) list" where
  "bm25Terms F l text =
     map (\<lambda>t. (postingsOf (lx_text l) t, idfOf F (length (docLength l)) (length (postingsOf (lx_text l) t))))
       (filter (\<lambda>t. postingsOf (lx_text l) t \<noteq> []) (rev (fold List.insert (Tokenize F text) [])))"

definition bm25Scorer :: "lex_lib \<Rightarrow> lexicalIndex \<Rightarrow> string \<Rightarrow> u64 \<Rightarrow> f32" where
  "bm25Scorer F l text ordinal =
     (if docLength l = [] then 0
      else
        case map_of (docLength l) ordinal of
          None \<Rightarrow> 0
        | Some len \<Rightarrow>
            float32Of F
              (fold (\<lambda>(ps, idf) score.
                  let tf = (case map_of ps ordinal of None \<Rightarrow> 0 | Some c \<Rightarrow> c) in
                  if tf > 0 then addTerm F score idf tf len (averageOf F (totalTerms l) (length (docLength l))) else score)
                (bm25Terms F l text) 0))"

definition searchText :: "lex_lib \<Rightarrow> lexicalIndex \<Rightarrow> string \<Rightarrow> (u64 \<Rightarrow> bool) \<Rightarrow> int \<Rightarrow> scoredOrdinal list" where
  "searchText F l text allow limit =
     (let candidates = fold (\<lambda>t cs. fold List.insert (map fst (postingsOf (lx_text l) t)) cs) (Tokenize F text) [] in
      topScored (map (\<lambda>n. \<lparr>so_ordinal = n, so_score = bm25Scorer F l text n\<rparr>) (filter allow candidates)) limit)"

definition searchSparse :: "lex_lib \<Rightarrow> lexicalIndex \<Rightarrow> (string \<times> f32) list \<Rightarrow> (u64 \<Rightarrow> bool) \<Rightarrow> int \<Rightarrow> scoredOrdinal list" where
  "searchSparse F l query allow limit =
     (let queryNorm = sqrt64 F (sumSquares F (map snd query)) in
      if f64_zero queryNorm then []
      else
        let accumulator =
              fold (\<lambda>(t, qw) acc.
                  if f32_is_zero qw then acc
                  else fold (\<lambda>(n, w) acc. AList.update n (addProduct F (case map_of acc n of None \<Rightarrow> 0 | Some x \<Rightarrow> x) qw w) acc)
                         (postingsOf (lx_sparse l) t) acc)
                query [];
            normOf = (\<lambda>n. case map_of (lx_sparseNorm l) n of None \<Rightarrow> 0 | Some x \<Rightarrow> x) in
        topScored
          (map (\<lambda>(n, product). \<lparr>so_ordinal = n, so_score = cosineOf F product queryNorm (normOf n)\<rparr>)
             (filter (\<lambda>(n, product). \<not> f64_zero (normOf n) \<and> allow n) accumulator)) limit)"

subsection \<open>Inverted lists\<close>

definition inv_ok :: "'v inverted \<Rightarrow> bool" where
  "inv_ok pm \<longleftrightarrow> (\<forall>t ps. map_of pm t = Some ps \<longrightarrow> ps \<noteq> [] \<and> distinct (map fst ps))"

lemma get2_setPosting: "get2 (setPosting pm t n v) t' n' = (if t' = t \<and> n' = n then Some v else get2 pm t' n')"
  by (auto simp: get2_def setPosting_def update_conv' Let_def split: option.splits)

lemma inv_ok_setPosting: "inv_ok pm \<Longrightarrow> inv_ok (setPosting pm t n v)"
proof -
  assume ok: "inv_ok pm"
  have "AList.update n v ps \<noteq> []" for ps :: "(u64 \<times> 'a) list" by (cases ps) auto
  then show ?thesis using ok
    by (auto simp: inv_ok_def setPosting_def update_conv' Let_def distinct_update split: option.splits if_splits)
qed

lemma delete_empty: "AList.delete n ps = [] \<Longrightarrow> map_of ps n' = Some v \<Longrightarrow> n' = n"
  by (metis delete_conv' fun_upd_apply map_of.simps(1) option.distinct(1))

lemma get2_dropPosting: "get2 (dropPosting n t pm) t' n' = (if t' = t \<and> n' = n then None else get2 pm t' n')"
proof (cases "map_of pm t")
  case None
  then show ?thesis by (auto simp: get2_def dropPosting_def)
next
  case (Some ps)
  show ?thesis
  proof (cases "AList.delete n ps = []")
    case True
    have "map_of ps n' = None" if "n' \<noteq> n" using delete_empty [OF True, of n'] that by (cases "map_of ps n'") auto
    then show ?thesis using Some True by (auto simp: get2_def dropPosting_def delete_conv' Let_def)
  next
    case False
    then show ?thesis using Some by (auto simp: get2_def dropPosting_def update_conv' delete_conv' Let_def)
  qed
qed

lemma inv_ok_dropPosting: "inv_ok pm \<Longrightarrow> inv_ok (dropPosting n t pm)"
  by (auto simp: inv_ok_def dropPosting_def update_conv' delete_conv' distinct_delete Let_def split: option.splits if_splits)

lemma fold_setPosting:
  assumes "distinct (map fst es)"
  shows "get2 (fold (\<lambda>(t, v) pm. setPosting pm t n v) es pm) t' n'
    = (if n' = n \<and> map_of es t' \<noteq> None then map_of es t' else get2 pm t' n')"
  using assms
proof (induction es arbitrary: pm)
  case (Cons e es)
  obtain t v where e: "e = (t, v)" by (cases e)
  have "map_of es t = None" using Cons.prems e by (simp add: map_of_eq_None_iff)
  then show ?case using Cons e by (auto simp: get2_setPosting)
qed simp

lemma inv_ok_fold_set: "inv_ok pm \<Longrightarrow> inv_ok (fold (\<lambda>(t, v) pm. setPosting pm t n v) es pm)"
  by (induction es arbitrary: pm) (auto simp: inv_ok_setPosting)

lemma inv_ok_fold_drop: "inv_ok pm \<Longrightarrow> inv_ok (fold (dropPosting n) ts pm)"
  by (induction ts arbitrary: pm) (auto simp: inv_ok_dropPosting)

lemma fold_dropPosting:
  "get2 (fold (dropPosting n) ts pm) t' n' = (if t' \<in> set ts \<and> n' = n then None else get2 pm t' n')"
  by (induction ts arbitrary: pm) (auto simp: get2_dropPosting)

lemma frequencies_count:
  "map_of (frequencies ts) t = (if t \<in> set ts then Some (of_nat (count_list ts t)) else None)"
  "distinct (map fst (frequencies ts))"
proof -
  let ?step = "\<lambda>t fr. AList.update t ((case map_of fr t of None \<Rightarrow> 0 | Some c \<Rightarrow> c) + (1 :: u32)) fr"
  have "map_of (fold ?step ts fr) t = (if t \<in> set ts then Some ((case map_of fr t of None \<Rightarrow> 0 | Some c \<Rightarrow> c) + of_nat (count_list ts t))
      else map_of fr t)" for fr
  proof (induction ts arbitrary: fr)
    case (Cons x ts)
    show ?case
    proof (cases "t \<in> set ts")
      case True
      then show ?thesis by (auto simp: Cons update_conv' add.assoc split: option.splits)
    next
      case False
      then have "count_list ts t = 0" by (simp add: count_list_0_iff)
      then show ?thesis using False by (auto simp: Cons update_conv')
    qed
  qed simp
  then show "map_of (frequencies ts) t = (if t \<in> set ts then Some (of_nat (count_list ts t)) else None)"
    by (simp add: frequencies_def)
  have "distinct (map fst fr) \<Longrightarrow> distinct (map fst (fold ?step ts fr))" for fr
    by (induction ts arbitrary: fr) (auto simp: distinct_update)
  then show "distinct (map fst (frequencies ts))" by (simp add: frequencies_def)
qed

subsection \<open>The documents behind the index\<close>

definition docTokens :: "lex_lib \<Rightarrow> CoreRecord \<Rightarrow> string list" where
  "docTokens F r = (if Text r = [] then [] else Tokenize F (Text r))"

definition sparseEntries :: "CoreRecord \<Rightarrow> (string \<times> f32) list" where
  "sparseEntries r = (case SparseVector r of None \<Rightarrow> [] | Some sv \<Rightarrow> filter (\<lambda>(t, w). \<not> f32_is_zero w) sv)"

definition docNorm :: "lex_lib \<Rightarrow> CoreRecord \<Rightarrow> f64 option" where
  "docNorm F r =
     (if SparseVector r \<in> {None, Some []} then None
      else let squared = sumSquares F (map snd (sparseEntries r)) in
           if f64_pos squared then Some (sqrt64 F squared) else None)"

definition docCount :: "lex_lib \<Rightarrow> CoreRecord \<Rightarrow> string \<Rightarrow> u32 option" where
  "docCount F r t = (if t \<in> set (docTokens F r) then Some (of_nat (count_list (docTokens F r) t)) else None)"

definition docSize :: "lex_lib \<Rightarrow> CoreRecord \<Rightarrow> u32 option" where
  "docSize F r = (if docTokens F r = [] then None else Some (of_nat (length (docTokens F r))))"

definition good_doc :: "lex_lib \<Rightarrow> CoreRecord \<Rightarrow> bool" where
  "good_doc F r \<longleftrightarrow> (case SparseVector r of None \<Rightarrow> True | Some sv \<Rightarrow> distinct (map fst sv)) \<and> length (docTokens F r) < 2 ^ 32"

type_synonym docs = "u64 \<Rightarrow> CoreRecord option"

definition lex_ok :: "lex_lib \<Rightarrow> lexicalIndex \<Rightarrow> docs \<Rightarrow> bool" where
  "lex_ok F l docs \<longleftrightarrow>
     (\<forall>t n. get2 (lx_sparse l) t n = Option.bind (docs n) (\<lambda>r. map_of (sparseEntries r) t)) \<and> inv_ok (lx_sparse l)
     \<and> (\<forall>n. map_of (lx_sparseNorm l) n = Option.bind (docs n) (docNorm F))
     \<and> (\<forall>t n. get2 (lx_text l) t n = Option.bind (docs n) (\<lambda>r. docCount F r t)) \<and> inv_ok (lx_text l)
     \<and> (\<forall>n. map_of (docLength l) n = Option.bind (docs n) (docSize F)) \<and> distinct (map fst (docLength l))
     \<and> totalTerms l = sum_list (map (\<lambda>(n, len). ucast len) (docLength l))"

lemma newLexicalIndex_ok: "lex_ok F newLexicalIndex (\<lambda>_. None)"
  by (simp add: lex_ok_def newLexicalIndex_def get2_def inv_ok_def)

lemma of_nat_length_zero: "length xs < 2 ^ 32 \<Longrightarrow> (of_nat (length xs) :: u32) = 0 \<longleftrightarrow> xs = []"
  by (auto simp: word_of_nat_eq_0_iff dest: dvd_imp_le)

lemma addSparse_fields [simp]:
  "lx_text (addSparse F n r l) = lx_text l" "docLength (addSparse F n r l) = docLength l" "totalTerms (addSparse F n r l) = totalTerms l"
  by (simp_all add: addSparse_def Let_def split: option.split)

lemma addSparse_lists:
  "lx_sparse (addSparse F n r l) = fold (\<lambda>(t, w) pm. setPosting pm t n w) (sparseEntries r) (lx_sparse l)"
  "lx_sparseNorm (addSparse F n r l) = (case docNorm F r of None \<Rightarrow> lx_sparseNorm l | Some x \<Rightarrow> AList.update n x (lx_sparseNorm l))"
  by (auto simp: addSparse_def sparseEntries_def docNorm_def Let_def split: option.split)

lemma addText_fields [simp]:
  "lx_sparse (addText F n r l) = lx_sparse l" "lx_sparseNorm (addText F n r l) = lx_sparseNorm l"
  by (simp_all add: addText_def Let_def)

lemma addText_lists:
  assumes "length (docTokens F r) < 2 ^ 32"
  shows "lx_text (addText F n r l) = fold (\<lambda>(t, c) pm. setPosting pm t n c) (frequencies (docTokens F r)) (lx_text l)"
    and "docLength (addText F n r l) = (case docSize F r of None \<Rightarrow> docLength l | Some len \<Rightarrow> AList.update n len (docLength l))"
    and "totalTerms (addText F n r l) = totalTerms l + (case docSize F r of None \<Rightarrow> 0 | Some len \<Rightarrow> ucast len)"
  using assms of_nat_length_zero [of "docTokens F r"]
  by (auto simp: addText_def docTokens_def docSize_def frequencies_def Let_def split: if_splits)

lemma sparseEntries_distinct: "good_doc F r \<Longrightarrow> distinct (map fst (sparseEntries r))"
  by (auto simp: good_doc_def sparseEntries_def split: option.splits dest: distinct_map_filter)

lemma sum_list_update_fresh:
  "map_of al n = None \<Longrightarrow> sum_list (map g (AList.update n v al)) = sum_list (map g al) + (g (n, v) :: 'b :: comm_monoid_add)"
  by (induction al) (auto simp: add.assoc)

lemma sum_list_delete:
  "map_of al n = Some v \<Longrightarrow> distinct (map fst al) \<Longrightarrow>
     sum_list (map g (AList.delete n al)) = sum_list (map g al) - (g (n, v) :: 'b :: ab_group_add)"
proof (induction al)
  case (Cons x al)
  have "AList.delete n al = al" if "n \<notin> fst ` set al" using that by simp
  then show ?case using Cons by (auto simp: image_iff)
qed simp

lemma lexAdd_ok:
  assumes ok: "lex_ok F l docs" and fresh: "docs n = None" and good: "good_doc F r"
  shows "lex_ok F (lexAdd F n r l) (docs(n \<mapsto> r))"
proof -
  have len: "length (docTokens F r) < 2 ^ 32" using good by (simp add: good_doc_def)
  note lists = addSparse_lists addText_lists [OF len]
  have inv: "inv_ok (lx_sparse (lexAdd F n r l))" "inv_ok (lx_text (lexAdd F n r l))"
    using ok by (auto simp: lexAdd_def lex_ok_def lists intro: inv_ok_fold_set)
  have sp: "get2 (lx_sparse (lexAdd F n r l)) t m = Option.bind ((docs(n \<mapsto> r)) m) (\<lambda>r. map_of (sparseEntries r) t)" for t m
    using ok fresh fold_setPosting [OF sparseEntries_distinct [OF good]]
    by (simp add: lexAdd_def lex_ok_def lists)
  have tx: "get2 (lx_text (lexAdd F n r l)) t m = Option.bind ((docs(n \<mapsto> r)) m) (\<lambda>r. docCount F r t)" for t m
    using ok fresh
    by (auto simp: lexAdd_def lex_ok_def lists fold_setPosting frequencies_count docCount_def)
  have nm: "map_of (lx_sparseNorm (lexAdd F n r l)) m = Option.bind ((docs(n \<mapsto> r)) m) (docNorm F)" for m
    using ok fresh by (auto simp: lexAdd_def lex_ok_def lists update_conv' split: option.split)
  have none: "map_of (docLength l) n = None" using ok fresh by (simp add: lex_ok_def)
  have dl: "map_of (docLength (lexAdd F n r l)) m = Option.bind ((docs(n \<mapsto> r)) m) (docSize F)" for m
    using ok fresh by (auto simp: lexAdd_def lex_ok_def lists update_conv' split: option.split)
  have dd: "distinct (map fst (docLength (lexAdd F n r l)))"
    using ok by (auto simp: lexAdd_def lex_ok_def lists distinct_update split: option.split)
  have "totalTerms (lexAdd F n r l) = sum_list (map (\<lambda>(n, len). ucast len) (docLength (lexAdd F n r l)))"
    using ok none by (auto simp: lexAdd_def lex_ok_def lists sum_list_update_fresh split: option.split)
  then show ?thesis unfolding lex_ok_def using inv sp tx nm dl dd by blast
qed

lemma lexRemove_lists:
  "lx_sparse (lexRemove F n r l) = fold (dropPosting n) (map fst (case SparseVector r of None \<Rightarrow> [] | Some sv \<Rightarrow> sv)) (lx_sparse l)"
  "lx_sparseNorm (lexRemove F n r l) = AList.delete n (lx_sparseNorm l)"
  "docLength (lexRemove F n r l) = AList.delete n (docLength l)"
  "lx_text (lexRemove F n r l) = (if map_of (docLength l) n = None then lx_text l else fold (dropPosting n) (Tokenize F (Text r)) (lx_text l))"
  "totalTerms (lexRemove F n r l) = totalTerms l - (case map_of (docLength l) n of None \<Rightarrow> 0 | Some len \<Rightarrow> ucast len)"
proof -
  have "AList.delete n (docLength l) = docLength l" if "map_of (docLength l) n = None"
    using that by (simp add: map_of_eq_None_iff)
  then show
    "lx_sparse (lexRemove F n r l) = fold (dropPosting n) (map fst (case SparseVector r of None \<Rightarrow> [] | Some sv \<Rightarrow> sv)) (lx_sparse l)"
    "lx_sparseNorm (lexRemove F n r l) = AList.delete n (lx_sparseNorm l)"
    "docLength (lexRemove F n r l) = AList.delete n (docLength l)"
    "lx_text (lexRemove F n r l) = (if map_of (docLength l) n = None then lx_text l else fold (dropPosting n) (Tokenize F (Text r)) (lx_text l))"
    "totalTerms (lexRemove F n r l) = totalTerms l - (case map_of (docLength l) n of None \<Rightarrow> 0 | Some len \<Rightarrow> ucast len)"
    by (simp_all add: lexRemove_def Let_def split: option.split)
qed

lemma lexRemove_ok:
  assumes ok: "lex_ok F l docs" and live: "docs n = Some r"
  shows "lex_ok F (lexRemove F n r l) (docs(n := None))"
proof -
  have inv: "inv_ok (lx_sparse (lexRemove F n r l))" "inv_ok (lx_text (lexRemove F n r l))"
    using ok by (auto simp: lex_ok_def lexRemove_lists intro: inv_ok_fold_drop)
  have "map_of (sparseEntries r) t = None" if "t \<notin> fst ` set (case SparseVector r of None \<Rightarrow> [] | Some sv \<Rightarrow> sv)" for t
    using that by (auto simp: sparseEntries_def map_of_eq_None_iff image_iff split: option.splits)
  then have sp: "get2 (lx_sparse (lexRemove F n r l)) t m = Option.bind ((docs(n := None)) m) (\<lambda>r. map_of (sparseEntries r) t)" for t m
    using ok live by (auto simp: lex_ok_def lexRemove_lists fold_dropPosting)
  have size: "map_of (docLength l) n = docSize F r" using ok live by (simp add: lex_ok_def)
  have tx: "get2 (lx_text (lexRemove F n r l)) t m = Option.bind ((docs(n := None)) m) (\<lambda>r. docCount F r t)" for t m
    using ok live size
    by (auto simp: lex_ok_def lexRemove_lists fold_dropPosting docCount_def docSize_def docTokens_def split: if_splits)
  have "totalTerms (lexRemove F n r l) = sum_list (map (\<lambda>(n, len). ucast len) (docLength (lexRemove F n r l)))"
  proof (cases "map_of (docLength l) n")
    case None
    then have "AList.delete n (docLength l) = docLength l" by (simp add: map_of_eq_None_iff AList.delete_idem)
    then show ?thesis using ok None by (simp add: lexRemove_lists lex_ok_def)
  next
    case (Some len)
    then show ?thesis using ok by (simp add: lexRemove_lists lex_ok_def sum_list_delete)
  qed
  then show ?thesis using inv sp tx ok by (simp add: lex_ok_def lexRemove_lists delete_conv' distinct_delete)
qed

subsection \<open>Ranking against the documents\<close>

text \<open>BM25 over a document collection, without an index: the statistics are cardinalities and sums over the documents.\<close>

definition sized :: "lex_lib \<Rightarrow> docs \<Rightarrow> u64 set" where
  "sized F docs = {n. Option.bind (docs n) (docSize F) \<noteq> None}"

definition containing :: "lex_lib \<Rightarrow> docs \<Rightarrow> string \<Rightarrow> u64 set" where
  "containing F docs t = {n. Option.bind (docs n) (\<lambda>r. docCount F r t) \<noteq> None}"

definition bm25Ref :: "lex_lib \<Rightarrow> docs \<Rightarrow> string \<Rightarrow> u64 \<Rightarrow> f32" where
  "bm25Ref F docs text n =
     (case Option.bind (docs n) (docSize F) of
        None \<Rightarrow> 0
      | Some len \<Rightarrow>
          let N = card (sized F docs);
              total = (\<Sum>m \<in> sized F docs. ucast (the (Option.bind (docs m) (docSize F)))) in
          float32Of F
            (fold (\<lambda>t score. case Option.bind (docs n) (\<lambda>r. docCount F r t) of
                 None \<Rightarrow> score
               | Some tf \<Rightarrow> addTerm F score (idfOf F N (card (containing F docs t))) tf len (averageOf F total N))
               (rev (fold List.insert (Tokenize F text) [])) 0))"

lemma map_of_postings: "map_of (postingsOf pm t) n = get2 pm t n"
  by (simp add: postingsOf_def get2_def split: option.split)

lemma fst_postings: "fst ` set (postingsOf pm t) = {n. get2 pm t n \<noteq> None}"
  using dom_map_of_conv_image_fst [of "postingsOf pm t"] by (auto simp: map_of_postings dom_def)

lemma postings_distinct: "inv_ok pm \<Longrightarrow> distinct (map fst (postingsOf pm t))"
  by (auto simp: inv_ok_def postingsOf_def split: option.split)

lemma sum_dom:
  "distinct (map fst al) \<Longrightarrow> sum_list (map (\<lambda>(n, v). g v) al) = (\<Sum>n \<in> dom (map_of al). g (the (map_of al n)) :: 'b :: comm_monoid_add)"
proof (induction al)
  case (Cons x al)
  obtain n v where x: "x = (n, v)" by (cases x)
  have n: "n \<notin> dom (map_of al)" using Cons.prems x by (simp add: dom_map_of_conv_image_fst)
  then have "(\<Sum>m \<in> dom (map_of al). g (the (((map_of al)(n \<mapsto> v)) m))) = (\<Sum>m \<in> dom (map_of al). g (the (map_of al m)))"
    by (intro sum.cong) auto
  then show ?case using Cons n x by (simp add: finite_dom_map_of del: fun_upd_apply) simp
qed simp

lemma bm25_agrees:
  assumes ok: "lex_ok F l docs" and good: "\<And>n r. docs n = Some r \<Longrightarrow> good_doc F r"
  shows "bm25Scorer F l text n = bm25Ref F docs text n"
proof (cases "Option.bind (docs n) (docSize F)")
  case None
  then show ?thesis using ok by (simp add: bm25Scorer_def bm25Ref_def lex_ok_def)
next
  case (Some len)
  have dl: "map_of (docLength l) = (\<lambda>n. Option.bind (docs n) (docSize F))" using ok by (auto simp: lex_ok_def)
  have N: "length (docLength l) = card (sized F docs)"
    using ok length_dom [of "docLength l"] unfolding dl by (simp add: lex_ok_def sized_def dom_def)
  have T: "totalTerms l = (\<Sum>m \<in> sized F docs. ucast (the (Option.bind (docs m) (docSize F))))"
    using ok sum_dom [of "docLength l" ucast] unfolding dl by (simp add: lex_ok_def sized_def dom_def)
  have tx: "get2 (lx_text l) t m = Option.bind (docs m) (\<lambda>r. docCount F r t)" for t m using ok by (simp add: lex_ok_def)
  have df: "length (postingsOf (lx_text l) t) = card (containing F docs t)" for t
    using ok length_dom [OF postings_distinct, of "lx_text l" t] by (simp add: lex_ok_def containing_def map_of_postings dom_def)
  have pos: "0 < tf" if c: "Option.bind (docs n) (\<lambda>r. docCount F r t) = Some tf" for t tf
  proof -
    obtain r where r: "docs n = Some r" "t \<in> set (docTokens F r)" "tf = of_nat (count_list (docTokens F r) t)"
      using c by (auto simp: bind_eq_Some_conv docCount_def split: if_splits)
    have "count_list (docTokens F r) t < 2 ^ 32"
      using good [OF r(1)] count_le_length [of "docTokens F r" t] by (simp add: good_doc_def)
    moreover have "count_list (docTokens F r) t \<noteq> 0" using r(2) by (simp add: count_list_0_iff)
    ultimately have "tf \<noteq> 0" unfolding r(3) by (auto simp: word_of_nat_eq_0_iff dest: dvd_imp_le)
    then show ?thesis by (simp add: word_gt_0)
  qed
  have ne: "docLength l \<noteq> []" using dl Some by (metis map_of.simps(1) option.distinct(1))
  have nonempty: "Option.bind (docs n) (\<lambda>r. docCount F r t) = None" if "postingsOf (lx_text l) t = []" for t
    using map_of_postings [of "lx_text l" t n] that tx by simp
  show ?thesis
    unfolding bm25Scorer_def bm25Ref_def bm25Terms_def
    using Some ne
    apply (simp add: dl N T df fold_map fold_filter o_def Let_def)
    apply (intro arg_cong [where f = "float32Of F"] fold_cong refl ext)
    subgoal for t score
      using pos [of t] nonempty [of t] by (cases "Option.bind (docs n) (\<lambda>r. docCount F r t)") (auto simp: map_of_postings tx N T)
    done
qed

definition soKey :: "scoredOrdinal \<Rightarrow> int \<times> u64" where
  "soKey s = (- f32_key (so_score s), so_ordinal s)"

lemma topScored_best:
  assumes "\<And>s. s \<in> set rs \<Longrightarrow> \<not> f32_nan (so_score s)"
  shows "sorted (map soKey (topScored rs limit))
    \<and> best_k soKey (if limit > 0 then nat limit else length rs) (mset rs) (mset (topScored rs limit))"
proof -
  let ?k = "if limit > 0 then nat limit else length rs"
  have "sortBy scoredLess rs = sort_key soKey rs"
    using assms by (intro sortBy_key) (auto simp: scoredLess_def soKey_def f32_lt_def f32_eq_def less_prod_def' less_le)
  then have "topScored rs limit = take ?k (sort_key soKey rs)"
    by (auto simp: topScored_def Let_def)
  moreover have "sorted (map soKey (take ?k (sort_key soKey rs)))" by (simp only: take_map [symmetric] sorted_sort_key sorted_wrt_take)
  ultimately show ?thesis using best_k_take_sort [of soKey ?k rs] by simp
qed

lemma candidates_set:
  "set (fold (\<lambda>t cs. fold List.insert (map fst (postingsOf pm t)) cs) ts cs0) = set cs0 \<union> {n. \<exists>t \<in> set ts. get2 pm t n \<noteq> None}"
  "distinct cs0 \<Longrightarrow> distinct (fold (\<lambda>t cs. fold List.insert (map fst (postingsOf pm t)) cs) ts cs0)"
proof -
  have s: "set (fold List.insert xs cs) = set xs \<union> set cs" for xs cs :: "u64 list" by (induction xs arbitrary: cs) auto
  have d: "distinct cs \<Longrightarrow> distinct (fold List.insert xs cs)" for xs cs :: "u64 list" by (induction xs arbitrary: cs) auto
  show "set (fold (\<lambda>t cs. fold List.insert (map fst (postingsOf pm t)) cs) ts cs0) = set cs0 \<union> {n. \<exists>t \<in> set ts. get2 pm t n \<noteq> None}"
    by (induction ts arbitrary: cs0) (auto simp: s fst_postings)
  show "distinct cs0 \<Longrightarrow> distinct (fold (\<lambda>t cs. fold List.insert (map fst (postingsOf pm t)) cs) ts cs0)"
    by (induction ts arbitrary: cs0) (auto simp: d)
qed

text \<open>The documents a text query can return: those allowed that share a token with it.\<close>

definition matching :: "lex_lib \<Rightarrow> docs \<Rightarrow> string \<Rightarrow> (u64 \<Rightarrow> bool) \<Rightarrow> u64 set" where
  "matching F docs text allow =
     {n. allow n \<and> (\<exists>r. docs n = Some r \<and> set (docTokens F r) \<inter> set (Tokenize F text) \<noteq> {})}"

definition ranked_docs :: "lex_lib \<Rightarrow> docs \<Rightarrow> string \<Rightarrow> (u64 \<Rightarrow> bool) \<Rightarrow> scoredOrdinal set" where
  "ranked_docs F docs text allow =
     (\<lambda>n. \<lparr>so_ordinal = n, so_score = bm25Ref F docs text n\<rparr>) ` matching F docs text allow"

lemma searchText_exact:
  assumes ok: "lex_ok F l docs" and good: "\<And>n r. docs n = Some r \<Longrightarrow> good_doc F r"
    and num: "\<And>n. n \<in> matching F docs text allow \<Longrightarrow> \<not> f32_nan (bm25Ref F docs text n)"
  shows "sorted (map soKey (searchText F l text allow limit))
    \<and> best_k soKey (if limit > 0 then nat limit else card (matching F docs text allow))
        (mset_set (ranked_docs F docs text allow)) (mset (searchText F l text allow limit))"
proof -
  define cs where "cs = filter allow (fold (\<lambda>t cs. fold List.insert (map fst (postingsOf (lx_text l) t)) cs) (Tokenize F text) [])"
  define score where "score = (\<lambda>n. \<lparr>so_ordinal = n, so_score = bm25Scorer F l text n\<rparr>)"
  have set: "set cs = matching F docs text allow"
    using ok by (auto simp: cs_def candidates_set matching_def lex_ok_def bind_eq_Some_conv docCount_def split: if_splits)
  have d: "distinct cs" by (simp add: cs_def candidates_set)
  have inj: "inj_on score A" for A by (rule inj_onI) (simp add: score_def)
  have score: "score = (\<lambda>n. \<lparr>so_ordinal = n, so_score = bm25Ref F docs text n\<rparr>)"
    using bm25_agrees [OF ok good] by (simp add: score_def)
  have "mset (map score cs) = mset_set (score ` set cs)"
    using d inj by (simp add: image_mset_mset_set mset_set_set [symmetric])
  also have "\<dots> = mset_set (ranked_docs F docs text allow)" by (simp add: set ranked_docs_def score)
  finally have ms: "mset (map score cs) = mset_set (ranked_docs F docs text allow)" .
  have "\<not> f32_nan (so_score s)" if "s \<in> set (map score cs)" for s
    using that num set by (auto simp: score)
  then have "sorted (map soKey (topScored (map score cs) limit))
    \<and> best_k soKey (if limit > 0 then nat limit else length (map score cs)) (mset (map score cs)) (mset (topScored (map score cs) limit))"
    by (rule topScored_best)
  then show ?thesis
    using ms set distinct_card [OF d] by (auto simp: searchText_def cs_def [symmetric] score_def [symmetric] split: if_splits)
qed

subsection \<open>Histories\<close>

text \<open>
  The changes a segment makes to its index: an ordinal receives a record, the previous one being removed first, or
  loses it.
\<close>

definition lexChange :: "lex_lib \<Rightarrow> u64 \<times> CoreRecord option \<Rightarrow> lexicalIndex \<times> docs \<Rightarrow> lexicalIndex \<times> docs" where
  "lexChange F c = (\<lambda>(l, docs).
     let l1 = (case docs (fst c) of None \<Rightarrow> l | Some r \<Rightarrow> lexRemove F (fst c) r l);
         l2 = (case snd c of None \<Rightarrow> l1 | Some r \<Rightarrow> lexAdd F (fst c) r l1) in
     (l2, docs(fst c := snd c)))"

lemma lexChange_ok:
  assumes "lex_ok F l docs" and "\<And>r. snd c = Some r \<Longrightarrow> good_doc F r"
  shows "lex_ok F (fst (lexChange F c (l, docs))) (docs(fst c := snd c))"
proof -
  let ?l1 = "case docs (fst c) of None \<Rightarrow> l | Some r \<Rightarrow> lexRemove F (fst c) r l"
  have "docs(fst c := None) = docs" if "docs (fst c) = None" using that by (simp add: fun_upd_idem)
  then have l1: "lex_ok F ?l1 (docs(fst c := None))"
    using assms(1) lexRemove_ok [OF assms(1)] by (cases "docs (fst c)") auto
  show ?thesis
  proof (cases "snd c")
    case None
    then show ?thesis using l1 by (simp add: lexChange_def Let_def)
  next
    case (Some r)
    then show ?thesis using lexAdd_ok [OF l1 _ assms(2) [OF Some], of "fst c"] by (simp add: lexChange_def Let_def)
  qed
qed

lemma lexRun_ok:
  assumes "lex_ok F l docs" and "\<And>n r. docs n = Some r \<Longrightarrow> good_doc F r"
    and "\<And>n r. (n, Some r) \<in> set cs \<Longrightarrow> good_doc F r"
  shows "case fold (lexChange F) cs (l, docs) of (l', docs') \<Rightarrow>
    lex_ok F l' docs' \<and> (\<forall>n r. docs' n = Some r \<longrightarrow> good_doc F r) \<and> docs' = fold (\<lambda>(n, c) d. d(n := c)) cs docs"
  using assms
proof (induction cs arbitrary: l docs)
  case (Cons c cs)
  have c: "good_doc F r" if "snd c = Some r" for r using Cons.prems(3) [of "fst c" r] that by (metis list.set_intros(1) prod.collapse)
  have e: "lexChange F c (l, docs) = (fst (lexChange F c (l, docs)), docs(fst c := snd c))" by (simp add: lexChange_def Let_def)
  have "good_doc F r" if "(docs(fst c := snd c)) n = Some r" for n r
    using that c Cons.prems(2) by (auto split: if_splits)
  note good = this
  have step: "lex_ok F (fst (lexChange F c (l, docs))) (docs(fst c := snd c))" by (rule lexChange_ok [OF Cons.prems(1) c])
  have rest: "\<And>n r. (n, Some r) \<in> set cs \<Longrightarrow> good_doc F r" using Cons.prems(3) by (metis list.set_intros(2))
  have ih: "case fold (lexChange F) cs (fst (lexChange F c (l, docs)), docs(fst c := snd c)) of (l', docs') \<Rightarrow>
      lex_ok F l' docs' \<and> (\<forall>n r. docs' n = Some r \<longrightarrow> good_doc F r)
      \<and> docs' = fold (\<lambda>(n, c) d. d(n := c)) cs (docs(fst c := snd c))"
    by (rule Cons.IH [OF step], erule good, erule rest)
  have "fold (lexChange F) (c # cs) (l, docs) = fold (lexChange F) cs (fst (lexChange F c (l, docs)), docs(fst c := snd c))"
    using e by simp
  moreover have "fold (\<lambda>(n, c) d. d(n := c)) (c # cs) docs = fold (\<lambda>(n, c) d. d(n := c)) cs (docs(fst c := snd c))"
    by (simp add: case_prod_beta del: fun_upd_apply)
  ultimately show ?case using ih by (simp only:)
qed simp

text \<open>
  C6: Text search ranks the live documents by BM25 and returns the best of them. After any history of inserts, overwrites
  and deletions the inverted lists, the document lengths and the term total are those of the documents that
  are left, so every score is the BM25 score computed from these documents alone; the result is sorted by decreasing
  score and increasing ordinal and holds the best \<open>limit\<close> of the allowed documents that share a token with the
  query, or all of them if \<open>limit\<close> is not positive.
\<close>

theorem text_search_exact:
  assumes "fold (lexChange F) cs (newLexicalIndex, \<lambda>_. None) = (l, docs)"
    and "\<And>n r. (n, Some r) \<in> set cs \<Longrightarrow> good_doc F r"
    and "\<And>n. n \<in> matching F docs text allow \<Longrightarrow> \<not> f32_nan (bm25Ref F docs text n)"
  shows "docs = fold (\<lambda>(n, c) d. d(n := c)) cs (\<lambda>_. None)
    \<and> sorted (map soKey (searchText F l text allow limit))
    \<and> best_k soKey (if limit > 0 then nat limit else card (matching F docs text allow))
        (mset_set (ranked_docs F docs text allow)) (mset (searchText F l text allow limit))"
proof -
  have "case fold (lexChange F) cs (newLexicalIndex, \<lambda>_. None) of (l', docs') \<Rightarrow>
    lex_ok F l' docs' \<and> (\<forall>n r. docs' n = Some r \<longrightarrow> good_doc F r) \<and> docs' = fold (\<lambda>(n, c) d. d(n := c)) cs (\<lambda>_. None)"
    by (rule lexRun_ok [OF newLexicalIndex_ok _ assms(2)]) auto
  then have run: "lex_ok F l docs" "\<And>n r. docs n = Some r \<Longrightarrow> good_doc F r" "docs = fold (\<lambda>(n, c) d. d(n := c)) cs (\<lambda>_. None)"
    using assms(1) by auto
  have "sorted (map soKey (searchText F l text allow limit))
    \<and> best_k soKey (if limit > 0 then nat limit else card (matching F docs text allow))
        (mset_set (ranked_docs F docs text allow)) (mset (searchText F l text allow limit))"
    by (rule searchText_exact [OF run(1)], erule run(2), erule assms(3))
  then show ?thesis using run(3) by blast
qed

definition sample_words :: "string \<Rightarrow> string list" where
  "sample_words s = (let (w, ws) = foldr (\<lambda>c (w, ws). if c = CHR '' '' then ([], w # ws) else (c # w, ws)) s ([], []) in filter (\<lambda>w. w \<noteq> []) (w # ws))"

definition sample_lex :: lex_lib where
  "sample_lex = \<lparr>fieldsOf = sample_words, sumSquares = (\<lambda>_. 0), sqrt64 = (\<lambda>x. x), addProduct = (\<lambda>a _ _. a), cosineOf = (\<lambda>_ _ _. 0),
     averageOf = (\<lambda>_ _. 0), idfOf = (\<lambda>_ _. 0), addTerm = (\<lambda>score _ tf _ _. score + ucast tf),
     float32Of = (\<lambda>x. if x = 1 then 0x3F800000 else if x = 2 then 0x40000000 else 0)\<rparr>"

definition sample_text :: "string \<Rightarrow> CoreRecord" where
  "sample_text t = \<lparr>cr_ID = ''id'', cr_Vector = [], SparseVector = None, Metadata = [], cr_Payload = [], Timestamp = 0, cr_Version = 1,
     Namespace = [], Text = t, cr_Vectors = [], MultiVectors = []\<rparr>"

definition sample_changes :: "(u64 \<times> CoreRecord option) list" where
  "sample_changes = [(1, Some (sample_text ''red apple'')), (2, Some (sample_text ''the red red wine'')), (3, Some (sample_text ''blue sky'')),
     (1, None), (3, Some (sample_text ''a red boat''))]"

lemma sample_changes_good: "(n, Some r) \<in> set sample_changes \<Longrightarrow> good_doc sample_lex r"
proof -
  have "list_all (\<lambda>(n, c). case c of None \<Rightarrow> True | Some r \<Rightarrow> SparseVector r = None \<and> length (docTokens sample_lex r) \<le> 4) sample_changes"
    by code_simp
  then show "(n, Some r) \<in> set sample_changes \<Longrightarrow> good_doc sample_lex r" by (auto simp: list_all_iff good_doc_def)
qed

theorem text_search_exact_witness:
  "\<exists>l docs. fold (lexChange sample_lex) sample_changes (newLexicalIndex, \<lambda>_. None) = (l, docs)
     \<and> sorted (map soKey (searchText sample_lex l ''red'' (\<lambda>_. True) 5))
     \<and> map so_ordinal (searchText sample_lex l ''red'' (\<lambda>_. True) 5) = [2, 3]"
proof -
  obtain l docs where run: "fold (lexChange sample_lex) sample_changes (newLexicalIndex, \<lambda>_. None) = (l, docs)" by fastforce
  have "\<not> f32_nan (bm25Ref sample_lex docs ''red'' n)" for n
    by (simp add: bm25Ref_def sample_lex_def f32_nan_def Let_def split: option.split)
  note num = this
  have "sorted (map soKey (searchText sample_lex l ''red'' (\<lambda>_. True) 5))"
    by (rule text_search_exact [OF run, THEN conjunct2, THEN conjunct1], erule sample_changes_good, rule num)
  moreover have "map so_ordinal (searchText sample_lex (fst (fold (lexChange sample_lex) sample_changes (newLexicalIndex, \<lambda>_. None))) ''red'' (\<lambda>_. True) 5) = [2, 3]"
    by code_simp
  ultimately show ?thesis using run by auto
qed

end
