(* ===== verification/Named_Fields.thy ===== *)
theory Named_Fields
  imports Lexical
begin

text \<open>
  The named vector fields of a segment, \<open>internal/segment/named.go\<close>: vectors kept at the precision of their field, token vectors
  with a pooled vector for candidate generation, and the scan or index that finds candidates. The functions a
  segment takes from elsewhere (other index kinds, floating-point arithmetic) are the fields of one argument \<open>E\<close>.
\<close>

subsection \<open>What a segment uses\<close>

record hybrid_lib =
  rrfAdd :: "f32 \<Rightarrow> nat \<Rightarrow> f32"
  addShifted :: "f32 \<Rightarrow> f32 \<Rightarrow> f32"
  addNormalizedBM25 :: "f32 \<Rightarrow> f32 \<Rightarrow> f32"
  divideBy :: "f32 \<Rightarrow> nat \<Rightarrow> f32"
  mixDense :: "string \<Rightarrow> f32 \<Rightarrow> f32 \<Rightarrow> f32 \<Rightarrow> f32"

record 'i seg_env =
  indexOps :: "'i index_ops"
  newFlat :: "int \<Rightarrow> string \<Rightarrow> 'i result"
  newHNSW :: "int \<Rightarrow> string \<Rightarrow> IndexConfig \<Rightarrow> 'i result"
  newBinary :: "CollectionConfig \<Rightarrow> 'i result"
  newBinaryMapped :: "CollectionConfig \<Rightarrow> MappedSource \<Rightarrow> u64 list \<Rightarrow> 'i result"
  newMapped :: "MappedSource \<Rightarrow> string \<Rightarrow> u64 list \<Rightarrow> 'i result"
  newPQ :: "CollectionConfig \<Rightarrow> CoreRecord list \<Rightarrow> MappedSource option \<Rightarrow> bytes option \<Rightarrow> 'i result"
  loadGraph :: "CollectionConfig \<Rightarrow> u64 list \<Rightarrow> f32 list list \<Rightarrow> bytes \<Rightarrow> 'i result"
  openDiskANN :: "string \<Rightarrow> string \<Rightarrow> int \<Rightarrow> nat \<Rightarrow> u64 \<Rightarrow> int \<Rightarrow> ('i \<times> MappedSource) result"
  closeIndex :: "'i \<Rightarrow> 'i"
  distanceOf :: scorer
  meanPool :: "f32 list list \<Rightarrow> f32 list"
  maxSimOf :: "string \<Rightarrow> f32 list list \<Rightarrow> f32 list list \<Rightarrow> f32 result"
  lexLib :: lex_lib
  textLib :: text_lib
  geoOf :: "Index \<Rightarrow> GeoRadius \<Rightarrow> Set"
  hybridLib :: hybrid_lib

subsection \<open>Stored vectors\<close>

record storedVector =
  sv_f32 :: "f32 list"
  sv_u16 :: "u16 list option"

definition encodeVector :: "string \<Rightarrow> f32 list \<Rightarrow> storedVector" where
  "encodeVector datatype vector =
     (if datatype = ''float16'' then \<lparr>sv_f32 = [], sv_u16 = Some (map Float32ToFloat16 vector)\<rparr>
      else if datatype = ''bfloat16'' then \<lparr>sv_f32 = [], sv_u16 = Some (map Float32ToBFloat16 vector)\<rparr>
      else \<lparr>sv_f32 = vector, sv_u16 = None\<rparr>)"

definition decodeVector :: "storedVector \<Rightarrow> string \<Rightarrow> f32 list" where
  "decodeVector v datatype =
     (case sv_u16 v of
        None \<Rightarrow> sv_f32 v
      | Some codes \<Rightarrow> if datatype = ''bfloat16'' then map BFloat16ToFloat32 codes else map Float16ToFloat32 codes)"

subsection \<open>Fields\<close>

record 'i namedField =
  nf_config :: VectorField
  nf_index :: "'i option"
  nf_dense :: "(u64 \<times> storedVector) list"
  nf_multi :: "(u64 \<times> storedVector list) list"
  nf_pooled :: "(u64 \<times> storedVector) list"

definition newNamedField :: "'i seg_env \<Rightarrow> VectorField \<Rightarrow> 'i namedField result" where
  "newNamedField E config =
     (let field = \<lparr>nf_config = config, nf_index = None, nf_dense = [], nf_multi = [], nf_pooled = []\<rparr> in
      if ic_Type (vf_Index config) = ''hnsw''
      then and_then (newHNSW E (vf_Dimension config) (vf_Metric config) (vf_Index config)) (\<lambda>i. Inr (field\<lparr>nf_index := Some i\<rparr>))
      else Inr field)"

text \<open>A failing removal from the index is ignored.\<close>

definition removeField :: "'i seg_env \<Rightarrow> u64 \<Rightarrow> 'i namedField \<Rightarrow> 'i namedField" where
  "removeField E ordinal f =
     (if map_of (nf_dense f) ordinal = None \<and> map_of (nf_multi f) ordinal = None then f
      else
        let f1 = f\<lparr>nf_dense := AList.delete ordinal (nf_dense f), nf_multi := AList.delete ordinal (nf_multi f),
                   nf_pooled := AList.delete ordinal (nf_pooled f)\<rparr> in
        case nf_index f1 of
          None \<Rightarrow> f1
        | Some i \<Rightarrow> (case ixDelete (indexOps E) i ordinal of Inl _ \<Rightarrow> f1 | Inr i' \<Rightarrow> f1\<lparr>nf_index := Some i'\<rparr>))"

definition indexField :: "'i seg_env \<Rightarrow> u64 \<Rightarrow> f32 list \<Rightarrow> 'i namedField \<Rightarrow> unit result \<times> 'i namedField" where
  "indexField E ordinal vector f =
     (case nf_index f of
        None \<Rightarrow> (Inr (), f)
      | Some i \<Rightarrow> (case ixUpsert (indexOps E) i ordinal vector of Inl e \<Rightarrow> (Inl e, f) | Inr i' \<Rightarrow> (Inr (), f\<lparr>nf_index := Some i'\<rparr>)))"

definition putField ::
    "'i seg_env \<Rightarrow> u64 \<Rightarrow> f32 list option \<Rightarrow> f32 list list option \<Rightarrow> 'i namedField \<Rightarrow> unit result \<times> 'i namedField" where
  "putField E ordinal vector list f0 =
     (let f = removeField E ordinal f0 in
      if MultiVector (nf_config f) then
        (case list of
           None \<Rightarrow> (Inr (), f)
         | Some items \<Rightarrow>
             let pooled = meanPool E items in
             indexField E ordinal pooled
               (f\<lparr>nf_multi := AList.update ordinal (map (encodeVector (Datatype (nf_config f))) items) (nf_multi f),
                  nf_pooled := AList.update ordinal \<lparr>sv_f32 = pooled, sv_u16 = None\<rparr> (nf_pooled f)\<rparr>))
      else
        (case vector of
           None \<Rightarrow> (Inr (), f)
         | Some v \<Rightarrow>
             indexField E ordinal v
               (f\<lparr>nf_dense := AList.update ordinal (encodeVector (Datatype (nf_config f)) v) (nf_dense f)\<rparr>)))"

definition fieldMultiVector :: "'i namedField \<Rightarrow> u64 \<Rightarrow> f32 list list option" where
  "fieldMultiVector f ordinal =
     map_option (map (\<lambda>v. decodeVector v (Datatype (nf_config f)))) (map_of (nf_multi f) ordinal)"

definition fieldCandidates ::
    "'i seg_env \<Rightarrow> 'i namedField \<Rightarrow> f32 list \<Rightarrow> int \<Rightarrow> int \<Rightarrow> (u64 \<Rightarrow> bool) \<Rightarrow> Candidate list result" where
  "fieldCandidates E f vector k efSearch allow =
     (case nf_index f of
        Some i \<Rightarrow> ixSearch (indexOps E) i vector k \<lparr>so_EFSearch = efSearch, so_AllowedCount = -1\<rparr> allow
      | None \<Rightarrow>
          and_then
            (mapR (\<lambda>(ordinal, stored).
                and_then (distanceOf E (vf_Metric (nf_config f)) vector (decodeVector stored (Datatype (nf_config f))))
                  (\<lambda>score. Inr \<lparr>cand_ID = ordinal, cand_Score = score\<rparr>))
              (filter (\<lambda>(ordinal, _). allow ordinal) (if MultiVector (nf_config f) then nf_pooled f else nf_dense f)))
            (\<lambda>scored.
              let sorted = sortBy better scored in
              if int (length sorted) > k then (if k < 0 then Inl GoPanic else Inr (take (nat k) sorted)) else Inr sorted))"

definition fieldMaxSim :: "'i seg_env \<Rightarrow> 'i namedField \<Rightarrow> u64 \<Rightarrow> f32 list list \<Rightarrow> f32 result" where
  "fieldMaxSim E f ordinal query =
     (case fieldMultiVector f ordinal of
        None \<Rightarrow> Inr 0
      | Some document \<Rightarrow> maxSimOf E (vf_Metric (nf_config f)) query document)"

subsection \<open>All fields of a segment\<close>

type_synonym 'i fields = "(string \<times> 'i namedField) list"

fun putNamed :: "'i seg_env \<Rightarrow> u64 \<Rightarrow> CoreRecord \<Rightarrow> 'i fields \<Rightarrow> unit result \<times> 'i fields" where
  "putNamed E ordinal r [] = (Inr (), [])"
| "putNamed E ordinal r ((name, f) # fs) =
     (case putField E ordinal (map_of (cr_Vectors r) name) (map_of (MultiVectors r) name) f of
        (Inl e, f') \<Rightarrow> (Inl e, (name, f') # fs)
      | (Inr _, f') \<Rightarrow> (case putNamed E ordinal r fs of (res, fs') \<Rightarrow> (res, (name, f') # fs')))"

definition removeNamed :: "'i seg_env \<Rightarrow> u64 \<Rightarrow> 'i fields \<Rightarrow> 'i fields" where
  "removeNamed E ordinal fs = map (\<lambda>(name, f). (name, removeField E ordinal f)) fs"

definition attachNamed :: "u64 \<Rightarrow> 'i fields \<Rightarrow> CoreRecord \<Rightarrow> CoreRecord" where
  "attachNamed ordinal fs r =
     fold (\<lambda>(name, f) r.
         let r1 = (case map_of (nf_dense f) ordinal of
                     None \<Rightarrow> r
                   | Some stored \<Rightarrow> r\<lparr>cr_Vectors := AList.update name (decodeVector stored (Datatype (nf_config f))) (cr_Vectors r)\<rparr>) in
         case fieldMultiVector f ordinal of
           None \<Rightarrow> r1
         | Some list \<Rightarrow> r1\<lparr>MultiVectors := AList.update name list (MultiVectors r1)\<rparr>)
       fs r"

subsection \<open>Scanned fields\<close>

text \<open>
  Fields without an index of their own. What a field holds for an ordinal is read by \<open>fieldDense\<close> and
  \<open>fieldMultiVector\<close>; storing a vector rounds it to the precision of the field.
\<close>

definition fieldDense :: "'i namedField \<Rightarrow> u64 \<Rightarrow> f32 list option" where
  "fieldDense f ordinal = map_option (\<lambda>v. decodeVector v (Datatype (nf_config f))) (map_of (nf_dense f) ordinal)"

lemma decode_encode: "decodeVector (encodeVector dt v) dt = RoundToDatatype dt v"
  by (simp add: decodeVector_def encodeVector_def RoundToDatatype_def)

lemma removeField_scan [simp]:
  assumes "nf_index f = None"
  shows "nf_config (removeField E n f) = nf_config f" and "nf_index (removeField E n f) = None"
    and "fieldDense (removeField E n f) = (fieldDense f)(n := None)"
    and "fieldMultiVector (removeField E n f) = (fieldMultiVector f)(n := None)"
  using assms by (auto simp: removeField_def Let_def fieldDense_def fieldMultiVector_def delete_conv' fun_eq_iff)

lemma putField_scan:
  assumes "nf_index f = None"
  shows "\<exists>f'. putField E n v vs f = (Inr (), f') \<and> nf_config f' = nf_config f \<and> nf_index f' = None
    \<and> fieldDense f' = (fieldDense f)(n := if MultiVector (nf_config f) then None else map_option (RoundToDatatype (Datatype (nf_config f))) v)
    \<and> fieldMultiVector f' = (fieldMultiVector f)(n := if MultiVector (nf_config f) then map_option (map (RoundToDatatype (Datatype (nf_config f)))) vs else None)"
proof -
  note r = removeField_scan [OF assms, of E n]
  show ?thesis
  proof (cases "MultiVector (nf_config f)")
    case True
    then show ?thesis
      using r by (cases vs) (auto simp: putField_def indexField_def Let_def fieldDense_def fieldMultiVector_def update_conv' fun_eq_iff decode_encode)
  next
    case False
    then show ?thesis
      using r by (cases v) (auto simp: putField_def indexField_def Let_def fieldDense_def fieldMultiVector_def update_conv' fun_eq_iff decode_encode)
  qed
qed

definition scanned :: "'i fields \<Rightarrow> bool" where
  "scanned fs \<longleftrightarrow> (\<forall>(name, f) \<in> set fs. nf_index f = None) \<and> distinct (map fst fs)"

definition fieldConfigs :: "'i fields \<Rightarrow> (string \<times> VectorField) list" where
  "fieldConfigs = map (\<lambda>(name, f). (name, nf_config f))"

text \<open>The named vectors of an ordinal, field by field, and the same for a record that is stored.\<close>

definition denseOf :: "u64 \<Rightarrow> 'i fields \<Rightarrow> (string \<times> f32 list) list" where
  "denseOf n fs = List.map_filter (\<lambda>(name, f). map_option (Pair name) (fieldDense f n)) fs"

definition multiOf :: "u64 \<Rightarrow> 'i fields \<Rightarrow> (string \<times> f32 list list) list" where
  "multiOf n fs = List.map_filter (\<lambda>(name, f). map_option (Pair name) (fieldMultiVector f n)) fs"

definition storedNamed :: "(string \<times> VectorField) list \<Rightarrow> CoreRecord \<Rightarrow> CoreRecord" where
  "storedNamed cs r = r\<lparr>
     cr_Vectors := List.map_filter (\<lambda>(name, c). if MultiVector c then None
        else map_option (\<lambda>v. (name, RoundToDatatype (Datatype c) v)) (map_of (cr_Vectors r) name)) cs,
     MultiVectors := List.map_filter (\<lambda>(name, c). if MultiVector c
        then map_option (\<lambda>vs. (name, map (RoundToDatatype (Datatype c)) vs)) (map_of (MultiVectors r) name) else None) cs\<rparr>"

lemma denseOf_simps [simp]:
  "denseOf n [] = []"
  "denseOf n ((name, f) # fs) = (case fieldDense f n of None \<Rightarrow> [] | Some v \<Rightarrow> [(name, v)]) @ denseOf n fs"
  by (simp_all add: denseOf_def map_filter_simps split: option.split)

lemma multiOf_simps [simp]:
  "multiOf n [] = []"
  "multiOf n ((name, f) # fs) = (case fieldMultiVector f n of None \<Rightarrow> [] | Some v \<Rightarrow> [(name, v)]) @ multiOf n fs"
  by (simp_all add: multiOf_def map_filter_simps split: option.split)

lemma scanned_Cons: "scanned ((name, f) # fs) \<longleftrightarrow> nf_index f = None \<and> name \<notin> fst ` set fs \<and> scanned fs"
  by (auto simp: scanned_def)

lemma fst_fieldConfigs [simp]: "map fst (fieldConfigs fs) = map fst fs"
  by (simp add: fieldConfigs_def case_prod_beta o_def)

lemma fieldConfigs_names: "fieldConfigs fs' = fieldConfigs fs \<Longrightarrow> map fst fs' = map fst fs"
  by (metis fst_fieldConfigs)

lemma putNamed_scan:
  assumes "scanned fs"
  shows "\<exists>fs'. putNamed E n r fs = (Inr (), fs') \<and> scanned fs' \<and> fieldConfigs fs' = fieldConfigs fs
    \<and> denseOf n fs' = cr_Vectors (storedNamed (fieldConfigs fs) r) \<and> multiOf n fs' = MultiVectors (storedNamed (fieldConfigs fs) r)
    \<and> (\<forall>m. m \<noteq> n \<longrightarrow> denseOf m fs' = denseOf m fs \<and> multiOf m fs' = multiOf m fs)"
  using assms
proof (induction fs)
  case Nil
  then show ?case by (simp add: storedNamed_def fieldConfigs_def map_filter_simps scanned_def)
next
  case (Cons a fs)
  obtain name f where a: "a = (name, f)" by (cases a)
  have sc: "nf_index f = None" "name \<notin> fst ` set fs" "scanned fs" using Cons.prems a by (auto simp: scanned_Cons)
  obtain f' where f': "putField E n (map_of (cr_Vectors r) name) (map_of (MultiVectors r) name) f = (Inr (), f')"
      "nf_config f' = nf_config f" "nf_index f' = None"
      "fieldDense f' = (fieldDense f)(n := if MultiVector (nf_config f) then None else map_option (RoundToDatatype (Datatype (nf_config f))) (map_of (cr_Vectors r) name))"
      "fieldMultiVector f' = (fieldMultiVector f)(n := if MultiVector (nf_config f) then map_option (map (RoundToDatatype (Datatype (nf_config f)))) (map_of (MultiVectors r) name) else None)"
    using putField_scan [OF sc(1)] by meson
  obtain fs' where fs': "putNamed E n r fs = (Inr (), fs')" "scanned fs'" "fieldConfigs fs' = fieldConfigs fs"
      "denseOf n fs' = cr_Vectors (storedNamed (fieldConfigs fs) r)" "multiOf n fs' = MultiVectors (storedNamed (fieldConfigs fs) r)"
      "\<forall>m. m \<noteq> n \<longrightarrow> denseOf m fs' = denseOf m fs \<and> multiOf m fs' = multiOf m fs"
    using Cons.IH [OF sc(3)] by blast
  have "fst ` set fs' = fst ` set fs" using fieldConfigs_names [OF fs'(3)] by (metis set_map)
  then have "scanned ((name, f') # fs')" using sc(2) f'(3) fs'(2) by (simp add: scanned_Cons)
  moreover have "denseOf n ((name, f') # fs') = cr_Vectors (storedNamed (fieldConfigs (a # fs)) r)"
    using f'(4) fs'(4) a by (auto simp: storedNamed_def fieldConfigs_def map_filter_simps split: option.split)
  moreover have "multiOf n ((name, f') # fs') = MultiVectors (storedNamed (fieldConfigs (a # fs)) r)"
    using f'(5) fs'(5) a by (auto simp: storedNamed_def fieldConfigs_def map_filter_simps split: option.split)
  moreover have "denseOf m ((name, f') # fs') = denseOf m (a # fs) \<and> multiOf m ((name, f') # fs') = multiOf m (a # fs)" if "m \<noteq> n" for m
    using that f'(4,5) fs'(6) a by simp
  moreover have "fieldConfigs ((name, f') # fs') = fieldConfigs (a # fs)" using fs'(3) f'(2) a by (simp add: fieldConfigs_def)
  moreover have "putNamed E n r (a # fs) = (Inr (), (name, f') # fs')" using f'(1) fs'(1) a by simp
  ultimately show ?case by blast
qed

lemma removeNamed_scan:
  assumes "scanned fs"
  shows "scanned (removeNamed E n fs)" and "fieldConfigs (removeNamed E n fs) = fieldConfigs fs"
    and "denseOf n (removeNamed E n fs) = []" and "multiOf n (removeNamed E n fs) = []"
    and "m \<noteq> n \<Longrightarrow> denseOf m (removeNamed E n fs) = denseOf m fs \<and> multiOf m (removeNamed E n fs) = multiOf m fs"
proof -
  have "map fst (removeNamed E n fs) = map fst fs" by (induction fs) (auto simp: removeNamed_def)
  moreover have "\<forall>(name, f) \<in> set (removeNamed E n fs). nf_index f = None" using assms by (auto simp: scanned_def removeNamed_def)
  ultimately show "scanned (removeNamed E n fs)" using assms by (simp add: scanned_def)
  show "fieldConfigs (removeNamed E n fs) = fieldConfigs fs"
    using assms by (auto simp: scanned_def removeNamed_def fieldConfigs_def)
  show "denseOf n (removeNamed E n fs) = []" "multiOf n (removeNamed E n fs) = []"
    using assms by (induction fs) (auto simp: removeNamed_def scanned_Cons)
  show "m \<noteq> n \<Longrightarrow> denseOf m (removeNamed E n fs) = denseOf m fs \<and> multiOf m (removeNamed E n fs) = multiOf m fs"
    using assms by (induction fs) (auto simp: removeNamed_def scanned_Cons)
qed

lemma attachNamed_scan:
  assumes "distinct (map fst fs)" and "fst ` set (cr_Vectors r) \<inter> fst ` set fs = {}" and "fst ` set (MultiVectors r) \<inter> fst ` set fs = {}"
  shows "attachNamed n fs r = r\<lparr>cr_Vectors := cr_Vectors r @ denseOf n fs, MultiVectors := MultiVectors r @ multiOf n fs\<rparr>"
  using assms
proof (induction fs arbitrary: r)
  case Nil
  then show ?case by (simp add: attachNamed_def)
next
  case (Cons a fs)
  obtain name f where a: "a = (name, f)" by (cases a)
  let ?r1 = "r\<lparr>cr_Vectors := cr_Vectors r @ (case fieldDense f n of None \<Rightarrow> [] | Some v \<Rightarrow> [(name, v)]),
               MultiVectors := MultiVectors r @ (case fieldMultiVector f n of None \<Rightarrow> [] | Some v \<Rightarrow> [(name, v)])\<rparr>"
  have fresh: "name \<notin> fst ` set (cr_Vectors r)" "name \<notin> fst ` set (MultiVectors r)" "name \<notin> fst ` set fs"
    using Cons.prems a by auto
  then have "attachNamed n (a # fs) r = attachNamed n fs ?r1"
    unfolding attachNamed_def a
    by (cases "map_of (nf_dense f) n"; cases "fieldMultiVector f n") (simp_all add: fieldDense_def update_append)
  also have "\<dots> = ?r1\<lparr>cr_Vectors := cr_Vectors ?r1 @ denseOf n fs, MultiVectors := MultiVectors ?r1 @ multiOf n fs\<rparr>"
    using Cons.prems a fresh by (intro Cons.IH) (auto simp: image_iff split: option.split)
  finally show ?case by (simp add: a)
qed

end
