(* ===== verification/Segment.thy ===== *)
theory Segment
  imports Named_Fields Meta_Parse
begin

text \<open>
  A segment, \<open>internal/segment/segment.go\<close>: records under ordinals, with a vector index, a metadata index, a lexical index
  and the named fields kept in step. A segment is mutable until it is sealed; a sealed one is built from a list of
  records, in memory or over mapped vectors. Copies of records and maps made by the code are equal values here.
\<close>

subsection \<open>State\<close>

record 'i Segment =
  sg_index :: 'i
  nextID :: u64
  sg_records :: "(u64 \<times> CoreRecord) list"
  sg_ordinals :: "(string \<times> u64) list"
  sg_metadata :: Index
  readOnly :: bool
  vectorAt :: "MappedSource option"
  sg_metric :: string
  lexical :: lexicalIndex
  named :: "'i fields"

definition zeroRecord :: CoreRecord where
  "zeroRecord = \<lparr>cr_ID = [], cr_Vector = [], SparseVector = None, Metadata = [], cr_Payload = [], Timestamp = 0, cr_Version = 0,
     Namespace = [], Text = [], cr_Vectors = [], MultiVectors = []\<rparr>"

definition recordAt :: "'i Segment \<Rightarrow> u64 \<Rightarrow> CoreRecord" where
  "recordAt s ordinal = (case map_of (sg_records s) ordinal of None \<Rightarrow> zeroRecord | Some r \<Rightarrow> r)"

definition recordKey :: "string \<Rightarrow> string \<Rightarrow> string" where
  "recordKey namespace uid = namespace @ [CHR 0x00] @ uid"

abbreviation keyOf :: "CoreRecord \<Rightarrow> string" where
  "keyOf r \<equiv> recordKey (Namespace r) (cr_ID r)"

subsection \<open>Construction\<close>

text \<open>\<open>initNamed\<close>: the declared fields, then the named vectors of the records already there.\<close>

fun moveNamed :: "'i seg_env \<Rightarrow> u64 list \<Rightarrow> 'i Segment \<Rightarrow> 'i Segment result" where
  "moveNamed E [] s = Inr s"
| "moveNamed E (ordinal # rest) s =
     (case putNamed E ordinal (recordAt s ordinal) (named s) of
        (Inl e, _) \<Rightarrow> Inl e
      | (Inr _, fs) \<Rightarrow>
          moveNamed E rest (s\<lparr>named := fs,
            sg_records := AList.update ordinal ((recordAt s ordinal)\<lparr>cr_Vectors := [], MultiVectors := []\<rparr>) (sg_records s)\<rparr>))"

definition declareFields :: "'i seg_env \<Rightarrow> CollectionConfig \<Rightarrow> 'i fields result" where
  "declareFields E config =
     mapR (\<lambda>name. case VectorFieldOf config name of
         None \<Rightarrow> Inl GoPanic
       | Some declared \<Rightarrow> and_then (newNamedField E declared) (\<lambda>f. Inr (name, f)))
       (VectorFieldNames config)"

definition initNamed :: "'i seg_env \<Rightarrow> CollectionConfig \<Rightarrow> 'i Segment \<Rightarrow> 'i Segment result" where
  "initNamed E config s =
     (if Vectors config = [] then Inr s
      else and_then (declareFields E config) (\<lambda>fs. moveNamed E (map fst (sg_records s)) (s\<lparr>named := fs\<rparr>)))"

definition UsesPQ :: "CollectionConfig \<Rightarrow> nat \<Rightarrow> bool" where
  "UsesPQ config n \<longleftrightarrow> ic_Type (cc_Index config) = ''flat'' \<and> Quantization (cc_Index config) = ''pq'' \<and> n \<ge> 1024"

definition emptySegment :: "'i \<Rightarrow> string \<Rightarrow> 'i Segment" where
  "emptySegment i metric = \<lparr>sg_index = i, nextID = 1, sg_records = [], sg_ordinals = [], sg_metadata = NewIndex, readOnly = False,
     vectorAt = None, sg_metric = metric, lexical = newLexicalIndex, named = []\<rparr>"

definition SegNew :: "'i seg_env \<Rightarrow> CollectionConfig \<Rightarrow> 'i Segment result" where
  "SegNew E config =
     (let ic = cc_Index config in
      and_then
        (if ic_Type ic = ''flat'' \<and> Quantization ic = ''binary'' then newBinary E config
         else if ic_Type ic = ''flat'' \<or> ic_Type ic = ''diskann'' then newFlat E (Dimension config) (Metric config)
         else if ic_Type ic = ''hnsw'' then newHNSW E (Dimension config) (Metric config) ic
         else Inl (ErrInvalidArgument ''unsupported index type''))
        (\<lambda>i. initNamed E config (emptySegment i (Metric config))))"

text \<open>The loop that fills a sealed segment built over an index that already has its vectors.\<close>

definition placeRecord :: "'i seg_env \<Rightarrow> bool \<Rightarrow> bool \<Rightarrow> nat \<times> CoreRecord \<Rightarrow> 'i Segment \<Rightarrow> 'i Segment" where
  "placeRecord E loadedMetadata dropVector pr s =
     (let ordinal = (of_nat (Suc (fst pr)) :: u64); r = (if dropVector then (snd pr)\<lparr>cr_Vector := []\<rparr> else snd pr) in
      s\<lparr>sg_records := AList.update ordinal r (sg_records s), lexical := lexAdd (lexLib E) ordinal r (lexical s),
        sg_ordinals := AList.update (keyOf r) ordinal (sg_ordinals s),
        sg_metadata := if loadedMetadata then sg_metadata s else Upsert (textLib E) (sg_metadata s) ordinal (Metadata r)\<rparr>)"

definition sealedSegment ::
    "'i seg_env \<Rightarrow> CollectionConfig \<Rightarrow> 'i \<Rightarrow> MappedSource option \<Rightarrow> CoreRecord list \<Rightarrow> Index option \<Rightarrow> 'i Segment" where
  "sealedSegment E config i source rs metadataIndex =
     fold (placeRecord E (metadataIndex \<noteq> None) (source \<noteq> None)) (enumerate 0 rs)
       ((emptySegment i (Metric config))\<lparr>nextID := of_nat (length rs + 1), readOnly := True, vectorAt := source,
          sg_metadata := (case metadataIndex of None \<Rightarrow> NewIndex | Some m \<Rightarrow> m)\<rparr>)"

definition ordinalsFor :: "CoreRecord list \<Rightarrow> u64 list" where
  "ordinalsFor rs = map (\<lambda>p. of_nat (Suc p)) [0..<length rs]"

definition NewMappedWithPQ ::
    "'i seg_env \<Rightarrow> CollectionConfig \<Rightarrow> CoreRecord list \<Rightarrow> MappedSource \<Rightarrow> Index option \<Rightarrow> bytes option \<Rightarrow> 'i Segment result" where
  "NewMappedWithPQ E config rs source metadataIndex pqData =
     (if ms_dimension source \<noteq> Dimension config then Inl (ErrInvalidArgument ''mapped source dimension mismatch'')
      else
        and_then
          (if Quantization (cc_Index config) = ''binary'' then newBinaryMapped E config source (ordinalsFor rs)
           else if UsesPQ config (length rs) then newPQ E config rs (Some source) pqData
           else newMapped E source (Metric config) (ordinalsFor rs))
          (\<lambda>i. initNamed E config (sealedSegment E config i (Some source) rs metadataIndex)))"

definition NewHNSWFromGraph ::
    "'i seg_env \<Rightarrow> CollectionConfig \<Rightarrow> CoreRecord list \<Rightarrow> bytes \<Rightarrow> Index option \<Rightarrow> 'i Segment result" where
  "NewHNSWFromGraph E config rs graph metadataIndex =
     and_then (loadGraph E config (ordinalsFor rs) (map cr_Vector rs) graph)
       (\<lambda>i. initNamed E config (sealedSegment E config i None rs metadataIndex))"

definition DiskANNTag :: "CoreRecord list \<Rightarrow> u64" where
  "DiskANNTag rs = fold (\<lambda>r h. fnv_write [0xFF] (fnv_write (bytes_of_string (keyOf r)) h)) rs fnv_offset"

text \<open>Sealing over a DiskANN file does not declare the named fields.\<close>

definition NewDiskANN ::
    "'i seg_env \<Rightarrow> CollectionConfig \<Rightarrow> CoreRecord list \<Rightarrow> string \<Rightarrow> Index option \<Rightarrow> 'i Segment result" where
  "NewDiskANN E config rs path metadataIndex =
     and_then (openDiskANN E path (Metric config) (Dimension config) (length rs) (DiskANNTag rs) (EFSearch (cc_Index config)))
       (\<lambda>(i, src). Inr (sealedSegment E config i (Some src) rs metadataIndex))"

subsection \<open>Operations\<close>

text \<open>The ordinal counter moves before the index can refuse the vector, and a failing named field comes after the vector index was changed.\<close>

definition SegUpsert :: "'i seg_env \<Rightarrow> 'i Segment \<Rightarrow> CoreRecord \<Rightarrow> unit result \<times> 'i Segment" where
  "SegUpsert E s r =
     (if readOnly s then (Inl (ErrMsg ''immutable segment cannot be mutated''), s)
      else if cr_ID r = [] then (Inl (ErrInvalidArgument ''record id is required''), s)
      else
        let k = keyOf r;
            (ordinal, s1) = (case map_of (sg_ordinals s) k of
                               Some n \<Rightarrow> (n, s)
                             | None \<Rightarrow> (nextID s, s\<lparr>nextID := nextID s + 1\<rparr>)) in
        case ixUpsert (indexOps E) (sg_index s1) ordinal (cr_Vector r) of
          Inl e \<Rightarrow> (Inl e, s1)
        | Inr i \<Rightarrow>
            let s2 = s1\<lparr>sg_index := i,
                        lexical := (case map_of (sg_records s1) ordinal of
                                      None \<Rightarrow> lexical s1
                                    | Some previous \<Rightarrow> lexRemove (lexLib E) ordinal previous (lexical s1))\<rparr> in
            case putNamed E ordinal r (named s2) of
              (Inl e, fs) \<Rightarrow> (Inl e, s2\<lparr>named := fs\<rparr>)
            | (Inr _, fs) \<Rightarrow>
                (Inr (), s2\<lparr>named := fs, sg_ordinals := AList.update k ordinal (sg_ordinals s2),
                   sg_records := AList.update ordinal (r\<lparr>cr_Vectors := [], MultiVectors := []\<rparr>) (sg_records s2),
                   lexical := lexAdd (lexLib E) ordinal r (lexical s2),
                   sg_metadata := Upsert (textLib E) (sg_metadata s2) ordinal (Metadata r)\<rparr>))"

definition vectorOf :: "'i Segment \<Rightarrow> u64 \<Rightarrow> CoreRecord \<Rightarrow> f32 list result" where
  "vectorOf s ordinal r =
     (if cr_Vector r \<noteq> [] then Inr (cr_Vector r)
      else case vectorAt s of None \<Rightarrow> Inr [] | Some source \<Rightarrow> VectorCopy source (unat (ordinal - 1)))"

definition SegGet :: "'i Segment \<Rightarrow> string \<Rightarrow> string \<Rightarrow> CoreRecord result" where
  "SegGet s namespace uid =
     (case map_of (sg_ordinals s) (recordKey namespace uid) of
        None \<Rightarrow> Inl ErrNotFound
      | Some ordinal \<Rightarrow>
          and_then (vectorOf s ordinal (recordAt s ordinal)) (\<lambda>v.
          Inr (attachNamed ordinal (named s) ((recordAt s ordinal)\<lparr>cr_Vector := v\<rparr>))))"

definition SegDelete :: "'i seg_env \<Rightarrow> 'i Segment \<Rightarrow> string \<Rightarrow> string \<Rightarrow> unit result \<times> 'i Segment" where
  "SegDelete E s namespace uid =
     (if readOnly s then (Inl (ErrMsg ''immutable segment cannot be mutated''), s)
      else
        let k = recordKey namespace uid in
        case map_of (sg_ordinals s) k of
          None \<Rightarrow> (Inl ErrNotFound, s)
        | Some ordinal \<Rightarrow>
            (case ixDelete (indexOps E) (sg_index s) ordinal of
               Inl e \<Rightarrow> (Inl e, s)
             | Inr i \<Rightarrow>
                 (Inr (), s\<lparr>sg_index := i, lexical := lexRemove (lexLib E) ordinal (recordAt s ordinal) (lexical s),
                    named := removeNamed E ordinal (named s), sg_ordinals := AList.delete k (sg_ordinals s),
                    sg_records := AList.delete ordinal (sg_records s),
                    sg_metadata := Delete (textLib E) (sg_metadata s) ordinal\<rparr>)))"

text \<open>\<open>NewImmutableWithPQ\<close> fills a mutable segment and seals it.\<close>

definition fillSegment :: "'i seg_env \<Rightarrow> CoreRecord list \<Rightarrow> 'i Segment \<Rightarrow> 'i Segment result" where
  "fillSegment E = foldR (\<lambda>r s. case SegUpsert E s r of (Inl e, _) \<Rightarrow> Inl e | (Inr _, s') \<Rightarrow> Inr s')"

definition NewImmutableWithPQ ::
    "'i seg_env \<Rightarrow> CollectionConfig \<Rightarrow> CoreRecord list \<Rightarrow> Index option \<Rightarrow> bytes option \<Rightarrow> 'i Segment result" where
  "NewImmutableWithPQ E config rs metadataIndex pqData =
     and_then (SegNew E config) (\<lambda>s0.
     and_then (fillSegment E rs s0) (\<lambda>s.
     and_then
       (if UsesPQ config (length rs) \<and> length (sg_records s) = length rs then newPQ E config rs None pqData else Inr (sg_index s))
       (\<lambda>i. Inr (s\<lparr>sg_index := i, sg_metadata := (case metadataIndex of None \<Rightarrow> sg_metadata s | Some m \<Rightarrow> m), readOnly := True\<rparr>))))"

subsection \<open>Search\<close>

definition evaluateFilter :: "'i seg_env \<Rightarrow> 'i Segment \<Rightarrow> Expr option \<Rightarrow> Set option result" where
  "evaluateFilter E s flt =
     (case flt of
        None \<Rightarrow> Inr None
      | Some e \<Rightarrow> and_then (Evaluate (textLib E) (geoOf E) (sg_metadata s) (Some e)) (\<lambda>set. Inr (Some set)))"

text \<open>The closure \<open>allow\<close> every search builds.\<close>

definition allowOrdinal :: "'i Segment \<Rightarrow> Set option \<Rightarrow> string \<Rightarrow> string list \<Rightarrow> u64 \<Rightarrow> bool" where
  "allowOrdinal s allowed namespace excluded ordinal \<longleftrightarrow>
     (allowed \<noteq> None \<longrightarrow> SetContains allowed ordinal)
     \<and> (case map_of (sg_records s) ordinal of
          None \<Rightarrow> False
        | Some r \<Rightarrow> Namespace r = namespace \<and> keyOf r \<notin> set excluded)"

definition toResult :: "CoreRecord \<Rightarrow> f32 \<Rightarrow> SearchResult" where
  "toResult r score = \<lparr>res_ID = cr_ID r, res_Score = score, res_Metadata = Metadata r, res_Payload = cr_Payload r,
     res_Namespace = Namespace r, res_Text = []\<rparr>"

definition SegSearch ::
    "'i seg_env \<Rightarrow> 'i Segment \<Rightarrow> string \<Rightarrow> f32 list \<Rightarrow> int \<Rightarrow> Expr option \<Rightarrow> string list \<Rightarrow> int \<Rightarrow> SearchResult list result" where
  "SegSearch E s namespace query k flt excluded efSearch =
     and_then (evaluateFilter E s flt) (\<lambda>allowed.
     and_then (ixSearch (indexOps E) (sg_index s) query k
                 \<lparr>so_EFSearch = efSearch, so_AllowedCount = (if allowed = None then -1 else SetLen allowed)\<rparr>
                 (allowOrdinal s allowed namespace excluded)) (\<lambda>candidates.
     if k < 0 then Inl GoPanic
     else
       let results = map (\<lambda>c. toResult (recordAt s (cand_ID c)) (cand_Score c)) candidates in
       Inr (if k > 0 then take (nat k) results else results)))"

definition hybridCandidateLimit :: "int \<Rightarrow> int" where
  "hybridCandidateLimit topK = max (wrap64 (topK * 4)) 100"

definition sparseNormOf :: "lex_lib \<Rightarrow> (string \<times> f32) list \<Rightarrow> f64" where
  "sparseNormOf F v = sqrt64 F (sumSquares F (map snd v))"

definition sparseCosine :: "lex_lib \<Rightarrow> (string \<times> f32) list \<Rightarrow> f64 \<Rightarrow> (string \<times> f32) list \<Rightarrow> f32" where
  "sparseCosine F query queryNorm candidate =
     (if f64_zero queryNorm \<or> candidate = [] then 0
      else
        let squared = sumSquares F (map snd candidate);
            product = fold (\<lambda>(t, v) acc. addProduct F acc v (case map_of query t of None \<Rightarrow> 0 | Some w \<Rightarrow> w)) candidate 0 in
        if f64_zero squared then 0 else cosineOf F product queryNorm (sqrt64 F squared))"

text \<open>Reciprocal-rank fusion adds one term per list a candidate is in.\<close>

definition addRanks :: "hybrid_lib \<Rightarrow> u64 list \<Rightarrow> (u64 \<times> f32) list \<Rightarrow> (u64 \<times> f32) list" where
  "addRanks L ids scores =
     fold (\<lambda>(rank, ordinal) sc. AList.update ordinal (rrfAdd L (case map_of sc ordinal of None \<Rightarrow> 0 | Some x \<Rightarrow> x) rank) sc)
       (enumerate 0 ids) scores"

definition lexicalScore :: "'i seg_env \<Rightarrow> 'i Segment \<Rightarrow> HybridQuery \<Rightarrow> u64 \<Rightarrow> f32" where
  "lexicalScore E s q ordinal =
     (let F = lexLib E; L = hybridLib E;
          signals = (if Sparse q \<noteq> None then 1 else 0) + (if hq_Text q \<noteq> [] then 1 else 0 :: nat);
          raw = (Dense q = None \<and> signals = 1);
          sparsePart = (\<lambda>lex. case Sparse q of
             None \<Rightarrow> lex
           | Some sv \<Rightarrow>
               let cosine = sparseCosine F sv (sparseNormOf F sv) (case SparseVector (recordAt s ordinal) of None \<Rightarrow> [] | Some v \<Rightarrow> v) in
               if raw then cosine else addShifted L lex cosine);
          textPart = (\<lambda>lex. if hq_Text q = [] then lex
             else let bm25 = bm25Scorer F (lexical s) (hq_Text q) ordinal in
                  if raw then bm25 else addNormalizedBM25 L lex bm25);
          lex = textPart (sparsePart 0) in
      if raw then lex else divideBy L lex signals)"

definition weightedScore ::
    "'i seg_env \<Rightarrow> 'i Segment \<Rightarrow> HybridQuery \<Rightarrow> (u64 \<times> f32) list \<Rightarrow> u64 \<Rightarrow> f32 result" where
  "weightedScore E s q denseScores ordinal =
     (let lex = lexicalScore E s q ordinal in
      case Dense q of
        None \<Rightarrow> Inr lex
      | Some dv \<Rightarrow>
          and_then
            (case map_of denseScores ordinal of
               Some score \<Rightarrow> Inr score
             | None \<Rightarrow> and_then (vectorOf s ordinal (recordAt s ordinal)) (\<lambda>v. distanceOf E (sg_metric s) dv v))
            (\<lambda>denseScore. Inr (mixDense (hybridLib E) (sg_metric s) (hq_Alpha q) denseScore lex)))"

definition SearchHybrid ::
    "'i seg_env \<Rightarrow> 'i Segment \<Rightarrow> string \<Rightarrow> HybridQuery \<Rightarrow> Expr option \<Rightarrow> string list \<Rightarrow> SearchResult list result" where
  "SearchHybrid E s namespace q flt excluded =
     and_then (evaluateFilter E s flt) (\<lambda>allowed.
     let allow = allowOrdinal s allowed namespace excluded; limit = hybridCandidateLimit (hq_TopK q) in
     and_then (case Dense q of
         None \<Rightarrow> Inr []
       | Some v \<Rightarrow> ixSearch (indexOps E) (sg_index s) v limit \<lparr>so_EFSearch = 0, so_AllowedCount = -1\<rparr> allow) (\<lambda>denseList.
     let sparseList = (case Sparse q of None \<Rightarrow> [] | Some v \<Rightarrow> searchSparse (lexLib E) (lexical s) v allow limit);
         textList = (if hq_Text q = [] then [] else searchText (lexLib E) (lexical s) (hq_Text q) allow limit);
         lists = [map cand_ID denseList, map so_ordinal sparseList, map so_ordinal textList] in
     and_then
       (if Fusion q = ''rrf'' then Inr (fold (addRanks (hybridLib E)) lists [])
        else
          mapR (\<lambda>ordinal. and_then (weightedScore E s q (map (\<lambda>c. (cand_ID c, cand_Score c)) denseList) ordinal)
                  (\<lambda>score. Inr (ordinal, score)))
            (remdups (concat lists)))
       (\<lambda>scores.
         let results = sortBy betterResult (map (\<lambda>(ordinal, score). toResult (recordAt s ordinal) score) scores) in
         if int (length results) > hq_TopK q
         then (if hq_TopK q < 0 then Inl GoPanic else Inr (take (nat (hq_TopK q)) results)) else Inr results)))"

definition SearchNamed ::
    "'i seg_env \<Rightarrow> 'i Segment \<Rightarrow> string \<Rightarrow> NamedQuery \<Rightarrow> Expr option \<Rightarrow> string list \<Rightarrow> SearchResult list result" where
  "SearchNamed E s namespace q flt excluded =
     (case map_of (named s) (nq_Field q) of
        None \<Rightarrow> Inl (ErrInvalidArgument ''unknown vector field'')
      | Some field \<Rightarrow>
          and_then (evaluateFilter E s flt) (\<lambda>allowed.
          let (probe, limit) = (case nq_MultiVector q of
                None \<Rightarrow> ((case nq_Vector q of None \<Rightarrow> [] | Some v \<Rightarrow> v), nq_TopK q)
              | Some vs \<Rightarrow> (meanPool E vs, CandidateCount q)) in
          and_then (fieldCandidates E field probe limit (nq_EFSearch q) (allowOrdinal s allowed namespace excluded)) (\<lambda>candidates.
          and_then (case nq_MultiVector q of
              None \<Rightarrow> Inr candidates
            | Some vs \<Rightarrow> mapR (\<lambda>c. and_then (fieldMaxSim E field (cand_ID c) vs) (\<lambda>score. Inr (c\<lparr>cand_Score := score\<rparr>))) candidates)
            (\<lambda>rescored.
              let results = sortBy betterResult (map (\<lambda>c. toResult (recordAt s (cand_ID c)) (cand_Score c)) rescored) in
              if int (length results) > nq_TopK q
              then (if nq_TopK q < 0 then Inl GoPanic else Inr (take (nat (nq_TopK q)) results)) else Inr results))))"

definition SegMultiVector :: "'i Segment \<Rightarrow> string \<Rightarrow> string \<Rightarrow> string \<Rightarrow> f32 list list option" where
  "SegMultiVector s namespace uid fieldName =
     (case (map_of (sg_ordinals s) (recordKey namespace uid), map_of (named s) fieldName) of
        (Some ordinal, Some field) \<Rightarrow> fieldMultiVector field ordinal
      | _ \<Rightarrow> None)"

subsection \<open>Reading all\<close>

definition recordLess :: "CoreRecord \<Rightarrow> CoreRecord \<Rightarrow> bool" where
  "recordLess a b = (if Namespace a = Namespace b then cr_ID a < cr_ID b else Namespace a < Namespace b)"

definition SegRecords :: "'i Segment \<Rightarrow> CoreRecord list" where
  "SegRecords s =
     sortBy recordLess
       (map (\<lambda>(_, r).
           let ordinal = (case map_of (sg_ordinals s) (keyOf r) of None \<Rightarrow> 0 | Some n \<Rightarrow> n);
               v = (case vectorOf s ordinal r of Inl _ \<Rightarrow> [] | Inr v \<Rightarrow> v) in
           attachNamed ordinal (named s) (r\<lparr>cr_Vector := v\<rparr>))
         (sg_records s))"

definition SegLen :: "'i seg_env \<Rightarrow> 'i Segment \<Rightarrow> int" where
  "SegLen E s = ixLen (indexOps E) (sg_index s)"

definition SegHas :: "'i Segment \<Rightarrow> string \<Rightarrow> string \<Rightarrow> bool" where
  "SegHas s namespace uid \<longleftrightarrow> map_of (sg_ordinals s) (recordKey namespace uid) \<noteq> None"

definition SegKeys :: "'i Segment \<Rightarrow> string list" where
  "SegKeys s = map fst (sg_ordinals s)"

definition SegClose :: "'i seg_env \<Rightarrow> 'i Segment \<Rightarrow> 'i Segment" where
  "SegClose E s = (case vectorAt s of
     None \<Rightarrow> s
   | Some source \<Rightarrow> s\<lparr>sg_index := closeIndex E (sg_index s), vectorAt := Some (MappedClose source)\<rparr>)"

end
