(* ===== verification/Segment_Props.thy ===== *)
theory Segment_Props
  imports Segment
begin

text \<open>
  A segment is a table of records: the invariant that ties its maps and indexes together, its preservation by every
  operation, the effect of each operation on the table, and the exactness of search over it. The proofs rely on the vector
  index only through the laws of the locale \<open>exact_index\<close>.
\<close>

subsection \<open>Invariant and view\<close>

definition record_ok :: "'i seg_env \<Rightarrow> CoreRecord \<Rightarrow> bool" where
  "record_ok E r \<longleftrightarrow> cr_ID r \<noteq> [] \<and> good_doc (lexLib E) r \<and> distinct (map fst (Metadata r))"

definition keys_agree :: "'i Segment \<Rightarrow> bool" where
  "keys_agree s \<longleftrightarrow> distinct (map fst (sg_records s)) \<and> distinct (map fst (sg_ordinals s))
     \<and> (\<forall>k n. map_of (sg_ordinals s) k = Some n \<longleftrightarrow> (\<exists>r. map_of (sg_records s) n = Some r \<and> keyOf r = k))"

definition records_good :: "'i seg_env \<Rightarrow> 'i Segment \<Rightarrow> bool" where
  "records_good E s \<longleftrightarrow> nextID s \<noteq> 0 \<and> (\<forall>n r. map_of (sg_records s) n = Some r \<longrightarrow>
     record_ok E r \<and> n \<noteq> 0 \<and> n < nextID s \<and> cr_Vectors r = [] \<and> MultiVectors r = [])"

definition vectors_agree :: "('i \<Rightarrow> u64 \<Rightarrow> f32 list option) \<Rightarrow> 'i Segment \<Rightarrow> bool" where
  "vectors_agree vec s \<longleftrightarrow> dom (vec (sg_index s)) = dom (map_of (sg_records s))
     \<and> (\<forall>n r. map_of (sg_records s) n = Some r \<longrightarrow> (\<exists>v. vec (sg_index s) n = Some v \<and> vectorOf s n r = Inr v))"

definition indexes_agree :: "'i seg_env \<Rightarrow> 'i Segment \<Rightarrow> bool" where
  "indexes_agree E s \<longleftrightarrow>
     index_ok (textLib E) (sg_metadata s) (\<lambda>n. map_option (\<lambda>r. doc_of (textLib E) (Metadata r)) (map_of (sg_records s) n))
     \<and> lex_ok (lexLib E) (lexical s) (map_of (sg_records s))"

definition seg_inv :: "'i seg_env \<Rightarrow> ('i \<Rightarrow> bool) \<Rightarrow> ('i \<Rightarrow> u64 \<Rightarrow> f32 list option) \<Rightarrow> 'i Segment \<Rightarrow> bool" where
  "seg_inv E iv vec s \<longleftrightarrow> iv (sg_index s) \<and> keys_agree s \<and> records_good E s \<and> vectors_agree vec s \<and> indexes_agree E s \<and> scanned (named s)"

definition fullRecord :: "'i Segment \<Rightarrow> u64 \<Rightarrow> CoreRecord" where
  "fullRecord s n = attachNamed n (named s)
     ((recordAt s n)\<lparr>cr_Vector := (case vectorOf s n (recordAt s n) of Inl _ \<Rightarrow> [] | Inr v \<Rightarrow> v)\<rparr>)"

definition segView :: "'i Segment \<Rightarrow> string \<Rightarrow> CoreRecord option" where
  "segView s k = map_option (fullRecord s) (map_of (sg_ordinals s) k)"

lemma attachNamed_empty:
  assumes "scanned fs" and "cr_Vectors r = []" and "MultiVectors r = []"
  shows "attachNamed n fs r = r\<lparr>cr_Vectors := denseOf n fs, MultiVectors := multiOf n fs\<rparr>"
  using attachNamed_scan [of fs r n] assms by (simp add: scanned_def)

lemma fullRecord_named:
  assumes "scanned (named s)" and "records_good E s" and "map_of (sg_records s) n = Some r"
  shows "fullRecord s n = r\<lparr>cr_Vector := (case vectorOf s n r of Inl _ \<Rightarrow> [] | Inr v \<Rightarrow> v),
    cr_Vectors := denseOf n (named s), MultiVectors := multiOf n (named s)\<rparr>"
  using assms attachNamed_empty [OF assms(1)] by (auto simp: fullRecord_def recordAt_def records_good_def)

lemma fullRecord_key: "scanned (named s) \<Longrightarrow> records_good E s \<Longrightarrow> map_of (sg_records s) n = Some r \<Longrightarrow> keyOf (fullRecord s n) = keyOf r"
  by (simp add: fullRecord_named)

lemma SegGet_view:
  assumes "seg_inv E iv vec s"
  shows "SegGet s namespace uid = (case segView s (recordKey namespace uid) of None \<Rightarrow> Inl ErrNotFound | Some r \<Rightarrow> Inr r)"
proof (cases "map_of (sg_ordinals s) (recordKey namespace uid)")
  case None
  then show ?thesis by (simp add: SegGet_def segView_def)
next
  case (Some n)
  then obtain r where "map_of (sg_records s) n = Some r"
    using assms by (auto simp: seg_inv_def keys_agree_def)
  then obtain v where "vectorOf s n (recordAt s n) = Inr v"
    using assms by (fastforce simp: seg_inv_def vectors_agree_def recordAt_def)
  then show ?thesis using Some by (simp add: SegGet_def segView_def fullRecord_def)
qed

lemma SegHas_view: "SegHas s namespace uid \<longleftrightarrow> segView s (recordKey namespace uid) \<noteq> None"
  by (simp add: SegHas_def segView_def)

lemma SegKeys_view: "set (SegKeys s) = dom (segView s)"
  using dom_map_of_conv_image_fst [of "sg_ordinals s"] by (auto simp: SegKeys_def segView_def dom_def)

text \<open>The table is indexed by the keys of its records.\<close>

lemma segView_key:
  assumes "seg_inv E iv vec s" and "segView s k = Some r"
  shows "keyOf r = k"
proof -
  obtain n where n: "map_of (sg_ordinals s) k = Some n" "r = fullRecord s n" using assms(2) by (auto simp: segView_def)
  then obtain r' where "map_of (sg_records s) n = Some r'" "keyOf r' = k"
    using assms(1) by (auto simp: seg_inv_def keys_agree_def)
  then show ?thesis using n(2) assms(1) fullRecord_key by (auto simp: seg_inv_def)
qed

lemma lexAdd_named [simp]: "lexAdd F n (r\<lparr>cr_Vectors := x, MultiVectors := y\<rparr>) l = lexAdd F n r l"
  by (simp add: lexAdd_def addText_def addSparse_def)

lemma good_doc_named [simp]: "good_doc F (r\<lparr>cr_Vectors := x, MultiVectors := y\<rparr>) = good_doc F r"
  by (simp add: good_doc_def docTokens_def)

lemma map_of_update_other: "map_of (AList.update k v al) = (map_of al)(k \<mapsto> v)" "map_of (AList.delete k al) = (map_of al)(k := None)"
  by (simp_all add: update_conv' delete_conv')

subsection \<open>Operations on the table\<close>

text \<open>The parts of an upsert that succeeds, for the ordinal it uses.\<close>

definition upserted :: "'i seg_env \<Rightarrow> 'i Segment \<Rightarrow> CoreRecord \<Rightarrow> u64 \<Rightarrow> u64 \<Rightarrow> 'i \<Rightarrow> 'i fields \<Rightarrow> 'i Segment" where
  "upserted E s r n nx i fs = s\<lparr>sg_index := i, nextID := nx, named := fs,
     sg_ordinals := AList.update (keyOf r) n (sg_ordinals s),
     sg_records := AList.update n (r\<lparr>cr_Vectors := [], MultiVectors := []\<rparr>) (sg_records s),
     lexical := lexAdd (lexLib E) n r (case map_of (sg_records s) n of None \<Rightarrow> lexical s | Some p \<Rightarrow> lexRemove (lexLib E) n p (lexical s)),
     sg_metadata := Upsert (textLib E) (sg_metadata s) n (Metadata r)\<rparr>"

lemma SegUpsert_upserted:
  assumes "\<not> readOnly s" and "cr_ID r \<noteq> []"
    and "n = (case map_of (sg_ordinals s) (keyOf r) of None \<Rightarrow> nextID s | Some m \<Rightarrow> m)"
    and "nx = (case map_of (sg_ordinals s) (keyOf r) of None \<Rightarrow> nextID s + 1 | Some m \<Rightarrow> nextID s)"
    and "ixUpsert (indexOps E) (sg_index s) n (cr_Vector r) = Inr i" and "putNamed E n r (named s) = (Inr (), fs)"
  shows "SegUpsert E s r = (Inr (), upserted E s r n nx i fs)"
  using assms by (cases "map_of (sg_ordinals s) (keyOf r)") (auto simp: SegUpsert_def Let_def upserted_def split: option.split)

lemma upserted_simps [simp]:
  "sg_index (upserted E s r n nx i fs) = i" "nextID (upserted E s r n nx i fs) = nx" "named (upserted E s r n nx i fs) = fs"
  "sg_ordinals (upserted E s r n nx i fs) = AList.update (keyOf r) n (sg_ordinals s)"
  "sg_records (upserted E s r n nx i fs) = AList.update n (r\<lparr>cr_Vectors := [], MultiVectors := []\<rparr>) (sg_records s)"
  "sg_metadata (upserted E s r n nx i fs) = Upsert (textLib E) (sg_metadata s) n (Metadata r)"
  "readOnly (upserted E s r n nx i fs) = readOnly s" "vectorAt (upserted E s r n nx i fs) = vectorAt s"
  "sg_metric (upserted E s r n nx i fs) = sg_metric s"
  "lexical (upserted E s r n nx i fs) =
     lexAdd (lexLib E) n r (case map_of (sg_records s) n of None \<Rightarrow> lexical s | Some p \<Rightarrow> lexRemove (lexLib E) n p (lexical s))"
  by (simp_all add: upserted_def)

text \<open>The ordinal of an upsert: that of the key, or a fresh one.\<close>

definition fits :: "'i Segment \<Rightarrow> CoreRecord \<Rightarrow> u64 \<Rightarrow> bool" where
  "fits s r n \<longleftrightarrow> (case map_of (sg_ordinals s) (keyOf r) of None \<Rightarrow> map_of (sg_records s) n = None | Some m \<Rightarrow> n = m)"

lemma keys_agree_upsert:
  assumes "keys_agree s" and "fits s r n"
  shows "keys_agree (upserted E s r n nx i fs)"
proof -
  have agree: "\<And>k m. map_of (sg_ordinals s) k = Some m \<longleftrightarrow> (\<exists>r. map_of (sg_records s) m = Some r \<and> keyOf r = k)"
    using assms(1) by (simp add: keys_agree_def)
  have owner: "keyOf p = keyOf r" if "map_of (sg_records s) n = Some p" for p
    using assms(2) that agree [of "keyOf p" n] agree [of "keyOf r" n] by (auto simp: fits_def split: option.splits)
  have own: "m = n" if "map_of (sg_ordinals s) (keyOf r) = Some m" for m
    using assms(2) that by (simp add: fits_def)
  have "((map_of (sg_ordinals s))(keyOf r \<mapsto> n)) k = Some m
      \<longleftrightarrow> (\<exists>q. ((map_of (sg_records s))(n \<mapsto> r\<lparr>cr_Vectors := [], MultiVectors := []\<rparr>)) m = Some q \<and> keyOf q = k)" for k m
  proof (cases "m = n")
    case True
    have "map_of (sg_ordinals s) k \<noteq> Some n" if "k \<noteq> keyOf r"
      using agree [of k n] owner that by auto
    then show ?thesis using True by auto
  next
    case False
    have "map_of (sg_records s) m \<noteq> Some q" if "keyOf q = keyOf r" for q
      using agree [of "keyOf r" m] own [of m] that False by auto
    then show ?thesis using False agree [of k m] by auto
  qed
  then show ?thesis
    using assms(1) by (simp add: keys_agree_def map_of_update_other distinct_update del: fun_upd_apply)
qed

lemma indexes_agree_upsert:
  assumes "indexes_agree E s" and "record_ok E r"
  shows "indexes_agree E (upserted E s r n nx i fs)"
proof -
  let ?docs = "map_of (sg_records s)" and ?r = "r\<lparr>cr_Vectors := [], MultiVectors := []\<rparr>"
  let ?rows = "\<lambda>m. map_option (\<lambda>r. doc_of (textLib E) (Metadata r)) (?docs m)"
  have "index_ok (textLib E) (Upsert (textLib E) (sg_metadata s) n (Metadata r)) (?rows(n \<mapsto> doc_of (textLib E) (Metadata r)))"
    using assms by (intro Upsert_ok) (auto simp: indexes_agree_def record_ok_def)
  moreover have "?rows(n \<mapsto> doc_of (textLib E) (Metadata r)) = (\<lambda>m. map_option (\<lambda>r. doc_of (textLib E) (Metadata r)) ((?docs(n \<mapsto> ?r)) m))"
    by auto
  moreover have "lex_ok (lexLib E) (fst (lexChange (lexLib E) (n, Some ?r) (lexical s, ?docs))) (?docs(n := Some ?r))"
    using lexChange_ok [of "lexLib E" "lexical s" ?docs "(n, Some ?r)"] assms by (auto simp: indexes_agree_def record_ok_def)
  ultimately show ?thesis
    by (simp add: indexes_agree_def map_of_update_other lexChange_def Let_def del: fun_upd_apply cong: option.case_cong)
qed

lemma vectorOf_cong: "vectorAt s' = vectorAt s \<Longrightarrow> vectorOf s' n r = vectorOf s n r"
  by (simp add: vectorOf_def)

lemma vectorOf_own [simp]: "cr_Vector r \<noteq> [] \<Longrightarrow> vectorOf s n r = Inr (cr_Vector r)"
  by (simp add: vectorOf_def)

lemma vectors_agree_upsert:
  assumes "vectors_agree vec s" and "vec i = (vec (sg_index s))(n \<mapsto> cr_Vector r)" and "cr_Vector r \<noteq> []"
  shows "vectors_agree vec (upserted E s r n nx i fs)"
  unfolding vectors_agree_def
proof (intro conjI allI impI)
  show "dom (vec (sg_index (upserted E s r n nx i fs))) = dom (map_of (sg_records (upserted E s r n nx i fs)))"
    using assms by (simp add: vectors_agree_def map_of_update_other)
next
  fix m q
  assume q: "map_of (sg_records (upserted E s r n nx i fs)) m = Some q"
  have "vectorOf (upserted E s r n nx i fs) m q = vectorOf s m q" by (rule vectorOf_cong) simp
  then show "\<exists>v. vec (sg_index (upserted E s r n nx i fs)) m = Some v \<and> vectorOf (upserted E s r n nx i fs) m q = Inr v"
    using q assms by (auto simp: map_of_update_other vectors_agree_def split: if_splits)
qed

lemma records_good_upsert:
  assumes "records_good E s" and "record_ok E r" and "n \<noteq> 0" and "n < nx" and "nextID s \<le> nx"
  shows "records_good E (upserted E s r n nx i fs)"
  using assms by (fastforce simp: records_good_def map_of_update_other record_ok_def split: if_splits)

lemma segView_upsert:
  assumes "seg_inv E iv vec s" and "fits s r n" and "scanned fs" and "cr_Vector r \<noteq> []"
    and "denseOf n fs = cr_Vectors (storedNamed cs r)" and "multiOf n fs = MultiVectors (storedNamed cs r)"
    and "\<forall>m. m \<noteq> n \<longrightarrow> denseOf m fs = denseOf m (named s) \<and> multiOf m fs = multiOf m (named s)"
    and "records_good E (upserted E s r n nx i fs)"
  shows "segView (upserted E s r n nx i fs) = (segView s)(keyOf r \<mapsto> storedNamed cs r)"
proof
  fix k
  let ?s = "upserted E s r n nx i fs"
  have good: "records_good E s" and sc: "scanned (named s)"
    and agree: "\<And>k m. map_of (sg_ordinals s) k = Some m \<longleftrightarrow> (\<exists>r. map_of (sg_records s) m = Some r \<and> keyOf r = k)"
    using assms(1) by (simp_all add: seg_inv_def keys_agree_def)
  show "segView ?s k = ((segView s)(keyOf r \<mapsto> storedNamed cs r)) k"
  proof (cases "k = keyOf r")
    case True
    have "map_of (sg_records ?s) n = Some (r\<lparr>cr_Vectors := [], MultiVectors := []\<rparr>)" by (simp add: map_of_update_other)
    then have "fullRecord ?s n = storedNamed cs r"
      using fullRecord_named [of ?s E n] assms(3-6,8) by (simp add: storedNamed_def)
    then show ?thesis using True by (simp add: segView_def map_of_update_other)
  next
    case False
    show ?thesis
    proof (cases "map_of (sg_ordinals s) k")
      case None
      then show ?thesis using False by (simp add: segView_def map_of_update_other)
    next
      case (Some m)
      then obtain q where q: "map_of (sg_records s) m = Some q" "keyOf q = k" using agree [of k m] by auto
      have "m \<noteq> n"
      proof
        assume "m = n"
        then show False using assms(2) q False agree [of "keyOf r" n] by (auto simp: fits_def split: option.splits)
      qed
      then have "map_of (sg_records ?s) m = Some q" using q by (simp add: map_of_update_other)
      then have "fullRecord ?s m = fullRecord s m"
        using fullRecord_named [of ?s E m q] fullRecord_named [OF sc good q(1)] assms(3,7,8) \<open>m \<noteq> n\<close> vectorOf_cong [of ?s s m q] by simp
      then show ?thesis using False Some by (simp add: segView_def map_of_update_other)
    qed
  qed
qed

text \<open>The state after a deletion.\<close>

definition deleted :: "'i seg_env \<Rightarrow> 'i Segment \<Rightarrow> string \<Rightarrow> u64 \<Rightarrow> 'i \<Rightarrow> 'i Segment" where
  "deleted E s k n i = s\<lparr>sg_index := i, lexical := lexRemove (lexLib E) n (recordAt s n) (lexical s),
     named := removeNamed E n (named s), sg_ordinals := AList.delete k (sg_ordinals s),
     sg_records := AList.delete n (sg_records s), sg_metadata := Delete (textLib E) (sg_metadata s) n\<rparr>"

lemma deleted_simps [simp]:
  "sg_index (deleted E s k n i) = i" "nextID (deleted E s k n i) = nextID s" "named (deleted E s k n i) = removeNamed E n (named s)"
  "sg_ordinals (deleted E s k n i) = AList.delete k (sg_ordinals s)" "sg_records (deleted E s k n i) = AList.delete n (sg_records s)"
  "sg_metadata (deleted E s k n i) = Delete (textLib E) (sg_metadata s) n" "readOnly (deleted E s k n i) = readOnly s"
  "vectorAt (deleted E s k n i) = vectorAt s" "sg_metric (deleted E s k n i) = sg_metric s"
  "lexical (deleted E s k n i) = lexRemove (lexLib E) n (recordAt s n) (lexical s)"
  by (simp_all add: deleted_def)

lemma deleted_inv:
  assumes "seg_inv E iv vec s" and "map_of (sg_ordinals s) k = Some n" and "iv i" and "vec i = (vec (sg_index s))(n := None)"
  shows "seg_inv E iv vec (deleted E s k n i)" and "segView (deleted E s k n i) = (segView s)(k := None)"
    and "fieldConfigs (named (deleted E s k n i)) = fieldConfigs (named s)"
proof -
  let ?s = "deleted E s k n i"
  have sc: "scanned (named s)" and good: "records_good E s" and va: "vectors_agree vec s" and ia: "indexes_agree E s"
    and agree: "\<And>k m. map_of (sg_ordinals s) k = Some m \<longleftrightarrow> (\<exists>r. map_of (sg_records s) m = Some r \<and> keyOf r = k)"
    and d: "distinct (map fst (sg_records s))" "distinct (map fst (sg_ordinals s))"
    using assms(1) by (simp_all add: seg_inv_def keys_agree_def)
  obtain r where r: "map_of (sg_records s) n = Some r" "keyOf r = k" using agree [of k n] assms(2) by auto
  show "fieldConfigs (named ?s) = fieldConfigs (named s)" using removeNamed_scan(2) [OF sc] by simp
  have "((map_of (sg_ordinals s))(k := None)) k' = Some m \<longleftrightarrow> (\<exists>q. ((map_of (sg_records s))(n := None)) m = Some q \<and> keyOf q = k')" for k' m
    using agree [of k' m] agree [of k m] r assms(2) by (cases "m = n"; cases "k' = k") auto
  then have ka: "keys_agree ?s" using d by (simp add: keys_agree_def map_of_update_other distinct_delete del: fun_upd_apply)
  have rg: "records_good E ?s" using good by (auto simp: records_good_def map_of_update_other)
  have "vectors_agree vec ?s"
    using va assms(4) vectorOf_cong [of ?s s] by (auto simp: vectors_agree_def map_of_update_other)
  moreover have "indexes_agree E ?s"
  proof -
    let ?docs = "map_of (sg_records s)"
    let ?rows = "\<lambda>m. map_option (\<lambda>r. doc_of (textLib E) (Metadata r)) (?docs m)"
    have "?rows(n := None) = (\<lambda>m. map_option (\<lambda>r. doc_of (textLib E) (Metadata r)) ((?docs(n := None)) m))" by auto
    moreover have "index_ok (textLib E) (Delete (textLib E) (sg_metadata s) n) (?rows(n := None))"
      using ia by (intro Delete_ok) (simp add: indexes_agree_def)
    moreover have "lex_ok (lexLib E) (lexRemove (lexLib E) n r (lexical s)) (?docs(n := None))"
      using ia r by (intro lexRemove_ok) (simp_all add: indexes_agree_def)
    ultimately show ?thesis using r by (simp add: indexes_agree_def map_of_update_other recordAt_def del: fun_upd_apply)
  qed
  ultimately show "seg_inv E iv vec ?s"
    using ka rg removeNamed_scan(1) [OF sc] assms(3) by (simp add: seg_inv_def)
  show "segView ?s = (segView s)(k := None)"
  proof
    fix k'
    show "segView ?s k' = ((segView s)(k := None)) k'"
    proof (cases "k' = k \<or> map_of (sg_ordinals s) k' = None")
      case True
      then show ?thesis by (auto simp: segView_def map_of_update_other)
    next
      case False
      then obtain m q where m: "map_of (sg_ordinals s) k' = Some m" "map_of (sg_records s) m = Some q" "keyOf q = k'"
        using agree by fastforce
      then have "m \<noteq> n" using r False by auto
      then have "map_of (sg_records ?s) m = Some q" using m(2) by (simp add: map_of_update_other)
      then have "fullRecord ?s m = fullRecord s m"
        using fullRecord_named [of ?s E m q] fullRecord_named [OF sc good m(2)] rg removeNamed_scan(1) [OF sc]
          removeNamed_scan(5) [OF sc \<open>m \<noteq> n\<close>] vectorOf_cong [of ?s s m q] by simp
      then show ?thesis using False m(1) by (simp add: segView_def map_of_update_other)
    qed
  qed
qed

text \<open>What stays the same while a mutable segment is used.\<close>

definition same_frame :: "'i Segment \<Rightarrow> 'i Segment \<Rightarrow> bool" where
  "same_frame s s' \<longleftrightarrow> readOnly s' = readOnly s \<and> vectorAt s' = vectorAt s \<and> sg_metric s' = sg_metric s
     \<and> fieldConfigs (named s') = fieldConfigs (named s)"

lemma next_above: "x \<noteq> - 1 \<Longrightarrow> x < x + 1" for x :: u64
proof -
  assume "x \<noteq> - 1"
  then have "1 + x \<noteq> 0" by (metis add.commute eq_neg_iff_add_eq_0)
  then show "x < x + 1" using unatSuc [of x] by (simp add: word_less_nat_alt add.commute)
qed

locale segment_index = exact_index "indexOps E" iv vec dim metric frozen "distanceOf E"
  for E :: "'i seg_env" and iv vec dim metric frozen
begin

definition mutable :: "'i Segment \<Rightarrow> bool" where
  "mutable s \<longleftrightarrow> seg_inv E iv vec s \<and> \<not> readOnly s \<and> vectorAt s = None \<and> \<not> frozen (sg_index s) \<and> 0 < dim (sg_index s)"

lemma SegUpsert_table:
  assumes m: "mutable s" and r: "record_ok E r" "int (length (cr_Vector r)) = dim (sg_index s)" and room: "nextID s \<noteq> - 1"
  shows "\<exists>s'. SegUpsert E s r = (Inr (), s') \<and> mutable s' \<and> same_frame s s' \<and> dim (sg_index s') = dim (sg_index s)
    \<and> metric (sg_index s') = metric (sg_index s) \<and> nextID s' \<le> nextID s + 1
    \<and> segView s' = (segView s)(keyOf r \<mapsto> storedNamed (fieldConfigs (named s)) r)"
proof -
  define n where "n = (case map_of (sg_ordinals s) (keyOf r) of None \<Rightarrow> nextID s | Some m \<Rightarrow> m)"
  define nx where "nx = (case map_of (sg_ordinals s) (keyOf r) of None \<Rightarrow> nextID s + 1 | Some m \<Rightarrow> nextID s)"
  have inv: "seg_inv E iv vec s" and ka: "keys_agree s" and good: "records_good E s" and va: "vectors_agree vec s"
    and ia: "indexes_agree E s" and sc: "scanned (named s)" and iv: "iv (sg_index s)"
    using m by (simp_all add: mutable_def seg_inv_def)
  have up: "nextID s < nextID s + 1" using next_above [OF room] .
  have known: "q \<noteq> 0 \<and> q < nextID s" if "map_of (sg_ordinals s) (keyOf r) = Some q" for q
    using ka good that by (fastforce simp: keys_agree_def records_good_def)
  have fresh: "map_of (sg_records s) (nextID s) = None"
    using good by (cases "map_of (sg_records s) (nextID s)") (auto simp: records_good_def)
  have n: "n \<noteq> 0" "n < nx" "nextID s \<le> nx" "nx \<le> nextID s + 1" "fits s r n"
    using up known fresh good by (auto simp: n_def nx_def fits_def records_good_def split: option.split)
  obtain i where i: "ixUpsert (indexOps E) (sg_index s) n (cr_Vector r) = Inr i" "iv i" "\<not> frozen i" "dim i = dim (sg_index s)"
      "metric i = metric (sg_index s)" "vec i = (vec (sg_index s))(n \<mapsto> cr_Vector r)"
    using upsert [OF iv _ n(1) r(2)] m by (auto simp: mutable_def)
  obtain fs where fs: "putNamed E n r (named s) = (Inr (), fs)" "scanned fs" "fieldConfigs fs = fieldConfigs (named s)"
      "denseOf n fs = cr_Vectors (storedNamed (fieldConfigs (named s)) r)" "multiOf n fs = MultiVectors (storedNamed (fieldConfigs (named s)) r)"
      "\<forall>m. m \<noteq> n \<longrightarrow> denseOf m fs = denseOf m (named s) \<and> multiOf m fs = multiOf m (named s)"
    using putNamed_scan [OF sc] by blast
  have v: "cr_Vector r \<noteq> []" using r(2) m by (auto simp: mutable_def)
  let ?s = "upserted E s r n nx i fs"
  have step: "SegUpsert E s r = (Inr (), ?s)"
    using m r(1) by (intro SegUpsert_upserted [OF _ _ n_def nx_def i(1) fs(1)]) (auto simp: mutable_def record_ok_def)
  have rg: "records_good E ?s" by (rule records_good_upsert [OF good r(1) n(1-3)])
  have "seg_inv E iv vec ?s"
    using i(2) fs(2) rg keys_agree_upsert [OF ka n(5)] vectors_agree_upsert [OF va i(6) v] indexes_agree_upsert [OF ia r(1)]
    by (simp add: seg_inv_def)
  then have "mutable ?s" using m i by (simp add: mutable_def)
  moreover have "segView ?s = (segView s)(keyOf r \<mapsto> storedNamed (fieldConfigs (named s)) r)"
    by (rule segView_upsert [OF inv n(5) fs(2) v fs(4-6) rg])
  ultimately show ?thesis using step i fs(3) n(4) by (simp add: same_frame_def)
qed

lemma SegUpsert_dimension:
  assumes "mutable s" and "cr_ID r \<noteq> []" and "int (length (cr_Vector r)) \<noteq> dim (sg_index s)"
  shows "fst (SegUpsert E s r) = Inl ErrDimensionMismatch \<and> segView (snd (SegUpsert E s r)) = segView s"
proof -
  have "ixUpsert (indexOps E) (sg_index s) n (cr_Vector r) = Inl ErrDimensionMismatch" for n
    using upsert_dim assms(1,3) by (simp add: mutable_def)
  moreover have "segView (s\<lparr>nextID := x\<rparr>) = segView s" for x
  proof -
    have "fullRecord (s\<lparr>nextID := x\<rparr>) = fullRecord s"
      by (simp add: fullRecord_def recordAt_def vectorOf_def fun_eq_iff)
    then show ?thesis by (intro ext) (simp add: segView_def)
  qed
  ultimately show ?thesis
    using assms(1,2) by (simp add: SegUpsert_def mutable_def Let_def split: option.split)
qed

lemma SegDelete_table:
  assumes m: "mutable s" and k: "segView s (recordKey namespace uid) \<noteq> None"
  shows "\<exists>s'. SegDelete E s namespace uid = (Inr (), s') \<and> mutable s' \<and> same_frame s s' \<and> dim (sg_index s') = dim (sg_index s)
    \<and> metric (sg_index s') = metric (sg_index s) \<and> nextID s' = nextID s \<and> segView s' = (segView s)(recordKey namespace uid := None)"
proof -
  have inv: "seg_inv E iv vec s" using m by (simp add: mutable_def)
  obtain n where n: "map_of (sg_ordinals s) (recordKey namespace uid) = Some n" using k by (auto simp: segView_def)
  then have "vec (sg_index s) n \<noteq> None"
    using inv by (fastforce simp: seg_inv_def keys_agree_def vectors_agree_def)
  then obtain i where i: "ixDelete (indexOps E) (sg_index s) n = Inr i" "iv i" "\<not> frozen i" "dim i = dim (sg_index s)"
      "metric i = metric (sg_index s)" "vec i = (vec (sg_index s))(n := None)"
    using delete m by (fastforce simp: mutable_def seg_inv_def)
  have "SegDelete E s namespace uid = (Inr (), deleted E s (recordKey namespace uid) n i)"
    using m n i(1) by (simp add: SegDelete_def deleted_def mutable_def Let_def)
  moreover note deleted_inv [OF inv n i(2,6)]
  ultimately show ?thesis using m i by (auto simp: mutable_def same_frame_def)
qed

lemma SegDelete_missing:
  "mutable s \<Longrightarrow> segView s (recordKey namespace uid) = None \<Longrightarrow> SegDelete E s namespace uid = (Inl ErrNotFound, s)"
  by (simp add: SegDelete_def mutable_def segView_def Let_def)

end

subsection \<open>Search over the table\<close>

text \<open>A record is selected by its namespace and the filter, and then scored.\<close>

definition selects :: "'i seg_env \<Rightarrow> string \<Rightarrow> Expr option \<Rightarrow> CoreRecord \<Rightarrow> bool" where
  "selects E namespace flt r \<longleftrightarrow> Namespace r = namespace
     \<and> (flt \<noteq> None \<longrightarrow> matches (textLib E) (doc_of (textLib E) (Metadata r)) flt)"

definition scoredResult :: "'i seg_env \<Rightarrow> string \<Rightarrow> f32 list \<Rightarrow> CoreRecord \<Rightarrow> SearchResult" where
  "scoredResult E m q r = toResult r (Vector_Index.scoreOf (distanceOf E) m q (cr_Vector r))"

definition tableHits :: "(string \<Rightarrow> CoreRecord option) \<Rightarrow> (CoreRecord \<Rightarrow> bool) \<Rightarrow> string set" where
  "tableHits tbl P = {k. \<exists>r. tbl k = Some r \<and> P r}"

definition resultsOf :: "'i seg_env \<Rightarrow> string \<Rightarrow> f32 list \<Rightarrow> (string \<Rightarrow> CoreRecord option) \<Rightarrow> (CoreRecord \<Rightarrow> bool) \<Rightarrow> SearchResult multiset" where
  "resultsOf E m q tbl P = image_mset (\<lambda>k. scoredResult E m q (the (tbl k))) (mset_set (tableHits tbl P))"

lemma evaluateFilter_exact:
  assumes "seg_inv E iv vec s" and "wt flt" and "plain flt"
  shows "\<exists>al. evaluateFilter E s flt = Inr al \<and> (\<forall>n r. map_of (sg_records s) n = Some r \<longrightarrow>
    (al \<noteq> None \<longrightarrow> SetContains al n) = (flt \<noteq> None \<longrightarrow> matches (textLib E) (doc_of (textLib E) (Metadata r)) flt))"
proof (cases flt)
  case None
  then show ?thesis by (simp add: evaluateFilter_def)
next
  case (Some e)
  let ?rows = "\<lambda>n. map_option (\<lambda>r. doc_of (textLib E) (Metadata r)) (map_of (sg_records s) n)"
  have "index_ok (textLib E) (sg_metadata s) ?rows" using assms(1) by (simp add: seg_inv_def indexes_agree_def)
  then have "answers ?rows (\<lambda>d. matches (textLib E) d flt) (Evaluate (textLib E) (geoOf E) (sg_metadata s) flt)"
    by (rule Evaluate_answers(1) [OF _ assms(2,3)])
  then obtain al where al: "Evaluate (textLib E) (geoOf E) (sg_metadata s) flt = Inr al"
      "members al = hits ?rows (\<lambda>d. matches (textLib E) d flt)"
    by (auto simp: answers_def)
  have "SetContains (Some al) n \<longleftrightarrow> matches (textLib E) (doc_of (textLib E) (Metadata r)) flt" if "map_of (sg_records s) n = Some r" for n r
    using that al(2) by (simp add: members_SetContains hits_def inj_image_mem_iff [OF inj_unat])
  then show ?thesis using Some al(1) by (simp add: evaluateFilter_def)
qed

lemma candidates_of_table:
  assumes inv: "seg_inv E iv vec s"
    and allow: "\<And>n r. map_of (sg_records s) n = Some r \<Longrightarrow> allow n \<longleftrightarrow> P r"
    and P: "\<And>r v vs ms. P (r\<lparr>cr_Vector := v, cr_Vectors := vs, MultiVectors := ms\<rparr>) = P r"
  shows "image_mset (\<lambda>c. toResult (recordAt s (cand_ID c)) (cand_Score c))
      (mset_set (candidatesOf (distanceOf E) m q (vec (sg_index s)) allow)) = resultsOf E m q (segView s) P"
proof -
  let ?n = "\<lambda>k. the (map_of (sg_ordinals s) k)" and ?K = "tableHits (segView s) P"
  let ?c = "\<lambda>k. \<lparr>cand_ID = ?n k, cand_Score = Vector_Index.scoreOf (distanceOf E) m q (cr_Vector (the (segView s k)))\<rparr>"
  have agree: "\<And>k n. map_of (sg_ordinals s) k = Some n \<longleftrightarrow> (\<exists>r. map_of (sg_records s) n = Some r \<and> keyOf r = k)"
    and sc: "scanned (named s)" and good: "records_good E s"
    using inv by (simp_all add: seg_inv_def keys_agree_def)
  have full: "fullRecord s n = r\<lparr>cr_Vector := v, cr_Vectors := denseOf n (named s), MultiVectors := multiOf n (named s)\<rparr>"
    if "map_of (sg_records s) n = Some r" "vec (sg_index s) n = Some v" for n r v
    using fullRecord_named [OF sc good that(1)] inv that by (fastforce simp: seg_inv_def vectors_agree_def)
  have has: "\<exists>v. vec (sg_index s) n = Some v" if "map_of (sg_records s) n = Some r" for n r
    using inv that by (fastforce simp: seg_inv_def vectors_agree_def)
  have hit: "k \<in> ?K \<longleftrightarrow> (\<exists>n r. map_of (sg_records s) n = Some r \<and> keyOf r = k \<and> P r)" for k
  proof -
    have "segView s k = Some x \<longleftrightarrow> (\<exists>n r. map_of (sg_records s) n = Some r \<and> keyOf r = k \<and> x = fullRecord s n)" for x
      using agree [of k] by (auto simp: segView_def)
    moreover have "P (fullRecord s n) = P r" if "map_of (sg_records s) n = Some r" for n r
      using full [OF that] has [OF that] P by fastforce
    ultimately show ?thesis unfolding tableHits_def mem_Collect_eq by metis
  qed
  have inj: "inj_on ?c ?K"
  proof (rule inj_onI)
    fix a b
    assume "a \<in> ?K" "b \<in> ?K" "?c a = ?c b"
    moreover obtain x y where "map_of (sg_ordinals s) a = Some x" "map_of (sg_ordinals s) b = Some y"
      using hit [of a] hit [of b] agree [of a] agree [of b] calculation(1,2) by blast
    ultimately show "a = b" using agree [of a x] agree [of b y] by auto
  qed
  have "candidatesOf (distanceOf E) m q (vec (sg_index s)) allow = ?c ` ?K" (is "?L = ?R")
  proof (intro set_eqI iffI)
    fix c
    assume "c \<in> ?L"
    then obtain n v where n: "c = \<lparr>cand_ID = n, cand_Score = Vector_Index.scoreOf (distanceOf E) m q v\<rparr>" "vec (sg_index s) n = Some v" "allow n"
      by (auto simp: candidatesOf_def)
    then obtain r where r: "map_of (sg_records s) n = Some r" using inv by (fastforce simp: seg_inv_def vectors_agree_def)
    then have o: "map_of (sg_ordinals s) (keyOf r) = Some n" using agree [of "keyOf r" n] by blast
    have "keyOf r \<in> ?K" using hit [of "keyOf r"] r allow n(3) by blast
    moreover have "c = ?c (keyOf r)" using o n(1) full [OF r n(2)] by (simp add: segView_def)
    ultimately show "c \<in> ?R" by blast
  next
    fix c
    assume "c \<in> ?R"
    then obtain k where k: "k \<in> ?K" "c = ?c k" by blast
    then obtain n r where r: "map_of (sg_records s) n = Some r" "keyOf r = k" "P r" using hit [of k] by blast
    then have o: "map_of (sg_ordinals s) k = Some n" using agree [of k n] by blast
    obtain v where v: "vec (sg_index s) n = Some v" using has [OF r(1)] by blast
    then have "c = \<lparr>cand_ID = n, cand_Score = Vector_Index.scoreOf (distanceOf E) m q v\<rparr>"
      using k(2) o full [OF r(1) v] by (simp add: segView_def)
    then show "c \<in> ?L" using v r(1,3) allow by (auto simp: candidatesOf_def)
  qed
  then have "mset_set (candidatesOf (distanceOf E) m q (vec (sg_index s)) allow) = image_mset ?c (mset_set ?K)"
    using inj by (simp add: image_mset_mset_set)
  moreover have "toResult (recordAt s (?n k)) x = toResult (the (segView s k)) x" if "k \<in> ?K" for k x
  proof -
    obtain n r where r: "map_of (sg_records s) n = Some r" "keyOf r = k" using hit [of k] \<open>k \<in> ?K\<close> by blast
    then have o: "map_of (sg_ordinals s) k = Some n" using agree [of k n] by blast
    obtain v where "vec (sg_index s) n = Some v" using has [OF r(1)] by blast
    then show ?thesis using o r(1) full [OF r(1)] by (simp add: segView_def recordAt_def toResult_def)
  qed
  moreover have "finite ?K"
    by (rule finite_subset [OF _ finite_dom_map_of [of "sg_ordinals s"]]) (auto simp: tableHits_def segView_def)
  ultimately show ?thesis
    by (auto simp: resultsOf_def scoredResult_def image_mset.compositionality o_def intro!: image_mset_cong)
qed

subsection \<open>Reading the table\<close>

definition tableOf :: "CoreRecord list \<Rightarrow> string \<Rightarrow> CoreRecord option" where
  "tableOf rs = map_of (map (\<lambda>r. (keyOf r, r)) rs)"

definition recordOrder :: "CoreRecord \<Rightarrow> string \<times> string" where
  "recordOrder r = (Namespace r, cr_ID r)"

lemma sortBy_recordLess: "sortBy recordLess rs = sort_key recordOrder rs"
  by (rule sortBy_key) (auto simp: recordLess_def recordOrder_def less_prod_def')

lemma tableOf_Some: "distinct (map keyOf rs) \<Longrightarrow> tableOf rs k = Some r \<longleftrightarrow> r \<in> set rs \<and> keyOf r = k"
  by (auto simp: tableOf_def map_of_eq_Some_iff o_def)

lemma table_eqI: "(\<And>k r. f k = Some r \<longleftrightarrow> g k = Some r) \<Longrightarrow> f = g"
  by (rule ext) (metis not_Some_eq)

lemma SegRecords_table:
  assumes inv: "seg_inv E iv vec s"
  shows "distinct (map keyOf (SegRecords s))" and "tableOf (SegRecords s) = segView s" and "sorted (map recordOrder (SegRecords s))"
proof -
  let ?f = "\<lambda>(n, r). let ordinal = (case map_of (sg_ordinals s) (keyOf r) of None \<Rightarrow> 0 | Some n \<Rightarrow> n);
      v = (case vectorOf s ordinal r of Inl _ \<Rightarrow> [] | Inr v \<Rightarrow> v) in attachNamed ordinal (named s) (r\<lparr>cr_Vector := v\<rparr>)"
  have agree: "\<And>k n. map_of (sg_ordinals s) k = Some n \<longleftrightarrow> (\<exists>r. map_of (sg_records s) n = Some r \<and> keyOf r = k)"
    and d: "distinct (map fst (sg_records s))" and sc: "scanned (named s)" and good: "records_good E s"
    using inv by (simp_all add: seg_inv_def keys_agree_def)
  have f: "?f (n, r) = fullRecord s n \<and> keyOf (fullRecord s n) = keyOf r \<and> map_of (sg_ordinals s) (keyOf r) = Some n"
    if "(n, r) \<in> set (sg_records s)" for n r
  proof -
    have r: "map_of (sg_records s) n = Some r" using d that by simp
    then have "map_of (sg_ordinals s) (keyOf r) = Some n" using agree [of "keyOf r" n] by blast
    then show ?thesis using r fullRecord_key [OF sc good r] by (simp add: fullRecord_def recordAt_def)
  qed
  let ?g = "\<lambda>(n, r). fullRecord s n"
  have "map ?f (sg_records s) = map ?g (sg_records s)"
    by (rule map_cong [OF refl]) (use f in \<open>force\<close>)
  then have recs: "SegRecords s = sort_key recordOrder (map ?g (sg_records s))"
    unfolding SegRecords_def sortBy_recordLess by (rule arg_cong [where f = "sort_key recordOrder"])
  then show "sorted (map recordOrder (SegRecords s))" by simp
  have keys: "keyOf (fullRecord s n) = keyOf r" "map_of (sg_ordinals s) (keyOf r) = Some n" if "(n, r) \<in> set (sg_records s)" for n r
    using f [OF that] by simp_all
  have "map keyOf (map ?g (sg_records s)) = map (\<lambda>(n, r). keyOf r) (sg_records s)"
    using keys(1) by auto
  moreover have "distinct (map (\<lambda>(n, r). keyOf r) (sg_records s))"
  proof -
    have "inj_on (\<lambda>(n, r). keyOf r) (set (sg_records s))"
    proof (rule inj_onI, clarify)
      fix a ra b rb
      assume x: "(a, ra) \<in> set (sg_records s)" "(b, rb) \<in> set (sg_records s)" "keyOf ra = keyOf rb"
      have "a = b" using keys(2) [OF x(1)] keys(2) [OF x(2)] x(3) by simp
      then show "a = b \<and> ra = rb" using x d eq_key_imp_eq_value by metis
    qed
    then show ?thesis using d by (auto simp: distinct_map)
  qed
  ultimately have dk: "distinct (map keyOf (map ?g (sg_records s)))" by presburger
  then show dist: "distinct (map keyOf (SegRecords s))"
    unfolding recs by (metis (no_types, lifting) mset_eq_imp_distinct_iff mset_map mset_sort)
  show "tableOf (SegRecords s) = segView s"
  proof (rule table_eqI)
    fix k x
    have "x \<in> set (SegRecords s) \<longleftrightarrow> (\<exists>n r. (n, r) \<in> set (sg_records s) \<and> x = fullRecord s n)"
      unfolding recs by force
    then have "tableOf (SegRecords s) k = Some x \<longleftrightarrow> (\<exists>n r. (n, r) \<in> set (sg_records s) \<and> x = fullRecord s n \<and> keyOf r = k)"
      using tableOf_Some [OF dist, of k x] keys(1) by (metis (no_types))
    also have "\<dots> \<longleftrightarrow> (\<exists>n. map_of (sg_ordinals s) k = Some n \<and> x = fullRecord s n)"
      using agree [of k] map_of_eq_Some_iff [OF d] by (metis (no_types))
    also have "\<dots> \<longleftrightarrow> segView s k = Some x" by (auto simp: segView_def)
    finally show "tableOf (SegRecords s) k = Some x \<longleftrightarrow> segView s k = Some x" .
  qed
qed

context segment_index
begin

lemma SegLen_table:
  assumes "seg_inv E iv vec s"
  shows "SegLen E s = int (card (dom (segView s)))"
proof -
  have agree: "\<And>k n. map_of (sg_ordinals s) k = Some n \<longleftrightarrow> (\<exists>r. map_of (sg_records s) n = Some r \<and> keyOf r = k)"
    using assms by (simp add: seg_inv_def keys_agree_def)
  have "SegLen E s = int (card (dom (map_of (sg_records s))))"
    using assms len by (simp add: SegLen_def seg_inv_def vectors_agree_def)
  moreover have "bij_betw (\<lambda>k. the (map_of (sg_ordinals s) k)) (dom (segView s)) (dom (map_of (sg_records s)))"
  proof (rule bij_betw_byWitness [where f' = "\<lambda>n. keyOf (the (map_of (sg_records s) n))"])
    have down: "\<exists>n r. map_of (sg_ordinals s) k = Some n \<and> map_of (sg_records s) n = Some r \<and> keyOf r = k" if k: "k \<in> dom (segView s)" for k
    proof -
      obtain n where "map_of (sg_ordinals s) k = Some n" using k by (auto simp: segView_def)
      then show ?thesis using agree [of k n] by blast
    qed
    have up: "map_of (sg_ordinals s) (keyOf r) = Some n \<and> keyOf r \<in> dom (segView s)" if "map_of (sg_records s) n = Some r" for n r
    proof -
      have "map_of (sg_ordinals s) (keyOf r) = Some n" using that agree [of "keyOf r" n] by blast
      then show ?thesis by (simp add: segView_def dom_def)
    qed
    show "\<forall>a\<in>dom (segView s). keyOf (the (map_of (sg_records s) (the (map_of (sg_ordinals s) a)))) = a"
      using down by force
    show "\<forall>a'\<in>dom (map_of (sg_records s)). the (map_of (sg_ordinals s) (keyOf (the (map_of (sg_records s) a')))) = a'"
      using up by force
    show "(\<lambda>k. the (map_of (sg_ordinals s) k)) ` dom (segView s) \<subseteq> dom (map_of (sg_records s))"
      using down by force
    show "(\<lambda>n. keyOf (the (map_of (sg_records s) n))) ` dom (map_of (sg_records s)) \<subseteq> dom (segView s)"
      using up by force
  qed
  ultimately show ?thesis by (simp add: bij_betw_same_card)
qed

lemma SegSearch_exact:
  assumes inv: "seg_inv E iv vec s" and q: "int (length q) = dim (sg_index s)" and k: "0 < k"
    and f: "wt flt" "plain flt"
    and scores: "\<And>key r. segView s key = Some r \<Longrightarrow> selects E namespace flt r \<Longrightarrow> key \<notin> set excluded
      \<Longrightarrow> scorable (distanceOf E) (metric (sg_index s)) q (cr_Vector r)"
  shows "\<exists>rs. SegSearch E s namespace q (int k) flt excluded ef = Inr rs
    \<and> best_k scoreKey k (resultsOf E (metric (sg_index s)) q (segView s) (\<lambda>r. selects E namespace flt r \<and> keyOf r \<notin> set excluded)) (mset rs)"
proof -
  let ?P = "\<lambda>r. selects E namespace flt r \<and> keyOf r \<notin> set excluded"
  obtain al where al: "evaluateFilter E s flt = Inr al"
      "\<forall>n r. map_of (sg_records s) n = Some r \<longrightarrow>
        (al \<noteq> None \<longrightarrow> SetContains al n) = (flt \<noteq> None \<longrightarrow> matches (textLib E) (doc_of (textLib E) (Metadata r)) flt)"
    using evaluateFilter_exact [OF inv f] by (elim exE conjE)
  let ?allow = "allowOrdinal s al namespace excluded"
  have allow: "?allow n \<longleftrightarrow> ?P r" if "map_of (sg_records s) n = Some r" for n r
    using al(2) [rule_format, OF that] that unfolding allowOrdinal_def selects_def by auto
  have P: "?P (r\<lparr>cr_Vector := v, cr_Vectors := vs, MultiVectors := ms\<rparr>) = ?P r" for r v vs ms
    by (simp add: selects_def)
  let ?opt = "\<lparr>so_EFSearch = ef, so_AllowedCount = (if al = None then -1 else SetLen al)\<rparr>"
  have "scorable (distanceOf E) (metric (sg_index s)) q v" if v: "vec (sg_index s) n = Some v" "?allow n" for n v
  proof -
    have parts: "keys_agree s" "scanned (named s)" "records_good E s" "vectors_agree vec s" using inv by (simp_all add: seg_inv_def)
    then have "n \<in> dom (map_of (sg_records s))" using v(1) unfolding vectors_agree_def by blast
    then obtain r where r: "map_of (sg_records s) n = Some r" by blast
    then have vr: "vectorOf s n r = Inr v" using parts(4) v(1) unfolding vectors_agree_def by force
    have "map_of (sg_ordinals s) (keyOf r) = Some n" using r parts(1) unfolding keys_agree_def by blast
    then have "segView s (keyOf r) = Some (fullRecord s n)" by (simp add: segView_def)
    moreover have "fullRecord s n = r\<lparr>cr_Vector := v, cr_Vectors := denseOf n (named s), MultiVectors := multiOf n (named s)\<rparr>"
      using fullRecord_named [OF parts(2,3) r] vr by simp
    ultimately show ?thesis using scores [of "keyOf r" "fullRecord s n"] allow [OF r] v(2) by (auto simp: selects_def)
  qed
  then obtain cs where cs: "ixSearch (indexOps E) (sg_index s) q (int k) ?opt ?allow = Inr cs"
      "best_k candKey k (mset_set (candidatesOf (distanceOf E) (metric (sg_index s)) q (vec (sg_index s)) ?allow)) (mset cs)"
    using search [of "sg_index s" q k ?allow ?opt] inv q k by (auto simp: seg_inv_def)
  let ?h = "\<lambda>c. toResult (recordAt s (cand_ID c)) (cand_Score c)"
  have "best_k (\<lambda>c. scoreKey (?h c)) k (mset_set (candidatesOf (distanceOf E) (metric (sg_index s)) q (vec (sg_index s)) ?allow)) (mset cs)"
    by (rule best_k_mono [OF cs(2)]) (auto simp: scoreKey_def toResult_def candKey_def less_eq_prod_def)
  from best_k_image [where g = scoreKey and h = ?h, OF this]
  have "best_k scoreKey k (resultsOf E (metric (sg_index s)) q (segView s) ?P) (mset (map ?h cs))"
    using candidates_of_table [OF inv allow P, where m = "metric (sg_index s)" and q = q] by simp
  moreover have "length cs \<le> k" using best_k_size [OF cs(2)] by simp
  then have "SegSearch E s namespace q (int k) flt excluded ef = Inr (map ?h cs)"
    using k al(1) cs(1) by (simp add: SegSearch_def Let_def)
  ultimately show ?thesis by blast
qed

end

subsection \<open>Building segments\<close>

text \<open>The configurations whose segments search exactly: no quantization, no approximate graph.\<close>

definition exact_config :: "CollectionConfig \<Rightarrow> bool" where
  "exact_config c \<longleftrightarrow> ic_Type (cc_Index c) \<in> {''flat'', ''diskann''} \<and> Quantization (cc_Index c) = [] \<and> 0 < Dimension c
     \<and> MetricValid (Metric c) \<and> distinct (map fst (Vectors c))
     \<and> (\<forall>(name, f) \<in> set (Vectors c). ic_Type (vf_Index (FieldNormalized f)) \<noteq> ''hnsw'')"

definition declaredConfigs :: "CollectionConfig \<Rightarrow> (string \<times> VectorField) list" where
  "declaredConfigs c = map (\<lambda>name. (name, the (VectorFieldOf c name))) (VectorFieldNames c)"

lemma foldR_collected:
  "(\<And>x. x \<in> set xs \<Longrightarrow> f x = Inr (g x)) \<Longrightarrow> foldR (\<lambda>x ys. and_then (f x) (\<lambda>y. Inr (ys @ [y]))) xs ys = Inr (ys @ map g xs)"
  by (induction xs arbitrary: ys) auto

lemma mapR_all: "(\<And>x. x \<in> set xs \<Longrightarrow> f x = Inr (g x)) \<Longrightarrow> mapR f xs = Inr (map g xs)"
  unfolding mapR_def by (subst foldR_collected) auto

lemma declareFields_exact:
  assumes "exact_config c"
  shows "\<exists>fs. declareFields E c = Inr fs \<and> scanned fs \<and> fieldConfigs fs = declaredConfigs c"
proof -
  let ?f = "\<lambda>name. (name, \<lparr>nf_config = the (VectorFieldOf c name), nf_index = None, nf_dense = [], nf_multi = [], nf_pooled = []\<rparr>)"
  have "(case VectorFieldOf c name of None \<Rightarrow> Inl GoPanic
       | Some declared \<Rightarrow> and_then (newNamedField E declared) (\<lambda>f. Inr (name, f))) = Inr (?f name)"
    if "name \<in> set (VectorFieldNames c)" for name
  proof -
    obtain f where f: "(name, f) \<in> set (Vectors c)" using \<open>name \<in> _\<close> by (auto simp: VectorFieldNames_def)
    then have "VectorFieldOf c name = Some (FieldNormalized f)" "ic_Type (vf_Index (FieldNormalized f)) \<noteq> ''hnsw''"
      using assms by (auto simp: exact_config_def VectorFieldOf_def)
    then show ?thesis by (simp add: newNamedField_def)
  qed
  then have "declareFields E c = Inr (map ?f (VectorFieldNames c))" unfolding declareFields_def by (rule mapR_all)
  moreover have "distinct (VectorFieldNames c)" using assms by (simp add: exact_config_def VectorFieldNames_def)
  then have "scanned (map ?f (VectorFieldNames c))" by (auto simp: scanned_def o_def)
  ultimately show ?thesis by (auto simp: fieldConfigs_def declaredConfigs_def)
qed

locale segment_env = segment_index E iv vec dim metric frozen
  for E :: "'i seg_env" and iv vec dim metric frozen +
  assumes new_flat: "0 < d \<Longrightarrow> MetricValid m \<Longrightarrow>
      \<exists>i. newFlat E d m = Inr i \<and> iv i \<and> \<not> frozen i \<and> dim i = d \<and> metric i = m \<and> vec i = Map.empty"
    and new_mapped: "ms_rows src = Some rows \<Longrightarrow> length rows = length ids \<Longrightarrow> distinct ids \<Longrightarrow> 0 \<notin> set ids \<Longrightarrow>
      (\<forall>v \<in> set rows. int (length v) = ms_dimension src) \<Longrightarrow> 0 < ms_dimension src \<Longrightarrow> MetricValid m \<Longrightarrow>
      \<exists>i. newMapped E src m ids = Inr i \<and> iv i \<and> dim i = ms_dimension src \<and> metric i = m \<and> vec i = map_of (zip ids rows)"
begin

lemma SegNew_table:
  assumes c: "exact_config c"
  shows "\<exists>s. SegNew E c = Inr s \<and> mutable s \<and> dim (sg_index s) = Dimension c \<and> metric (sg_index s) = Metric c
    \<and> nextID s = 1 \<and> segView s = Map.empty \<and> fieldConfigs (named s) = declaredConfigs c"
proof -
  obtain i where i: "newFlat E (Dimension c) (Metric c) = Inr i" "iv i" "\<not> frozen i" "dim i = Dimension c" "metric i = Metric c" "vec i = Map.empty"
    using new_flat [of "Dimension c" "Metric c"] c by (auto simp: exact_config_def)
  let ?s = "emptySegment i (Metric c)"
  have e: "seg_inv E iv vec (?s\<lparr>named := fs\<rparr>)" if "scanned fs" for fs
  proof -
    have "keys_agree (?s\<lparr>named := fs\<rparr>)" by (simp add: keys_agree_def emptySegment_def)
    moreover have "records_good E (?s\<lparr>named := fs\<rparr>)" by (simp add: records_good_def emptySegment_def)
    moreover have "vectors_agree vec (?s\<lparr>named := fs\<rparr>)" using i(6) by (simp add: vectors_agree_def emptySegment_def)
    moreover have "indexes_agree E (?s\<lparr>named := fs\<rparr>)"
      using NewIndex_ok [of "textLib E"] newLexicalIndex_ok [of "lexLib E"] by (simp add: indexes_agree_def emptySegment_def)
    ultimately show ?thesis using that i(2) by (simp add: seg_inv_def emptySegment_def)
  qed
  have v: "segView (?s\<lparr>named := fs\<rparr>) = Map.empty" for fs by (rule ext) (simp add: segView_def emptySegment_def)
  obtain fs where fs: "declareFields E c = Inr fs" "scanned fs" "fieldConfigs fs = declaredConfigs c" using declareFields_exact [OF c] by blast
  have "initNamed E c ?s = Inr (?s\<lparr>named := fs\<rparr>)"
  proof (cases "Vectors c = []")
    case True
    then have "fs = []" using fs(3) by (simp add: declaredConfigs_def VectorFieldNames_def fieldConfigs_def)
    then show ?thesis using True by (simp add: initNamed_def emptySegment_def)
  next
    case False
    then show ?thesis using fs(1) by (simp add: initNamed_def emptySegment_def)
  qed
  then have "SegNew E c = Inr (?s\<lparr>named := fs\<rparr>)"
    using c i(1) by (auto simp: SegNew_def exact_config_def Let_def)
  then show ?thesis
    using e [OF fs(2)] v i fs(3) c by (intro exI [of _ "?s\<lparr>named := fs\<rparr>"]) (simp add: mutable_def, simp add: emptySegment_def exact_config_def)
qed

definition accepts :: "'i Segment \<Rightarrow> CoreRecord \<Rightarrow> bool" where
  "accepts s r \<longleftrightarrow> record_ok E r \<and> int (length (cr_Vector r)) = dim (sg_index s)"

lemma fillSegment_table:
  assumes "mutable s" and "\<forall>r \<in> set rs. accepts s r" and "unat (nextID s) + length rs < 2 ^ 64"
  shows "\<exists>s'. fillSegment E rs s = Inr s' \<and> mutable s' \<and> same_frame s s' \<and> dim (sg_index s') = dim (sg_index s)
    \<and> metric (sg_index s') = metric (sg_index s)
    \<and> segView s' = fold (\<lambda>r t. t(keyOf r \<mapsto> storedNamed (fieldConfigs (named s)) r)) rs (segView s)"
  using assms
proof (induction rs arbitrary: s)
  case Nil
  then show ?case by (simp add: fillSegment_def same_frame_def)
next
  case (Cons r rs)
  have room: "nextID s \<noteq> - 1"
  proof
    assume "nextID s = - 1"
    then have "unat (nextID s) = mask 64" by (simp add: unsigned_minus_1_eq_mask)
    then show False using Cons.prems(3) by (simp add: mask_eq_exp_minus_1)
  qed
  obtain s1 where s1: "SegUpsert E s r = (Inr (), s1)" "mutable s1" "same_frame s s1" "dim (sg_index s1) = dim (sg_index s)"
      "metric (sg_index s1) = metric (sg_index s)" "nextID s1 \<le> nextID s + 1"
      "segView s1 = (segView s)(keyOf r \<mapsto> storedNamed (fieldConfigs (named s)) r)"
    using SegUpsert_table [OF Cons.prems(1) _ _ room, of r] Cons.prems(2) by (auto simp: accepts_def)
  have "unat (nextID s + 1) = Suc (unat (nextID s))"
    using unatSuc [of "nextID s"] room by (metis add.commute eq_neg_iff_add_eq_0)
  then have "unat (nextID s1) + length rs < 2 ^ 64" using s1(6) Cons.prems(3) by (simp add: word_le_nat_alt)
  moreover have "\<forall>r \<in> set rs. accepts s1 r" using Cons.prems(2) s1(4) by (simp add: accepts_def)
  ultimately obtain s' where "fillSegment E rs s1 = Inr s'" "mutable s'" "same_frame s1 s'" "dim (sg_index s') = dim (sg_index s1)"
      "metric (sg_index s') = metric (sg_index s1)"
      "segView s' = fold (\<lambda>r t. t(keyOf r \<mapsto> storedNamed (fieldConfigs (named s1)) r)) rs (segView s1)"
    using Cons.IH [OF s1(2)] by blast
  moreover have "fieldConfigs (named s1) = fieldConfigs (named s)" using s1(3) by (simp add: same_frame_def)
  ultimately show ?case using s1 by (simp add: fillSegment_def same_frame_def del: fun_upd_apply)
qed

lemma NewImmutable_table:
  assumes c: "exact_config c" and rs: "\<forall>r \<in> set rs. record_ok E r \<and> int (length (cr_Vector r)) = Dimension c"
    and room: "length rs < 2 ^ 64 - 1"
  shows "\<exists>s. NewImmutableWithPQ E c rs None pq = Inr s \<and> seg_inv E iv vec s \<and> readOnly s \<and> dim (sg_index s) = Dimension c
    \<and> metric (sg_index s) = Metric c \<and> segView s = fold (\<lambda>r t. t(keyOf r \<mapsto> storedNamed (declaredConfigs c) r)) rs Map.empty"
proof -
  obtain s0 where s0: "SegNew E c = Inr s0" "mutable s0" "dim (sg_index s0) = Dimension c" "metric (sg_index s0) = Metric c"
      "nextID s0 = 1" "segView s0 = Map.empty" "fieldConfigs (named s0) = declaredConfigs c"
    using SegNew_table [OF c] by blast
  obtain s where s: "fillSegment E rs s0 = Inr s" "mutable s" "dim (sg_index s) = dim (sg_index s0)" "metric (sg_index s) = metric (sg_index s0)"
      "segView s = fold (\<lambda>r t. t(keyOf r \<mapsto> storedNamed (fieldConfigs (named s0)) r)) rs (segView s0)"
    using fillSegment_table [OF s0(2), of rs] rs s0(3,5) room by (auto simp: accepts_def)
  have "NewImmutableWithPQ E c rs None pq = Inr (s\<lparr>readOnly := True\<rparr>)"
    using s0(1) s(1) c by (simp add: NewImmutableWithPQ_def UsesPQ_def exact_config_def)
  moreover have "seg_inv E iv vec (s\<lparr>readOnly := True\<rparr>)"
  proof -
    have "vectorOf (s\<lparr>readOnly := True\<rparr>) = vectorOf s" by (intro ext) (simp add: vectorOf_def)
    then show ?thesis
      using s(2) by (simp add: mutable_def seg_inv_def keys_agree_def records_good_def vectors_agree_def indexes_agree_def)
  qed
  moreover have "segView (s\<lparr>readOnly := True\<rparr>) = segView s"
  proof -
    have "fullRecord (s\<lparr>readOnly := True\<rparr>) = fullRecord s" by (rule ext) (simp add: fullRecord_def recordAt_def vectorOf_def)
    then show ?thesis by (intro ext) (simp add: segView_def)
  qed
  ultimately show ?thesis using s s0 by (intro exI [of _ "s\<lparr>readOnly := True\<rparr>"]) simp
qed

end

subsection \<open>Segments over mapped vectors\<close>

abbreviation ordinalAt :: "nat \<Rightarrow> u64" where
  "ordinalAt p \<equiv> of_nat (Suc p)"

lemma unat_ordinalAt: "p < 2 ^ 64 - 1 \<Longrightarrow> unat (ordinalAt p) = Suc p"
  unfolding unat_of_nat by simp

lemma ordinalAt_inj: "p < 2 ^ 64 - 1 \<Longrightarrow> q < 2 ^ 64 - 1 \<Longrightarrow> ordinalAt p = ordinalAt q \<longleftrightarrow> p = q"
  by (metis Suc_inject unat_ordinalAt)

lemma ordinalAt_nz: "p < 2 ^ 64 - 1 \<Longrightarrow> ordinalAt p \<noteq> 0"
  by (metis unat_0 unat_ordinalAt Zero_not_Suc)

definition placedRecords :: "CoreRecord list \<Rightarrow> (u64 \<times> CoreRecord) list" where
  "placedRecords rs = map (\<lambda>p. (ordinalAt p, (rs ! p)\<lparr>cr_Vector := []\<rparr>)) [0..<length rs]"

definition placedKeys :: "CoreRecord list \<Rightarrow> (string \<times> u64) list" where
  "placedKeys rs = map (\<lambda>p. (keyOf (rs ! p), ordinalAt p)) [0..<length rs]"

lemma map_of_placedRecords:
  assumes "length rs < 2 ^ 64 - 1"
  shows "map_of (placedRecords rs) n = Some x \<longleftrightarrow> (\<exists>p < length rs. n = ordinalAt p \<and> x = (rs ! p)\<lparr>cr_Vector := []\<rparr>)"
    and "distinct (map fst (placedRecords rs))"
proof -
  have "inj_on ordinalAt {0..<length rs}"
    using ordinalAt_inj assms by (intro inj_onI) auto
  then show d: "distinct (map fst (placedRecords rs))"
  proof -
    have "map fst (placedRecords rs) = map ordinalAt [0..<length rs]" by (simp add: placedRecords_def)
    then show ?thesis using \<open>inj_on _ _\<close> by (simp add: distinct_map)
  qed
  show "map_of (placedRecords rs) n = Some x \<longleftrightarrow> (\<exists>p < length rs. n = ordinalAt p \<and> x = (rs ! p)\<lparr>cr_Vector := []\<rparr>)"
    unfolding map_of_eq_Some_iff [OF d] by (auto simp: placedRecords_def)
qed

lemma map_of_placedKeys:
  assumes "distinct (map keyOf rs)"
  shows "map_of (placedKeys rs) k = Some n \<longleftrightarrow> (\<exists>p < length rs. n = ordinalAt p \<and> keyOf (rs ! p) = k)"
    and "distinct (map fst (placedKeys rs))"
proof -
  have "map fst (placedKeys rs) = map keyOf rs"
    by (rule nth_equalityI) (simp_all add: placedKeys_def)
  then show d: "distinct (map fst (placedKeys rs))" using assms by simp
  show "map_of (placedKeys rs) k = Some n \<longleftrightarrow> (\<exists>p < length rs. n = ordinalAt p \<and> keyOf (rs ! p) = k)"
    unfolding map_of_eq_Some_iff [OF d] by (auto simp: placedKeys_def)
qed

lemma lexAdd_vector [simp]: "lexAdd F n (r\<lparr>cr_Vector := x\<rparr>) l = lexAdd F n r l"
  by (simp add: lexAdd_def addText_def addSparse_def)

lemma good_doc_vector [simp]: "good_doc F (r\<lparr>cr_Vector := x\<rparr>) = good_doc F r"
  by (simp add: good_doc_def docTokens_def)

lemma record_ok_fields [simp]:
  "record_ok E (r\<lparr>cr_Vector := x\<rparr>) = record_ok E r"
  "record_ok E (r\<lparr>cr_Vectors := y, MultiVectors := z\<rparr>) = record_ok E r"
  by (simp_all add: record_ok_def good_doc_def docTokens_def)

lemma sealedSegment_places:
  assumes "distinct (map keyOf rs)" and "length rs < 2 ^ 64 - 1" and "\<forall>r \<in> set rs. record_ok E r"
    and s0_def: "s0 = (emptySegment i (Metric c))\<lparr>nextID := nx, readOnly := True, vectorAt := Some src, sg_metadata := NewIndex\<rparr>"
  shows "\<exists>l m. fold (placeRecord E False True) (enumerate 0 rs) s0
      = s0\<lparr>sg_records := placedRecords rs, sg_ordinals := placedKeys rs, lexical := l, sg_metadata := m\<rparr>
    \<and> lex_ok (lexLib E) l (map_of (placedRecords rs))
    \<and> index_ok (textLib E) m (\<lambda>n. map_option (\<lambda>r. doc_of (textLib E) (Metadata r)) (map_of (placedRecords rs) n))"
  using assms(1-3)
proof (induction rs rule: rev_induct)
  case Nil
  then show ?case
    using NewIndex_ok [of "textLib E"] newLexicalIndex_ok [of "lexLib E"]
    by (intro exI [of _ newLexicalIndex] exI [of _ NewIndex]) (simp add: s0_def emptySegment_def placedRecords_def placedKeys_def)
next
  case (snoc r rs)
  let ?n = "ordinalAt (length rs)" and ?r = "r\<lparr>cr_Vector := []\<rparr>"
  have len: "length rs < 2 ^ 64 - 1" "length rs < 2 ^ 64" and dk: "distinct (map keyOf rs)" and rok: "record_ok E r"
    using snoc.prems by auto
  obtain l m where lm: "fold (placeRecord E False True) (enumerate 0 rs) s0
        = s0\<lparr>sg_records := placedRecords rs, sg_ordinals := placedKeys rs, lexical := l, sg_metadata := m\<rparr>"
      "lex_ok (lexLib E) l (map_of (placedRecords rs))"
      "index_ok (textLib E) m (\<lambda>n. map_option (\<lambda>r. doc_of (textLib E) (Metadata r)) (map_of (placedRecords rs) n))"
    using snoc.IH dk len snoc.prems(3) by auto
  have fresh: "map_of (placedRecords rs) ?n = None"
  proof (rule ccontr)
    assume "map_of (placedRecords rs) ?n \<noteq> None"
    then obtain p where p: "p < length rs" "?n = ordinalAt p" using map_of_placedRecords(1) [OF len(1), of ?n] by blast
    then show False using ordinalAt_inj [OF len(1), of p] len(1) by simp
  qed
  have "map_of (placedKeys rs) (keyOf r) = None"
  proof (rule ccontr)
    assume "map_of (placedKeys rs) (keyOf r) \<noteq> None"
    then obtain p where p: "p < length rs" "keyOf (rs ! p) = keyOf r" using map_of_placedKeys(1) [OF dk, of "keyOf r"] by blast
    have "keyOf (rs ! p) \<in> keyOf ` set rs" using p(1) by (intro imageI nth_mem)
    then show False using snoc.prems(1) p(2) by simp
  qed
  then have lists: "AList.update ?n ?r (placedRecords rs) = placedRecords (rs @ [r])"
      "AList.update (keyOf r) ?n (placedKeys rs) = placedKeys (rs @ [r])"
    using fresh by (simp_all add: update_append map_of_eq_None_iff placedRecords_def placedKeys_def nth_append)
  have maps: "map_of (placedRecords (rs @ [r])) = (map_of (placedRecords rs))(?n \<mapsto> ?r)"
    unfolding lists(1) [symmetric] by (simp add: update_conv')
  let ?l = "lexAdd (lexLib E) ?n ?r l" and ?m = "Upsert (textLib E) m ?n (Metadata r)"
  have "fold (placeRecord E False True) (enumerate 0 (rs @ [r])) s0
      = s0\<lparr>sg_records := placedRecords (rs @ [r]), sg_ordinals := placedKeys (rs @ [r]), lexical := ?l, sg_metadata := ?m\<rparr>"
    using lm(1) lists by (simp add: enumerate_append_eq placeRecord_def Let_def)
  moreover have "lex_ok (lexLib E) ?l (map_of (placedRecords (rs @ [r])))"
    unfolding maps using lm(2) fresh rok by (intro lexAdd_ok) (simp_all add: record_ok_def)
  moreover have "index_ok (textLib E) ?m (\<lambda>n. map_option (\<lambda>r. doc_of (textLib E) (Metadata r)) (map_of (placedRecords (rs @ [r])) n))"
  proof -
    have "(\<lambda>n. map_option (\<lambda>r. doc_of (textLib E) (Metadata r)) (map_of (placedRecords (rs @ [r])) n))
        = (\<lambda>n. map_option (\<lambda>r. doc_of (textLib E) (Metadata r)) (map_of (placedRecords rs) n))(?n \<mapsto> doc_of (textLib E) (Metadata r))"
      unfolding maps by auto
    then show ?thesis using Upsert_ok [OF lm(3), of "Metadata r" ?n] rok by (simp add: record_ok_def del: fun_upd_apply)
  qed
  ultimately show ?case by blast
qed

abbreviation strip :: "CoreRecord \<Rightarrow> CoreRecord" where
  "strip r \<equiv> r\<lparr>cr_Vectors := [], MultiVectors := []\<rparr>"

lemma update_present: "k \<in> fst ` set al \<Longrightarrow> map fst (AList.update k v al) = map fst al"
  by (induction al) auto

lemma moveNamed_scan:
  assumes "scanned (named s)" and "distinct ns" and "\<forall>n \<in> set ns. map_of (sg_records s) n \<noteq> None"
  shows "\<exists>s'. moveNamed E ns s = Inr s' \<and> scanned (named s') \<and> fieldConfigs (named s') = fieldConfigs (named s)
    \<and> s' = s\<lparr>named := named s', sg_records := sg_records s'\<rparr> \<and> map fst (sg_records s') = map fst (sg_records s)
    \<and> map_of (sg_records s') = (\<lambda>n. if n \<in> set ns then map_option strip (map_of (sg_records s) n) else map_of (sg_records s) n)
    \<and> (\<forall>n \<in> set ns. denseOf n (named s') = cr_Vectors (storedNamed (fieldConfigs (named s)) (recordAt s n))
         \<and> multiOf n (named s') = MultiVectors (storedNamed (fieldConfigs (named s)) (recordAt s n)))
    \<and> (\<forall>n. n \<notin> set ns \<longrightarrow> denseOf n (named s') = denseOf n (named s) \<and> multiOf n (named s') = multiOf n (named s))"
  using assms
proof (induction ns arbitrary: s)
  case Nil
  then show ?case by (intro exI [of _ s]) (simp add: fun_eq_iff)
next
  case (Cons n ns)
  obtain fs where fs: "putNamed E n (recordAt s n) (named s) = (Inr (), fs)" "scanned fs" "fieldConfigs fs = fieldConfigs (named s)"
      "denseOf n fs = cr_Vectors (storedNamed (fieldConfigs (named s)) (recordAt s n))"
      "multiOf n fs = MultiVectors (storedNamed (fieldConfigs (named s)) (recordAt s n))"
      "\<forall>m. m \<noteq> n \<longrightarrow> denseOf m fs = denseOf m (named s) \<and> multiOf m fs = multiOf m (named s)"
    using putNamed_scan [OF Cons.prems(1)] by meson
  obtain r where r: "map_of (sg_records s) n = Some r" "recordAt s n = r" using Cons.prems(3) by (auto simp: recordAt_def)
  define s1 where "s1 = s\<lparr>named := fs, sg_records := AList.update n (strip r) (sg_records s)\<rparr>"
  have s1: "named s1 = fs" "sg_records s1 = AList.update n (strip r) (sg_records s)"
      "map_of (sg_records s1) = (map_of (sg_records s))(n \<mapsto> strip r)"
    by (simp_all add: s1_def update_conv')
  have n: "n \<in> fst ` set (sg_records s)" using r(1) by (metis map_of_eq_None_iff option.distinct(1))
  have "distinct ns" "\<forall>m \<in> set ns. map_of (sg_records s1) m \<noteq> None" "n \<notin> set ns" using Cons.prems(2,3) s1(3) by auto
  then obtain s' where s': "moveNamed E ns s1 = Inr s'" "scanned (named s')" "fieldConfigs (named s') = fieldConfigs (named s1)"
      "s' = s1\<lparr>named := named s', sg_records := sg_records s'\<rparr>" "map fst (sg_records s') = map fst (sg_records s1)"
      "map_of (sg_records s') = (\<lambda>n. if n \<in> set ns then map_option strip (map_of (sg_records s1) n) else map_of (sg_records s1) n)"
      "\<forall>n \<in> set ns. denseOf n (named s') = cr_Vectors (storedNamed (fieldConfigs (named s1)) (recordAt s1 n))
         \<and> multiOf n (named s') = MultiVectors (storedNamed (fieldConfigs (named s1)) (recordAt s1 n))"
      "\<forall>n. n \<notin> set ns \<longrightarrow> denseOf n (named s') = denseOf n (named s1) \<and> multiOf n (named s') = multiOf n (named s1)"
    using Cons.IH [of s1] fs(2) s1(1) by auto
  have move: "moveNamed E (n # ns) s = Inr s'" using fs(1) r s'(1) by (simp add: s1_def)
  have whole: "s' = s\<lparr>named := named s', sg_records := sg_records s'\<rparr>" using s'(4) by (simp add: s1_def)
  have keys: "map fst (sg_records s') = map fst (sg_records s)" using s'(5) s1(2) update_present [OF n] by simp
  have "recordAt s1 m = recordAt s m" if "m \<in> set ns" for m
    using that s1(3) \<open>n \<notin> set ns\<close> by (auto simp: recordAt_def)
  then have named: "\<forall>m \<in> set (n # ns). denseOf m (named s') = cr_Vectors (storedNamed (fieldConfigs (named s)) (recordAt s m))
         \<and> multiOf m (named s') = MultiVectors (storedNamed (fieldConfigs (named s)) (recordAt s m))"
    using s'(7,8) fs(3-5) s1(1) \<open>n \<notin> set ns\<close> by auto
  have others: "\<forall>m. m \<notin> set (n # ns) \<longrightarrow> denseOf m (named s') = denseOf m (named s) \<and> multiOf m (named s') = multiOf m (named s)"
    using s'(8) fs(6) s1(1) by auto
  have maps: "map_of (sg_records s') = (\<lambda>m. if m \<in> set (n # ns) then map_option strip (map_of (sg_records s) m) else map_of (sg_records s) m)"
    using s'(6) s1(3) r(1) \<open>n \<notin> set ns\<close> by (auto simp: fun_eq_iff)
  have configs: "fieldConfigs (named s') = fieldConfigs (named s)" using s'(3) s1(1) fs(3) by simp
  show ?case using move s'(2) configs whole keys maps named others by blast
qed

lemma storedNamed_vector [simp]:
  "cr_Vectors (storedNamed cs (r\<lparr>cr_Vector := x\<rparr>)) = cr_Vectors (storedNamed cs r)"
  "MultiVectors (storedNamed cs (r\<lparr>cr_Vector := x\<rparr>)) = MultiVectors (storedNamed cs r)"
  by (simp_all add: storedNamed_def cong: if_cong)

text \<open>Records whose named vectors are exactly those of declared fields at their precision, as \<open>PrepareNamedVectors\<close> leaves them.\<close>

definition inStoredForm :: "CollectionConfig \<Rightarrow> CoreRecord \<Rightarrow> bool" where
  "inStoredForm c r \<longleftrightarrow> storedNamed (declaredConfigs c) r = r"

lemma VectorCopy_ordinal:
  assumes "ms_rows src = Some rows" and "p < length rows" and "p < 2 ^ 64 - 1"
  shows "VectorCopy src (unat (ordinalAt p - 1)) = Inr (rows ! p)"
proof -
  have "ordinalAt p - 1 = of_nat p" by simp
  moreover have "unat (of_nat p :: u64) = p" unfolding unat_of_nat using assms(3) by simp
  ultimately show ?thesis using assms(1,2) by (simp add: VectorCopy_def)
qed

lemma lex_ok_strip:
  assumes "lex_ok F l docs" and "\<And>n. docs' n = map_option strip (docs n)"
  shows "lex_ok F l docs'"
proof -
  have r: "sparseEntries (strip r) = sparseEntries r" "docNorm F (strip r) = docNorm F r" "docCount F (strip r) = docCount F r"
      "docSize F (strip r) = docSize F r" for r
    by (simp_all add: sparseEntries_def docNorm_def docCount_def docSize_def docTokens_def fun_eq_iff Let_def)
  have b: "Option.bind (docs' n) f = Option.bind (docs n) (\<lambda>r. f (strip r))" for n and f :: "CoreRecord \<Rightarrow> 'x option"
    using assms(2) by (cases "docs n") simp_all
  show ?thesis using assms(1) unfolding lex_ok_def by (simp add: assms(2) bind_map_option o_def r)
qed

lemma mapped_view:
  assumes rows: "ms_rows src = Some (map cr_Vector rs)" and dk: "distinct (map keyOf rs)" and len: "length rs < 2 ^ 64 - 1"
    and ok: "\<forall>r \<in> set rs. record_ok E r"
    and s: "sg_ordinals s = placedKeys rs" "vectorAt s = Some src" "nextID s = of_nat (length rs + 1)" "scanned (named s)"
      "distinct (map fst (sg_records s))"
    and recs: "\<And>n x. map_of (sg_records s) n = Some x \<longleftrightarrow> (\<exists>p < length rs. n = ordinalAt p \<and> x = strip ((rs ! p)\<lparr>cr_Vector := []\<rparr>))"
    and nm: "\<And>p. p < length rs \<Longrightarrow> denseOf (ordinalAt p) (named s) = cr_Vectors (rs ! p) \<and> multiOf (ordinalAt p) (named s) = MultiVectors (rs ! p)"
    and i: "iv (sg_index s)" "vec (sg_index s) = map_of (zip (ordinalsFor rs) (map cr_Vector rs))"
    and ia: "indexes_agree E s"
  shows "seg_inv E iv vec s" and "segView s = tableOf rs"
proof -
  have nx: "unat (nextID s) = Suc (length rs)"
    unfolding s(3) unat_of_nat using len by simp
  have ka: "keys_agree s"
    unfolding keys_agree_def s(1) using s(5) map_of_placedKeys(2) [OF dk]
  proof (intro conjI allI)
    fix k n
    show "map_of (placedKeys rs) k = Some n \<longleftrightarrow> (\<exists>r. map_of (sg_records s) n = Some r \<and> keyOf r = k)"
      unfolding map_of_placedKeys(1) [OF dk] recs by auto
  qed
  have rg: "records_good E s"
    unfolding records_good_def
  proof (intro conjI allI impI)
    show "nextID s \<noteq> 0" using nx by auto
    fix n x
    assume "map_of (sg_records s) n = Some x"
    then obtain p where p: "p < length rs" "n = ordinalAt p" "x = strip ((rs ! p)\<lparr>cr_Vector := []\<rparr>)" using recs by blast
    have pl: "p < 2 ^ 64 - 1" using p(1) len by linarith
    show "record_ok E x" using p(1,3) ok by (simp add: record_ok_def)
    show "n \<noteq> 0" using p(2) ordinalAt_nz [OF pl] by simp
    show "n < nextID s" unfolding word_less_nat_alt nx p(2) unat_ordinalAt [OF pl] using p(1) by simp
    show "cr_Vectors x = []" "MultiVectors x = []" using p(3) by simp_all
  qed
  have di: "distinct (ordinalsFor rs)" "length (ordinalsFor rs) = length rs"
    using map_of_placedRecords(2) [OF len] by (simp_all add: ordinalsFor_def placedRecords_def o_def)
  have at: "vec (sg_index s) (ordinalAt p) = Some (cr_Vector (rs ! p))" if "p < length rs" for p
  proof -
    have "(ordinalAt p, cr_Vector (rs ! p)) \<in> set (zip (ordinalsFor rs) (map cr_Vector rs))"
      using that di(2) by (auto simp: in_set_zip ordinalsFor_def intro!: exI [of _ p])
    then show ?thesis unfolding i(2) by (intro map_of_is_SomeI) (simp_all add: di)
  qed
  have vo: "vectorOf s (ordinalAt p) (strip ((rs ! p)\<lparr>cr_Vector := []\<rparr>)) = Inr (cr_Vector (rs ! p))" if "p < length rs" for p
  proof -
    have "p < 2 ^ 64 - 1" using that len by linarith
    then show ?thesis using VectorCopy_ordinal [OF rows, of p] that s(2) by (simp add: vectorOf_def)
  qed
  have "dom (vec (sg_index s)) = dom (map_of (sg_records s))"
  proof -
    have "dom (vec (sg_index s)) = ordinalAt ` {0..<length rs}"
      unfolding i(2) using di(2) by (simp add: dom_map_of_zip) (simp add: ordinalsFor_def)
    moreover have "dom (map_of (sg_records s)) = ordinalAt ` {0..<length rs}"
      unfolding dom_def using recs by (auto simp del: of_nat_Suc)
    ultimately show ?thesis by simp
  qed
  moreover have "\<exists>v. vec (sg_index s) n = Some v \<and> vectorOf s n x = Inr v" if x: "map_of (sg_records s) n = Some x" for n x
  proof -
    obtain p where "p < length rs" "n = ordinalAt p" "x = strip ((rs ! p)\<lparr>cr_Vector := []\<rparr>)" using x recs by blast
    then show ?thesis using at vo by (intro exI [of _ "cr_Vector (rs ! p)"]) (simp del: of_nat_Suc)
  qed
  ultimately have "vectors_agree vec s" unfolding vectors_agree_def by blast
  then show inv: "seg_inv E iv vec s" using ka rg ia i(1) s(4) by (simp add: seg_inv_def)
  show "segView s = tableOf rs"
  proof (rule table_eqI)
    fix k r
    have "fullRecord s (ordinalAt p) = rs ! p" if "p < length rs" for p
    proof -
      have "map_of (sg_records s) (ordinalAt p) = Some (strip ((rs ! p)\<lparr>cr_Vector := []\<rparr>))" using recs that by blast
      from fullRecord_named [OF s(4) rg this] show ?thesis unfolding vo [OF that] using nm [OF that] by simp
    qed
    then have "segView s k = Some r \<longleftrightarrow> (\<exists>p < length rs. keyOf (rs ! p) = k \<and> r = rs ! p)"
      using map_of_placedKeys(1) [OF dk, of k] unfolding segView_def s(1) by (auto simp del: of_nat_Suc)
    also have "\<dots> \<longleftrightarrow> tableOf rs k = Some r" unfolding tableOf_Some [OF dk] by (auto simp: in_set_conv_nth)
    finally show "segView s k = Some r \<longleftrightarrow> tableOf rs k = Some r" .
  qed
qed

context segment_env
begin

lemma NewMapped_table:
  assumes c: "exact_config c" and src: "ms_dimension src = Dimension c" "ms_rows src = Some (map cr_Vector rs)"
    and rs: "\<forall>r \<in> set rs. record_ok E r \<and> int (length (cr_Vector r)) = Dimension c \<and> inStoredForm c r"
    and dk: "distinct (map keyOf rs)" and len: "length rs < 2 ^ 64 - 1"
  shows "\<exists>s. NewMappedWithPQ E c rs src None pq = Inr s \<and> seg_inv E iv vec s \<and> readOnly s \<and> dim (sg_index s) = Dimension c
    \<and> metric (sg_index s) = Metric c \<and> segView s = tableOf rs"
proof -
  have dp: "distinct (ordinalsFor rs)" "length (ordinalsFor rs) = length rs" "0 \<notin> set (ordinalsFor rs)"
    using map_of_placedRecords(2) [OF len] ordinalAt_nz len
    by (auto simp: ordinalsFor_def placedRecords_def o_def simp del: of_nat_Suc)
  obtain i where i: "newMapped E src (Metric c) (ordinalsFor rs) = Inr i" "iv i" "dim i = Dimension c" "metric i = Metric c"
      "vec i = map_of (zip (ordinalsFor rs) (map cr_Vector rs))"
    using new_mapped [OF src(2), of "ordinalsFor rs" "Metric c"] dp rs src(1) c by (auto simp: exact_config_def)
  define s0 where "s0 = (emptySegment i (Metric c))\<lparr>nextID := of_nat (length rs + 1), readOnly := True, vectorAt := Some src, sg_metadata := NewIndex\<rparr>"
  have ok: "\<forall>r \<in> set rs. record_ok E r" using rs by blast
  obtain l m where lm: "fold (placeRecord E False True) (enumerate 0 rs) s0
        = s0\<lparr>sg_records := placedRecords rs, sg_ordinals := placedKeys rs, lexical := l, sg_metadata := m\<rparr>"
      "lex_ok (lexLib E) l (map_of (placedRecords rs))"
      "index_ok (textLib E) m (\<lambda>n. map_option (\<lambda>r. doc_of (textLib E) (Metadata r)) (map_of (placedRecords rs) n))"
    using sealedSegment_places [OF dk len ok s0_def] by blast
  define s1 where "s1 = s0\<lparr>sg_records := placedRecords rs, sg_ordinals := placedKeys rs, lexical := l, sg_metadata := m\<rparr>"
  have s1: "sealedSegment E c i (Some src) rs None = s1"
    unfolding sealedSegment_def using lm(1) by (simp add: s0_def s1_def)
  note [simp] = s1_def s0_def emptySegment_def
  have rec: "recordAt s1 (ordinalAt p) = (rs ! p)\<lparr>cr_Vector := []\<rparr>" "map_of (placedRecords rs) (ordinalAt p) = Some ((rs ! p)\<lparr>cr_Vector := []\<rparr>)"
    if "p < length rs" for p
  proof -
    show m: "map_of (placedRecords rs) (ordinalAt p) = Some ((rs ! p)\<lparr>cr_Vector := []\<rparr>)"
      using map_of_placedRecords(1) [OF len] that by blast
    then show "recordAt s1 (ordinalAt p) = (rs ! p)\<lparr>cr_Vector := []\<rparr>" by (simp add: recordAt_def del: of_nat_Suc)
  qed
  have "\<exists>s2. initNamed E c s1 = Inr s2 \<and> scanned (named s2) \<and> s2 = s1\<lparr>named := named s2, sg_records := sg_records s2\<rparr>
      \<and> map fst (sg_records s2) = map fst (placedRecords rs) \<and> map_of (sg_records s2) = (\<lambda>n. map_option strip (map_of (placedRecords rs) n))
      \<and> (\<forall>p < length rs. denseOf (ordinalAt p) (named s2) = cr_Vectors (rs ! p) \<and> multiOf (ordinalAt p) (named s2) = MultiVectors (rs ! p))"
  proof (cases "Vectors c = []")
    case True
    have "cr_Vectors r = [] \<and> MultiVectors r = []" if "r \<in> set rs" for r
    proof -
      have "declaredConfigs c = []" using True by (simp add: declaredConfigs_def VectorFieldNames_def)
      then have "storedNamed [] r = r" using rs that by (simp add: inStoredForm_def)
      moreover have "cr_Vectors (storedNamed [] r) = []" "MultiVectors (storedNamed [] r) = []" by (simp_all add: storedNamed_def map_filter_simps)
      ultimately show ?thesis by simp
    qed
    then have p: "\<forall>p < length rs. cr_Vectors (rs ! p) = [] \<and> MultiVectors (rs ! p) = []" by simp
    have "map_of (placedRecords rs) n = map_option strip (map_of (placedRecords rs) n)" for n
    proof (cases "map_of (placedRecords rs) n")
      case (Some x)
      then obtain q where "q < length rs" "x = (rs ! q)\<lparr>cr_Vector := []\<rparr>" using map_of_placedRecords(1) [OF len, of n x] by blast
      then show ?thesis using Some p by simp
    qed simp
    then show ?thesis using True p by (intro exI [of _ s1]) (simp add: initNamed_def scanned_def fun_eq_iff)
  next
    case False
    obtain fs where fs: "declareFields E c = Inr fs" "scanned fs" "fieldConfigs fs = declaredConfigs c" using declareFields_exact [OF c] by blast
    let ?s = "s1\<lparr>named := fs\<rparr>" and ?ns = "map fst (placedRecords rs)"
    have ns: "set ?ns = ordinalAt ` {0..<length rs}" by (auto simp: placedRecords_def simp del: of_nat_Suc)
    have "\<forall>n \<in> set ?ns. map_of (sg_records ?s) n \<noteq> None" unfolding ns using rec(2) by (auto simp del: of_nat_Suc)
    then obtain s2 where s2: "moveNamed E ?ns ?s = Inr s2" "scanned (named s2)" "s2 = ?s\<lparr>named := named s2, sg_records := sg_records s2\<rparr>"
        "map fst (sg_records s2) = map fst (sg_records ?s)"
        "map_of (sg_records s2) = (\<lambda>n. if n \<in> set ?ns then map_option strip (map_of (sg_records ?s) n) else map_of (sg_records ?s) n)"
        "\<forall>n \<in> set ?ns. denseOf n (named s2) = cr_Vectors (storedNamed (fieldConfigs (named ?s)) (recordAt ?s n))
           \<and> multiOf n (named s2) = MultiVectors (storedNamed (fieldConfigs (named ?s)) (recordAt ?s n))"
      using moveNamed_scan [of ?s ?ns E] fs(2) map_of_placedRecords(2) [OF len] by auto
    have "map_of (sg_records s2) n = map_option strip (map_of (placedRecords rs) n)" for n
      using s2(5) map_of_eq_None_iff [of "placedRecords rs" n] by auto
    moreover have "denseOf (ordinalAt p) (named s2) = cr_Vectors (rs ! p) \<and> multiOf (ordinalAt p) (named s2) = MultiVectors (rs ! p)" if p: "p < length rs" for p
    proof -
      have "recordAt ?s (ordinalAt p) = (rs ! p)\<lparr>cr_Vector := []\<rparr>" using rec(1) [OF p] by (simp add: recordAt_def del: of_nat_Suc)
      moreover have "storedNamed (declaredConfigs c) (rs ! p) = rs ! p" using rs p by (simp add: inStoredForm_def)
      ultimately show ?thesis using s2(6) fs(3) p unfolding ns by (simp del: of_nat_Suc)
    qed
    moreover have "initNamed E c s1 = Inr s2" using False fs(1) s2(1) by (simp add: initNamed_def)
    moreover have "s2 = s1\<lparr>named := named s2, sg_records := sg_records s2\<rparr>" using s2(3) by simp
    ultimately show ?thesis using s2(2,4) by (intro exI [of _ s2]) (simp add: fun_eq_iff del: of_nat_Suc)
  qed
  then obtain s2 where s2: "initNamed E c s1 = Inr s2" "scanned (named s2)" "s2 = s1\<lparr>named := named s2, sg_records := sg_records s2\<rparr>"
      "map fst (sg_records s2) = map fst (placedRecords rs)" "map_of (sg_records s2) = (\<lambda>n. map_option strip (map_of (placedRecords rs) n))"
      "\<forall>p < length rs. denseOf (ordinalAt p) (named s2) = cr_Vectors (rs ! p) \<and> multiOf (ordinalAt p) (named s2) = MultiVectors (rs ! p)"
    by blast
  have fields: "sg_ordinals s2 = placedKeys rs" "vectorAt s2 = Some src" "nextID s2 = of_nat (length rs + 1)" "sg_index s2 = i"
      "sg_metadata s2 = m" "lexical s2 = l" "readOnly s2"
    by (subst s2(3), simp)+
  have rows: "(\<lambda>n. map_option (\<lambda>r. doc_of (textLib E) (Metadata r)) (map_of (sg_records s2) n))
      = (\<lambda>n. map_option (\<lambda>r. doc_of (textLib E) (Metadata r)) (map_of (placedRecords rs) n))"
    unfolding s2(5) by (simp add: option.map_comp o_def)
  have ia: "indexes_agree E s2"
    unfolding indexes_agree_def rows fields using lm(3) lex_ok_strip [OF lm(2), of "map_of (sg_records s2)"] by (simp add: s2(5))
  have recs: "map_of (sg_records s2) n = Some x \<longleftrightarrow> (\<exists>p < length rs. n = ordinalAt p \<and> x = strip ((rs ! p)\<lparr>cr_Vector := []\<rparr>))" for n x
    unfolding s2(5) using map_of_placedRecords(1) [OF len, of n] by (auto simp del: of_nat_Suc)
  note mv = mapped_view [OF src(2) dk len ok fields(1-3) s2(2) _ recs _ _ _ ia]
  have "seg_inv E iv vec s2" "segView s2 = tableOf rs"
    using mv [of iv vec] s2(4,6) map_of_placedRecords(2) [OF len] i(2,5) fields(4) by simp_all
  moreover have "NewMappedWithPQ E c rs src None pq = Inr s2"
    using c src(1) i(1) s1 s2(1) by (simp add: NewMappedWithPQ_def UsesPQ_def exact_config_def del: s1_def)
  ultimately show ?thesis using i(3,4) fields(4,7) by auto
qed

end

end
