(* ===== verification/Shard.thy ===== *)
theory Shard
  imports Segment_Props
begin

text \<open>
  A shard, \<open>internal/shard/shard.go\<close>: a mutable segment over an immutable base with tombstones for deleted records of the base. A
  checkpoint replaces the base; readers may pin the base they started with, and a base that was replaced is closed when
  its last reader is gone. Generations live in a store under their number, the pointers of the code.
\<close>

subsection \<open>State\<close>

record 'i generation =
  gen_segment :: "'i Segment"
  readers :: int
  retired :: bool

record 'i Shard =
  sh_id :: u32
  sh_config :: CollectionConfig
  active :: "'i Segment"
  immutable :: "u64 option"
  generations :: "(u64 \<times> 'i generation) list"
  nextGen :: u64
  pinned :: int
  closed :: bool
  tombstones :: "string list"
  sh_count :: int

text \<open>A snapshot names a generation; \<open>snap_done\<close> is its \<open>sync.Once\<close>.\<close>

record Snapshot =
  snap_gen :: u64
  snap_done :: bool

definition baseSegment :: "'i Shard \<Rightarrow> 'i Segment option" where
  "baseSegment sh = map_option gen_segment (Option.bind (immutable sh) (map_of (generations sh)))"

definition ShardNew :: "'i seg_env \<Rightarrow> u32 \<Rightarrow> CollectionConfig \<Rightarrow> 'i Shard result" where
  "ShardNew E n config =
     and_then (SegNew E config) (\<lambda>a.
     Inr \<lparr>sh_id = n, sh_config = config, active = a, immutable = None, generations = [], nextGen = 0, pinned = 0, closed = False,
          tombstones = [], sh_count = 0\<rparr>)"

subsection \<open>Records\<close>

definition ShardUpsert :: "'i seg_env \<Rightarrow> 'i Shard \<Rightarrow> CoreRecord \<Rightarrow> unit result \<times> 'i Shard" where
  "ShardUpsert E sh r =
     (let k = keyOf r;
          inActive = SegHas (active sh) (Namespace r) (cr_ID r);
          existed = (inActive \<or> k \<notin> set (tombstones sh)
                       \<and> (case baseSegment sh of None \<Rightarrow> False | Some b \<Rightarrow> SegHas b (Namespace r) (cr_ID r))) in
      case SegUpsert E (active sh) r of
        (Inl e, a) \<Rightarrow> (Inl e, sh\<lparr>active := a\<rparr>)
      | (Inr _, a) \<Rightarrow>
          (Inr (), sh\<lparr>active := a, tombstones := removeAll k (tombstones sh),
                      sh_count := if existed then sh_count sh else sh_count sh + 1\<rparr>))"

definition ShardGet :: "'i Shard \<Rightarrow> string \<Rightarrow> string \<Rightarrow> CoreRecord result" where
  "ShardGet sh namespace uid =
     (case SegGet (active sh) namespace uid of
        Inr r \<Rightarrow> Inr r
      | Inl e \<Rightarrow>
          if e \<noteq> ErrNotFound then Inl e
          else if recordKey namespace uid \<in> set (tombstones sh) then Inl ErrNotFound
          else case baseSegment sh of None \<Rightarrow> Inl ErrNotFound | Some b \<Rightarrow> SegGet b namespace uid)"

definition ShardDelete :: "'i seg_env \<Rightarrow> 'i Shard \<Rightarrow> string \<Rightarrow> string \<Rightarrow> unit result \<times> 'i Shard" where
  "ShardDelete E sh namespace uid =
     (let k = recordKey namespace uid;
          inActive = SegGet (active sh) namespace uid;
          inBase = (case baseSegment sh of None \<Rightarrow> Inl ErrNotFound | Some b \<Rightarrow> SegGet b namespace uid) in
      case inBase of
        Inl e \<Rightarrow>
          if e \<noteq> ErrNotFound then (Inl e, sh)
          else (case inActive of
             Inl e \<Rightarrow> (Inl e, sh)
           | Inr _ \<Rightarrow>
               (case SegDelete E (active sh) namespace uid of
                  (Inl e, a) \<Rightarrow> (Inl e, sh\<lparr>active := a\<rparr>)
                | (Inr _, a) \<Rightarrow> (Inr (), sh\<lparr>active := a, sh_count := sh_count sh - 1\<rparr>)))
      | Inr _ \<Rightarrow>
          (case inActive of
             Inl e \<Rightarrow>
               if e \<noteq> ErrNotFound then (Inl e, sh)
               else if k \<in> set (tombstones sh) then (Inl ErrNotFound, sh)
               else (Inr (), sh\<lparr>tombstones := List.insert k (tombstones sh), sh_count := sh_count sh - 1\<rparr>)
           | Inr _ \<Rightarrow>
               (case SegDelete E (active sh) namespace uid of
                  (Inl e, a) \<Rightarrow> (Inl e, sh\<lparr>active := a\<rparr>)
                | (Inr _, a) \<Rightarrow>
                    (Inr (), sh\<lparr>active := a, tombstones := List.insert k (tombstones sh), sh_count := sh_count sh - 1\<rparr>))))"

subsection \<open>Search\<close>

definition limitResults :: "int \<Rightarrow> SearchResult list \<Rightarrow> SearchResult list result" where
  "limitResults k results =
     (let rs = sortBy betterResult results in
      if int (length rs) > k then (if k < 0 then Inl GoPanic else Inr (take (nat k) rs)) else Inr rs)"

definition ShardSearch ::
    "'i seg_env \<Rightarrow> 'i Shard \<Rightarrow> string \<Rightarrow> f32 list \<Rightarrow> int \<Rightarrow> Expr option \<Rightarrow> int \<Rightarrow> SearchResult list result" where
  "ShardSearch E sh namespace vector k flt efSearch =
     and_then (SegSearch E (active sh) namespace vector k flt [] efSearch) (\<lambda>results.
     and_then (case baseSegment sh of
         None \<Rightarrow> Inr results
       | Some b \<Rightarrow>
           and_then (SegSearch E b namespace vector k flt (SegKeys (active sh) @ tombstones sh) efSearch) (\<lambda>base.
           Inr (results @ base)))
       (limitResults k))"

definition ShardSearchHybrid ::
    "'i seg_env \<Rightarrow> 'i Shard \<Rightarrow> string \<Rightarrow> HybridQuery \<Rightarrow> Expr option \<Rightarrow> SearchResult list result" where
  "ShardSearchHybrid E sh namespace query flt =
     and_then (SearchHybrid E (active sh) namespace query flt []) (\<lambda>results.
     and_then (case baseSegment sh of
         None \<Rightarrow> Inr results
       | Some b \<Rightarrow>
           and_then (SearchHybrid E b namespace query flt (SegKeys (active sh) @ tombstones sh)) (\<lambda>base.
           Inr (results @ base)))
       (limitResults (hq_TopK query)))"

definition ShardSearchNamed ::
    "'i seg_env \<Rightarrow> 'i Shard \<Rightarrow> string \<Rightarrow> NamedQuery \<Rightarrow> Expr option \<Rightarrow> SearchResult list result" where
  "ShardSearchNamed E sh namespace query flt =
     and_then (SearchNamed E (active sh) namespace query flt []) (\<lambda>results.
     and_then (case baseSegment sh of
         None \<Rightarrow> Inr results
       | Some b \<Rightarrow>
           and_then (SearchNamed E b namespace query flt (SegKeys (active sh) @ tombstones sh)) (\<lambda>base.
           Inr (results @ base)))
       (limitResults (nq_TopK query)))"

definition ShardRecords :: "'i Shard \<Rightarrow> CoreRecord list" where
  "ShardRecords sh =
     (let base = (case baseSegment sh of None \<Rightarrow> [] | Some b \<Rightarrow> SegRecords b);
          m0 = fold (\<lambda>r m. AList.update (keyOf r) r m) base [];
          m1 = fold AList.delete (tombstones sh) m0;
          m2 = fold (\<lambda>r m. AList.update (keyOf r) r m) (SegRecords (active sh)) m1 in
      sortBy recordLess (map snd m2))"

definition CheckpointDelta :: "'i Shard \<Rightarrow> CoreRecord list \<times> string list" where
  "CheckpointDelta sh = (SegRecords (active sh), sort (tombstones sh))"

subsection \<open>Generations\<close>

text \<open>The base that is replaced is closed at once if nobody reads it.\<close>

definition retire :: "'i seg_env \<Rightarrow> 'i generation \<Rightarrow> 'i generation" where
  "retire E g = (if readers g = 0 then g\<lparr>retired := True, gen_segment := SegClose E (gen_segment g)\<rparr> else g\<lparr>retired := True\<rparr>)"

definition retireBase :: "'i seg_env \<Rightarrow> 'i Shard \<Rightarrow> (u64 \<times> 'i generation) list" where
  "retireBase E sh =
     (case immutable sh of
        None \<Rightarrow> generations sh
      | Some old \<Rightarrow> (case map_of (generations sh) old of
            None \<Rightarrow> generations sh
          | Some g \<Rightarrow> AList.update old (retire E g) (generations sh)))"

definition InstallImmutable :: "'i seg_env \<Rightarrow> 'i Shard \<Rightarrow> 'i Segment \<Rightarrow> unit result \<times> 'i Shard" where
  "InstallImmutable E sh b =
     (case SegNew E (sh_config sh) of
        Inl e \<Rightarrow> (Inl e, sh)
      | Inr a \<Rightarrow>
          let n = nextGen sh + 1 in
          (Inr (), sh\<lparr>nextGen := n, immutable := Some n, active := a, tombstones := [], sh_count := SegLen E b,
             generations := AList.update n \<lparr>gen_segment = b, readers = 0, retired = False\<rparr> (retireBase E sh)\<rparr>))"

definition PinSnapshot :: "'i Shard \<Rightarrow> Snapshot result \<times> 'i Shard" where
  "PinSnapshot sh =
     (if closed sh then (Inl (ErrMsg ''shard is closed''), sh)
      else case immutable sh of
        None \<Rightarrow> (Inl (ErrInvalidArgument ''shard has no checkpoint generation''), sh)
      | Some n \<Rightarrow>
          (case map_of (generations sh) n of
             None \<Rightarrow> (Inl GoPanic, sh)
           | Some g \<Rightarrow>
               (Inr \<lparr>snap_gen = n, snap_done = False\<rparr>,
                sh\<lparr>generations := AList.update n (g\<lparr>readers := readers g + 1\<rparr>) (generations sh), pinned := pinned sh + 1\<rparr>)))"

definition HasPinnedReaders :: "'i Shard \<Rightarrow> bool" where
  "HasPinnedReaders sh \<longleftrightarrow> pinned sh > 0"

definition release :: "'i seg_env \<Rightarrow> 'i Shard \<Rightarrow> u64 \<Rightarrow> 'i Shard" where
  "release E sh n =
     (case map_of (generations sh) n of
        None \<Rightarrow> sh
      | Some g \<Rightarrow>
          if readers g \<le> 0 then sh
          else
            let g1 = g\<lparr>readers := readers g - 1\<rparr>;
                g2 = (if retired g1 \<and> readers g1 = 0 then g1\<lparr>gen_segment := SegClose E (gen_segment g1)\<rparr> else g1) in
            sh\<lparr>generations := AList.update n g2 (generations sh), pinned := pinned sh - 1\<rparr>)"

definition SnapshotClose :: "'i seg_env \<Rightarrow> 'i Shard \<Rightarrow> Snapshot \<Rightarrow> Snapshot \<times> 'i Shard" where
  "SnapshotClose E sh snap = (if snap_done snap then (snap, sh) else (snap\<lparr>snap_done := True\<rparr>, release E sh (snap_gen snap)))"

definition SnapshotGet :: "'i Shard \<Rightarrow> Snapshot \<Rightarrow> string \<Rightarrow> string \<Rightarrow> CoreRecord result" where
  "SnapshotGet sh snap namespace uid =
     (case map_of (generations sh) (snap_gen snap) of None \<Rightarrow> Inl GoPanic | Some g \<Rightarrow> SegGet (gen_segment g) namespace uid)"

definition SnapshotRecords :: "'i Shard \<Rightarrow> Snapshot \<Rightarrow> CoreRecord list" where
  "SnapshotRecords sh snap =
     (case map_of (generations sh) (snap_gen snap) of None \<Rightarrow> [] | Some g \<Rightarrow> SegRecords (gen_segment g))"

definition SnapshotSearch ::
    "'i seg_env \<Rightarrow> 'i Shard \<Rightarrow> Snapshot \<Rightarrow> string \<Rightarrow> f32 list \<Rightarrow> int \<Rightarrow> Expr option \<Rightarrow> int \<Rightarrow> SearchResult list result" where
  "SnapshotSearch E sh snap namespace vector k flt efSearch =
     (case map_of (generations sh) (snap_gen snap) of
        None \<Rightarrow> Inl GoPanic
      | Some g \<Rightarrow> SegSearch E (gen_segment g) namespace vector k flt [] efSearch)"

definition ShardClose :: "'i seg_env \<Rightarrow> 'i Shard \<Rightarrow> 'i Shard" where
  "ShardClose E sh = sh\<lparr>closed := True, generations := retireBase E sh\<rparr>"

end
