(* ===== verification/Collection.thy ===== *)
theory Collection
  imports Shard Search_Merge
begin

text \<open>
  A collection: its shards, the routing of records to them, the version counter, and the operations that span all shards.
  The clock of an upsert is an argument. The shards of a search are visited by workers in any order in the code; their searches
  change nothing and the first error in shard order is reported, so one pass in that order gives the same answer.
\<close>

subsection \<open>State\<close>

record 'i Collection =
  co_config :: CollectionConfig
  co_shards :: "'i Shard list"
  co_version :: u64

record CollSnapshot =
  cs_config :: CollectionConfig
  cs_shards :: "Snapshot list"
  cs_done :: bool

definition CollNew :: "'i seg_env \<Rightarrow> CollectionConfig \<Rightarrow> 'i Collection result" where
  "CollNew E config =
     (let config = Normalized config in
      and_then (Validate config) (\<lambda>_.
      and_then (mapR (\<lambda>i. ShardNew E (of_nat i) config) [0..<nat (ShardCount config)]) (\<lambda>shards.
      Inr \<lparr>co_config = config, co_shards = shards, co_version = 0\<rparr>)))"

subsection \<open>Routing\<close>

definition routeHash :: "string \<Rightarrow> string \<Rightarrow> u64" where
  "routeHash namespace uid = fnv_write (bytes_of_string uid) (fnv_write [0] (fnv_write (bytes_of_string namespace) fnv_offset))"

definition RouteShard :: "'i Collection \<Rightarrow> string \<Rightarrow> string \<Rightarrow> u32" where
  "RouteShard c namespace uid = ucast (routeHash namespace uid mod of_nat (length (co_shards c)))"

text \<open>Work on one shard; an index out of range panics.\<close>

definition readShard :: "'i Collection \<Rightarrow> u32 \<Rightarrow> ('i Shard \<Rightarrow> 'a result) \<Rightarrow> 'a result" where
  "readShard c n f = (if unat n < length (co_shards c) then f (co_shards c ! unat n) else Inl GoPanic)"

definition onShard :: "'i Collection \<Rightarrow> u32 \<Rightarrow> ('i Shard \<Rightarrow> 'a result \<times> 'i Shard) \<Rightarrow> 'a result \<times> 'i Collection" where
  "onShard c n f =
     (if unat n < length (co_shards c)
      then (case f (co_shards c ! unat n) of (r, sh) \<Rightarrow> (r, c\<lparr>co_shards := (co_shards c)[unat n := sh]\<rparr>))
      else (Inl GoPanic, c))"

subsection \<open>Writes\<close>

definition validateUpsert :: "CollectionConfig \<Rightarrow> CoreRecord \<Rightarrow> CoreRecord result" where
  "validateUpsert config r =
     and_then (ValidateVector (cr_Vector r) (Dimension config)) (\<lambda>_.
     and_then (case SparseVector r of None \<Rightarrow> Inr () | Some sv \<Rightarrow> ValidateSparseVector sv) (\<lambda>_.
     and_then (ValidateText (Text r)) (\<lambda>_.
     if cr_ID r = [] then Inl (ErrInvalidArgument ''record id is required'')
     else PrepareNamedVectors config r)))"

definition PrepareUpsert :: "int \<Rightarrow> 'i Collection \<Rightarrow> CoreRecord \<Rightarrow> CoreRecord result \<times> 'i Collection" where
  "PrepareUpsert now c r =
     (case validateUpsert (co_config c) r of
        Inl e \<Rightarrow> (Inl e, c)
      | Inr p \<Rightarrow>
          let v = co_version c + 1 in
          (Inr (p\<lparr>cr_Version := v, Timestamp := now\<rparr>), c\<lparr>co_version := v\<rparr>))"

definition ApplyUpsert :: "'i seg_env \<Rightarrow> 'i Collection \<Rightarrow> CoreRecord \<Rightarrow> unit result \<times> 'i Collection" where
  "ApplyUpsert E c r = onShard c (RouteShard c (Namespace r) (cr_ID r)) (\<lambda>sh. ShardUpsert E sh r)"

definition CollUpsert :: "'i seg_env \<Rightarrow> int \<Rightarrow> 'i Collection \<Rightarrow> CoreRecord \<Rightarrow> CoreRecord result \<times> 'i Collection" where
  "CollUpsert E now c r =
     (case PrepareUpsert now c r of
        (Inl e, c1) \<Rightarrow> (Inl e, c1)
      | (Inr p, c1) \<Rightarrow> (case ApplyUpsert E c1 p of (Inl e, c2) \<Rightarrow> (Inl e, c2) | (Inr _, c2) \<Rightarrow> (Inr p, c2)))"

definition raiseVersion :: "u64 \<Rightarrow> 'i Collection \<Rightarrow> 'i Collection" where
  "raiseVersion v c = (if co_version c \<ge> v then c else c\<lparr>co_version := v\<rparr>)"

definition Restore :: "'i seg_env \<Rightarrow> 'i Collection \<Rightarrow> CoreRecord \<Rightarrow> unit result \<times> 'i Collection" where
  "Restore E c r =
     (case and_then (ValidateVector (cr_Vector r) (Dimension (co_config c))) (\<lambda>_.
           and_then (case SparseVector r of None \<Rightarrow> Inr () | Some sv \<Rightarrow> ValidateSparseVector sv) (\<lambda>_.
           ValidateText (Text r))) of
        Inl e \<Rightarrow> (Inl e, c)
      | Inr _ \<Rightarrow> ApplyUpsert E (raiseVersion (cr_Version r) c) r)"

definition CollDelete :: "'i seg_env \<Rightarrow> 'i Collection \<Rightarrow> string \<Rightarrow> string \<Rightarrow> unit result \<times> 'i Collection" where
  "CollDelete E c namespace uid =
     (case onShard c (RouteShard c namespace uid) (\<lambda>sh. ShardDelete E sh namespace uid) of
        (Inl e, c1) \<Rightarrow> (Inl e, c1)
      | (Inr _, c1) \<Rightarrow> (Inr (), c1\<lparr>co_version := co_version c1 + 1\<rparr>))"

definition ApplyDelete :: "'i seg_env \<Rightarrow> 'i Collection \<Rightarrow> string \<Rightarrow> string \<Rightarrow> unit result \<times> 'i Collection" where
  "ApplyDelete E c namespace uid =
     (case onShard c (RouteShard c namespace uid) (\<lambda>sh. ShardDelete E sh namespace uid) of
        (Inl e, c1) \<Rightarrow> (Inl e, c1)
      | (Inr _, c1) \<Rightarrow> (Inr (), c1\<lparr>co_version := co_version c1 + 1\<rparr>))"

subsection \<open>Reads\<close>

definition CollGet :: "'i Collection \<Rightarrow> string \<Rightarrow> string \<Rightarrow> CoreRecord result" where
  "CollGet c namespace uid = readShard c (RouteShard c namespace uid) (\<lambda>sh. ShardGet sh namespace uid)"

definition CollRecords :: "'i Collection \<Rightarrow> CoreRecord list" where
  "CollRecords c = concat (map ShardRecords (co_shards c))"

definition CollShardRecords :: "'i Collection \<Rightarrow> u32 \<Rightarrow> CoreRecord list result" where
  "CollShardRecords c n =
     (if unat n \<ge> length (co_shards c) then Inl (ErrInvalidArgument ''shard out of range'')
      else readShard c n (\<lambda>sh. Inr (ShardRecords sh)))"

definition ShardCheckpointDelta :: "'i Collection \<Rightarrow> u32 \<Rightarrow> (CoreRecord list \<times> string list) result" where
  "ShardCheckpointDelta c n =
     (if unat n \<ge> length (co_shards c) then Inl (ErrInvalidArgument ''shard out of range'')
      else readShard c n (\<lambda>sh. Inr (CheckpointDelta sh)))"

definition CollCount :: "'i Collection \<Rightarrow> int" where
  "CollCount c = sum_list (map sh_count (co_shards c))"

subsection \<open>Searches\<close>

definition searchOptions :: "int \<Rightarrow> int \<Rightarrow> unit result" where
  "searchOptions k efSearch =
     (if k \<le> 0 then Inl (ErrInvalidArgument ''top_k must be positive'')
      else if efSearch < 0 \<or> efSearch > 10000 then Inl (ErrInvalidArgument ''ef_search must be between 1 and 10000 when set'')
      else Inr ())"

definition CollSearch ::
    "'i seg_env \<Rightarrow> 'i Collection \<Rightarrow> string \<Rightarrow> f32 list \<Rightarrow> int \<Rightarrow> Expr option \<Rightarrow> int \<Rightarrow> SearchResult list result" where
  "CollSearch E c namespace vector k flt efSearch =
     and_then (ValidateVector vector (Dimension (co_config c))) (\<lambda>_.
     and_then (searchOptions k efSearch) (\<lambda>_.
     if length (co_shards c) = 1 then readShard c 0 (\<lambda>sh. ShardSearch E sh namespace vector k flt efSearch)
     else
       and_then (mapR (\<lambda>sh. ShardSearch E sh namespace vector k flt efSearch) (co_shards c)) (\<lambda>perShard. mergeTopK perShard k)))"

definition CollSearchHybrid ::
    "'i seg_env \<Rightarrow> 'i Collection \<Rightarrow> string \<Rightarrow> HybridQuery \<Rightarrow> Expr option \<Rightarrow> SearchResult list result" where
  "CollSearchHybrid E c namespace query flt =
     and_then (HybridValidate query (Dimension (co_config c))) (\<lambda>_.
     and_then (mapR (\<lambda>sh. ShardSearchHybrid E sh namespace query flt) (co_shards c)) (\<lambda>perShard. mergeTopK perShard (hq_TopK query)))"

definition CollSearchNamed ::
    "'i seg_env \<Rightarrow> 'i Collection \<Rightarrow> string \<Rightarrow> NamedQuery \<Rightarrow> Expr option \<Rightarrow> SearchResult list result" where
  "CollSearchNamed E c namespace query flt =
     and_then (NamedValidate query (co_config c)) (\<lambda>_.
     and_then (mapR (\<lambda>sh. ShardSearchNamed E sh namespace query flt) (co_shards c)) (\<lambda>perShard. mergeTopK perShard (nq_TopK query)))"

definition SearchShard ::
    "'i seg_env \<Rightarrow> 'i Collection \<Rightarrow> u32 \<Rightarrow> string \<Rightarrow> f32 list \<Rightarrow> int \<Rightarrow> Expr option \<Rightarrow> int \<Rightarrow> SearchResult list result" where
  "SearchShard E c n namespace vector k flt efSearch =
     and_then (ValidateVector vector (Dimension (co_config c))) (\<lambda>_.
     and_then (searchOptions k efSearch) (\<lambda>_.
     if unat n \<ge> length (co_shards c) then Inl (ErrInvalidArgument ''shard ID out of range'')
     else readShard c n (\<lambda>sh. ShardSearch E sh namespace vector k flt efSearch)))"

definition SearchShardHybrid ::
    "'i seg_env \<Rightarrow> 'i Collection \<Rightarrow> u32 \<Rightarrow> string \<Rightarrow> HybridQuery \<Rightarrow> Expr option \<Rightarrow> SearchResult list result" where
  "SearchShardHybrid E c n namespace query flt =
     and_then (HybridValidate query (Dimension (co_config c))) (\<lambda>_.
     if unat n \<ge> length (co_shards c) then Inl (ErrInvalidArgument ''shard ID out of range'')
     else readShard c n (\<lambda>sh. ShardSearchHybrid E sh namespace query flt))"

definition SearchShardNamed ::
    "'i seg_env \<Rightarrow> 'i Collection \<Rightarrow> u32 \<Rightarrow> string \<Rightarrow> NamedQuery \<Rightarrow> Expr option \<Rightarrow> SearchResult list result" where
  "SearchShardNamed E c n namespace query flt =
     and_then (NamedValidate query (co_config c)) (\<lambda>_.
     if unat n \<ge> length (co_shards c) then Inl (ErrInvalidArgument ''shard ID out of range'')
     else readShard c n (\<lambda>sh. ShardSearchNamed E sh namespace query flt))"

subsection \<open>Checkpoints\<close>

text \<open>The loop before every installation: all records belong to the shard, and the counter passes their versions. A record of
  another shard ends the loop after the counter was already raised by the records before it.\<close>

fun adoptRecords :: "u32 \<Rightarrow> string \<Rightarrow> CoreRecord list \<Rightarrow> 'i Collection \<Rightarrow> unit result \<times> 'i Collection" where
  "adoptRecords n complaint [] c = (Inr (), c)"
| "adoptRecords n complaint (r # rs) c =
     (if RouteShard c (Namespace r) (cr_ID r) \<noteq> n then (Inl (ErrMsg complaint), c)
      else adoptRecords n complaint rs (raiseVersion (cr_Version r) c))"

definition installBase ::
    "'i seg_env \<Rightarrow> u32 \<Rightarrow> string \<Rightarrow> CoreRecord list \<Rightarrow> 'i Segment result \<Rightarrow> 'i Collection \<Rightarrow> unit result \<times> 'i Collection" where
  "installBase E n complaint rs built c =
     (if unat n \<ge> length (co_shards c) then (Inl (ErrInvalidArgument ''shard out of range''), c)
      else case adoptRecords n complaint rs c of
        (Inl e, c1) \<Rightarrow> (Inl e, c1)
      | (Inr _, c1) \<Rightarrow>
          (case built of Inl e \<Rightarrow> (Inl e, c1) | Inr b \<Rightarrow> onShard c1 n (\<lambda>sh. InstallImmutable E sh b)))"

definition InstallRecordsShard ::
    "'i seg_env \<Rightarrow> u32 \<Rightarrow> CoreRecord list \<Rightarrow> Index option \<Rightarrow> bytes option \<Rightarrow> 'i Collection \<Rightarrow> unit result \<times> 'i Collection" where
  "InstallRecordsShard E n rs metadataIndex pqData c =
     installBase E n ''snapshot record routed to wrong shard'' rs (NewImmutableWithPQ E (co_config c) rs metadataIndex pqData) c"

definition ReplaceShardRecords :: "'i seg_env \<Rightarrow> u32 \<Rightarrow> CoreRecord list \<Rightarrow> 'i Collection \<Rightarrow> unit result \<times> 'i Collection" where
  "ReplaceShardRecords E n rs c = InstallRecordsShard E n rs None None c"

definition InstallMappedShard ::
    "'i seg_env \<Rightarrow> u32 \<Rightarrow> CoreRecord list \<Rightarrow> MappedSource \<Rightarrow> Index option \<Rightarrow> bytes option \<Rightarrow> 'i Collection \<Rightarrow> unit result \<times> 'i Collection" where
  "InstallMappedShard E n rs source metadataIndex pqData c =
     (if ic_Type (cc_Index (co_config c)) \<noteq> ''flat'' then (Inl (ErrInvalidArgument ''mapped checkpoints require a flat index''), c)
      else installBase E n ''mapped segment record routed to wrong shard'' rs (NewMappedWithPQ E (co_config c) rs source metadataIndex pqData) c)"

definition InstallHNSWShard ::
    "'i seg_env \<Rightarrow> u32 \<Rightarrow> CoreRecord list \<Rightarrow> bytes \<Rightarrow> Index option \<Rightarrow> 'i Collection \<Rightarrow> unit result \<times> 'i Collection" where
  "InstallHNSWShard E n rs graph metadataIndex c =
     (if ic_Type (cc_Index (co_config c)) \<noteq> ''hnsw'' then (Inl (ErrInvalidArgument ''graph checkpoints require an hnsw index''), c)
      else installBase E n ''hnsw segment record routed to wrong shard'' rs (NewHNSWFromGraph E (co_config c) rs graph metadataIndex) c)"

definition InstallDiskANNShard ::
    "'i seg_env \<Rightarrow> u32 \<Rightarrow> CoreRecord list \<Rightarrow> string \<Rightarrow> Index option \<Rightarrow> 'i Collection \<Rightarrow> unit result \<times> 'i Collection" where
  "InstallDiskANNShard E n rs path metadataIndex c =
     (if ic_Type (cc_Index (co_config c)) \<noteq> ''diskann'' then (Inl (ErrInvalidArgument ''diskann checkpoints require a diskann index''), c)
      else installBase E n ''diskann segment record routed to wrong shard'' rs (NewDiskANN E (co_config c) rs path metadataIndex) c)"

definition CollClose :: "'i seg_env \<Rightarrow> 'i Collection \<Rightarrow> 'i Collection" where
  "CollClose E c = c\<lparr>co_shards := map (ShardClose E) (co_shards c)\<rparr>"

subsection \<open>Snapshots\<close>

fun pinShards :: "'i Shard list \<Rightarrow> go_error option \<times> Snapshot list \<times> 'i Shard list" where
  "pinShards [] = (None, [], [])"
| "pinShards (sh # rest) =
     (case PinSnapshot sh of
        (Inl e, sh') \<Rightarrow> (Some e, [], sh' # rest)
      | (Inr s, sh') \<Rightarrow> (case pinShards rest of (e, ss, shs) \<Rightarrow> (e, s # ss, sh' # shs)))"

fun closeSnapshots :: "'i seg_env \<Rightarrow> Snapshot list \<Rightarrow> 'i Shard list \<Rightarrow> Snapshot list \<times> 'i Shard list" where
  "closeSnapshots E (s # ss) (sh # shs) =
     (case (SnapshotClose E sh s, closeSnapshots E ss shs) of ((s', sh'), (ss', shs')) \<Rightarrow> (s' # ss', sh' # shs'))"
| "closeSnapshots E ss shs = (ss, shs)"

definition CollPinSnapshot :: "'i seg_env \<Rightarrow> 'i Collection \<Rightarrow> CollSnapshot result \<times> 'i Collection" where
  "CollPinSnapshot E c =
     (case pinShards (co_shards c) of
        (None, ss, shs) \<Rightarrow> (Inr \<lparr>cs_config = co_config c, cs_shards = ss, cs_done = False\<rparr>, c\<lparr>co_shards := shs\<rparr>)
      | (Some e, ss, shs) \<Rightarrow> (Inl e, c\<lparr>co_shards := snd (closeSnapshots E ss shs)\<rparr>))"

definition CollSnapshotClose :: "'i seg_env \<Rightarrow> CollSnapshot \<Rightarrow> 'i Collection \<Rightarrow> CollSnapshot \<times> 'i Collection" where
  "CollSnapshotClose E snap c =
     (if cs_done snap then (snap, c)
      else case closeSnapshots E (cs_shards snap) (co_shards c) of
        (ss, shs) \<Rightarrow> (snap\<lparr>cs_shards := ss, cs_done := True\<rparr>, c\<lparr>co_shards := shs\<rparr>))"

definition ShardHasPinnedReaders :: "'i Collection \<Rightarrow> u32 \<Rightarrow> bool" where
  "ShardHasPinnedReaders c n \<longleftrightarrow> unat n < length (co_shards c) \<and> HasPinnedReaders (co_shards c ! unat n)"

definition CollHasPinnedReaders :: "'i Collection \<Rightarrow> bool" where
  "CollHasPinnedReaders c \<longleftrightarrow> list_ex HasPinnedReaders (co_shards c)"

definition Generations :: "CollSnapshot \<Rightarrow> u64 list" where
  "Generations snap = map snap_gen (cs_shards snap)"

definition snapshotRoute :: "CollSnapshot \<Rightarrow> string \<Rightarrow> string \<Rightarrow> nat" where
  "snapshotRoute snap namespace uid = unat (routeHash namespace uid mod of_nat (length (cs_shards snap)))"

definition CollSnapshotGet :: "'i Collection \<Rightarrow> CollSnapshot \<Rightarrow> string \<Rightarrow> string \<Rightarrow> CoreRecord result" where
  "CollSnapshotGet c snap namespace uid =
     (let n = snapshotRoute snap namespace uid in
      if n < length (cs_shards snap) \<and> n < length (co_shards c)
      then SnapshotGet (co_shards c ! n) (cs_shards snap ! n) namespace uid else Inl GoPanic)"

definition CollSnapshotRecords :: "'i Collection \<Rightarrow> CollSnapshot \<Rightarrow> CoreRecord list" where
  "CollSnapshotRecords c snap = sortBy recordLess (concat (map2 SnapshotRecords (co_shards c) (cs_shards snap)))"

definition CollSnapshotSearch ::
    "'i seg_env \<Rightarrow> 'i Collection \<Rightarrow> CollSnapshot \<Rightarrow> string \<Rightarrow> f32 list \<Rightarrow> int \<Rightarrow> Expr option \<Rightarrow> int \<Rightarrow> SearchResult list result" where
  "CollSnapshotSearch E c snap namespace vector k flt efSearch =
     and_then (ValidateVector vector (Dimension (cs_config snap))) (\<lambda>_.
     if k \<le> 0 \<or> efSearch < 0 \<or> efSearch > 10000 then Inl (ErrInvalidArgument ''invalid snapshot search options'')
     else
       and_then (mapR (\<lambda>(sh, s). SnapshotSearch E sh s namespace vector k flt efSearch) (zip (co_shards c) (cs_shards snap)))
         (\<lambda>perShard. mergeTopK perShard k))"

end
