(* ===== verification/Shard_Props.thy ===== *)
theory Shard_Props
  imports Shard
begin

text \<open>
  A shard is a table as well: its mutable segment over the base without the tombstones. Every operation on the shard is the
  same operation on the table, its count is the size of the table, search over both segments is exact, and a
  checkpoint that installs the shard's own records leaves the table as it is.
\<close>

subsection \<open>The table of a shard\<close>

definition baseView :: "'i Shard \<Rightarrow> string \<Rightarrow> CoreRecord option" where
  "baseView sh k = (case baseSegment sh of None \<Rightarrow> None | Some b \<Rightarrow> segView b k)"

definition shardView :: "'i Shard \<Rightarrow> string \<Rightarrow> CoreRecord option" where
  "shardView sh k =
     (case segView (active sh) k of Some r \<Rightarrow> Some r | None \<Rightarrow> if k \<in> set (tombstones sh) then None else baseView sh k)"

lemma segView_finite [simp]: "finite (dom (segView s))"
  by (rule finite_subset [OF _ finite_dom_map_of [of "sg_ordinals s"]]) (auto simp: segView_def)

lemma shardView_finite [simp]: "finite (dom (shardView sh))"
proof -
  have "finite (dom (baseView sh))"
    by (cases "baseSegment sh") (simp_all add: baseView_def [abs_def] dom_def [of "\<lambda>_. None"] flip: dom_def)
  moreover have "dom (shardView sh) \<subseteq> dom (segView (active sh)) \<union> dom (baseView sh)"
    by (auto simp: shardView_def split: option.splits if_splits)
  ultimately show ?thesis by (meson finite_UnI finite_subset segView_finite)
qed

lemma card_upd:
  assumes "finite (dom t)"
  shows "card (dom (t(k \<mapsto> r))) = (if t k = None then card (dom t) + 1 else card (dom t))"
    and "t k \<noteq> None \<Longrightarrow> card (dom (t(k := None))) = card (dom t) - 1"
  using assms by (auto simp: card_insert_if domIff insert_absorb)

text \<open>The part of the invariant that does not speak of the vector index.\<close>

definition delta_ok :: "'i Shard \<Rightarrow> bool" where
  "delta_ok sh \<longleftrightarrow> set (tombstones sh) \<subseteq> dom (baseView sh) \<and> set (tombstones sh) \<inter> dom (segView (active sh)) = {}
     \<and> sh_count sh = int (card (dom (shardView sh)))"

context segment_env
begin

definition based :: "CollectionConfig \<Rightarrow> 'i Segment \<Rightarrow> bool" where
  "based c b \<longleftrightarrow> seg_inv E iv vec b \<and> dim (sg_index b) = Dimension c \<and> metric (sg_index b) = Metric c"

definition shard_inv :: "'i Shard \<Rightarrow> bool" where
  "shard_inv sh \<longleftrightarrow> exact_config (sh_config sh) \<and> mutable (active sh) \<and> based (sh_config sh) (active sh)
     \<and> fieldConfigs (named (active sh)) = declaredConfigs (sh_config sh)
     \<and> (\<forall>b. baseSegment sh = Some b \<longrightarrow> based (sh_config sh) b) \<and> delta_ok sh"

lemma shard_facts:
  assumes "shard_inv sh"
  shows "seg_inv E iv vec (active sh)" and "\<And>b. baseSegment sh = Some b \<Longrightarrow> seg_inv E iv vec b"
    and "SegGet (active sh) namespace uid = (case segView (active sh) (recordKey namespace uid) of None \<Rightarrow> Inl ErrNotFound | Some r \<Rightarrow> Inr r)"
    and "(case baseSegment sh of None \<Rightarrow> Inl ErrNotFound | Some b \<Rightarrow> SegGet b namespace uid)
      = (case baseView sh (recordKey namespace uid) of None \<Rightarrow> Inl ErrNotFound | Some r \<Rightarrow> Inr r)"
proof -
  show a: "seg_inv E iv vec (active sh)" and b: "\<And>b. baseSegment sh = Some b \<Longrightarrow> seg_inv E iv vec b"
    using assms by (auto simp: shard_inv_def based_def)
  show "SegGet (active sh) namespace uid = (case segView (active sh) (recordKey namespace uid) of None \<Rightarrow> Inl ErrNotFound | Some r \<Rightarrow> Inr r)"
    by (rule SegGet_view [OF a])
  show "(case baseSegment sh of None \<Rightarrow> Inl ErrNotFound | Some b \<Rightarrow> SegGet b namespace uid)
      = (case baseView sh (recordKey namespace uid) of None \<Rightarrow> Inl ErrNotFound | Some r \<Rightarrow> Inr r)"
    using SegGet_view [OF b] by (cases "baseSegment sh") (simp_all add: baseView_def)
qed

lemma ShardGet_view:
  assumes "shard_inv sh"
  shows "ShardGet sh namespace uid = (case shardView sh (recordKey namespace uid) of None \<Rightarrow> Inl ErrNotFound | Some r \<Rightarrow> Inr r)"
  using shard_facts(3,4) [OF assms, of namespace uid]
  by (auto simp: ShardGet_def shardView_def split: option.split)

lemma shardView_key:
  assumes "shard_inv sh" and "shardView sh k = Some r"
  shows "keyOf r = k"
  using assms segView_key [OF shard_facts(1) [OF assms(1)]] segView_key [OF shard_facts(2) [OF assms(1)]]
  by (auto simp: shardView_def baseView_def split: option.splits if_splits)

lemma ShardNew_view:
  assumes "exact_config c"
  shows "\<exists>sh. ShardNew E n c = Inr sh \<and> shard_inv sh \<and> sh_config sh = c \<and> shardView sh = Map.empty \<and> nextID (active sh) = 1"
proof -
  obtain s where s: "SegNew E c = Inr s" "mutable s" "dim (sg_index s) = Dimension c" "metric (sg_index s) = Metric c"
      "nextID s = 1" "segView s = Map.empty" "fieldConfigs (named s) = declaredConfigs c"
    using SegNew_table [OF assms] by blast
  define sh where "sh = \<lparr>sh_id = n, sh_config = c, active = s, immutable = None, generations = [], nextGen = 0, pinned = 0, closed = False,
          tombstones = [], sh_count = 0\<rparr>"
  have base: "baseSegment sh = None" by (simp add: sh_def baseSegment_def)
  have view: "shardView sh = Map.empty" using s(6) base by (auto simp: shardView_def baseView_def sh_def)
  have "delta_ok sh" using s(6) view by (simp add: delta_ok_def) (simp add: sh_def)
  then have "shard_inv sh"
    using assms s base by (simp add: shard_inv_def based_def sh_def mutable_def)
  moreover have "ShardNew E n c = Inr sh" using s(1) by (simp add: ShardNew_def sh_def)
  ultimately show ?thesis using view s(5) by (auto simp: sh_def)
qed

lemma ShardUpsert_view:
  assumes inv: "shard_inv sh" and r: "record_ok E r" "int (length (cr_Vector r)) = Dimension (sh_config sh)" and room: "nextID (active sh) \<noteq> - 1"
  shows "\<exists>sh'. ShardUpsert E sh r = (Inr (), sh') \<and> shard_inv sh' \<and> sh_config sh' = sh_config sh \<and> generations sh' = generations sh
    \<and> nextID (active sh') \<le> nextID (active sh) + 1
    \<and> shardView sh' = (shardView sh)(keyOf r \<mapsto> storedNamed (declaredConfigs (sh_config sh)) r)"
proof -
  have act: "mutable (active sh)" "dim (sg_index (active sh)) = Dimension (sh_config sh)" "metric (sg_index (active sh)) = Metric (sh_config sh)"
      "fieldConfigs (named (active sh)) = declaredConfigs (sh_config sh)" and d: "delta_ok sh"
    using inv by (auto simp: shard_inv_def based_def)
  obtain a where a: "SegUpsert E (active sh) r = (Inr (), a)" "mutable a" "same_frame (active sh) a" "dim (sg_index a) = dim (sg_index (active sh))"
      "metric (sg_index a) = metric (sg_index (active sh))" "nextID a \<le> nextID (active sh) + 1"
      "segView a = (segView (active sh))(keyOf r \<mapsto> storedNamed (declaredConfigs (sh_config sh)) r)"
    using SegUpsert_table [OF act(1) r(1) _ room] r(2) act(2,4) by auto
  define sh' where "sh' = snd (ShardUpsert E sh r)"
  have base: "baseSegment sh' = baseSegment sh" and parts: "active sh' = a" "tombstones sh' = removeAll (keyOf r) (tombstones sh)"
      "sh_config sh' = sh_config sh" "generations sh' = generations sh"
    using a(1) by (simp_all add: sh'_def ShardUpsert_def baseSegment_def Let_def)
  have bv: "baseView sh' = baseView sh" by (rule ext) (simp add: baseView_def base)
  have view: "shardView sh' = (shardView sh)(keyOf r \<mapsto> storedNamed (declaredConfigs (sh_config sh)) r)"
    by (rule ext) (simp add: shardView_def bv parts a(7) cong: option.case_cong)
  have ex: "(SegHas (active sh) (Namespace r) (cr_ID r) \<or> keyOf r \<notin> set (tombstones sh)
        \<and> (case baseSegment sh of None \<Rightarrow> False | Some b \<Rightarrow> SegHas b (Namespace r) (cr_ID r))) \<longleftrightarrow> shardView sh (keyOf r) \<noteq> None"
    by (auto simp: shardView_def baseView_def SegHas_view split: option.split)
  have "sh_count sh' = (if shardView sh (keyOf r) \<noteq> None then sh_count sh else sh_count sh + 1)"
    using a(1) unfolding ex [symmetric] by (simp add: sh'_def ShardUpsert_def Let_def)
  then have "delta_ok sh'"
    using d view bv parts a(7) card_upd(1) [OF shardView_finite, of sh "keyOf r"]
    by (auto simp: delta_ok_def simp del: fun_upd_apply)
  then have "shard_inv sh'" using inv a parts base act by (simp add: shard_inv_def based_def same_frame_def mutable_def)
  moreover have "ShardUpsert E sh r = (Inr (), sh')" using a(1) by (simp add: sh'_def ShardUpsert_def Let_def)
  ultimately show ?thesis using view parts a(6) by auto
qed

end

subsection \<open>Reading a shard\<close>

lemma fold_update_table:
  assumes "distinct (map keyOf rs)"
  shows "map_of (fold (\<lambda>r m. AList.update (keyOf r) r m) rs m) = map_of m ++ tableOf rs"
    and "distinct (map fst m) \<Longrightarrow> distinct (map fst (fold (\<lambda>r m. AList.update (keyOf r) r m) rs m))"
proof -
  show "map_of (fold (\<lambda>r m. AList.update (keyOf r) r m) rs m) = map_of m ++ tableOf rs"
    using assms
  proof (induction rs arbitrary: m)
    case (Cons r rs)
    have "tableOf rs (keyOf r) = None" using Cons.prems by (auto simp: tableOf_def map_of_eq_None_iff)
    then show ?case using Cons by (auto simp: tableOf_def update_conv' map_add_def fun_eq_iff split: option.split)
  qed (simp add: tableOf_def)
  show "distinct (map fst m) \<Longrightarrow> distinct (map fst (fold (\<lambda>r m. AList.update (keyOf r) r m) rs m))"
    by (induction rs arbitrary: m) (auto simp: distinct_update)
qed

lemma fold_delete:
  "map_of (fold AList.delete ks m) = (\<lambda>k. if k \<in> set ks then None else map_of m k)"
  "distinct (map fst m) \<Longrightarrow> distinct (map fst (fold AList.delete ks m))"
  by (induction ks arbitrary: m) (auto simp: delete_conv' distinct_delete)

lemma snd_table:
  assumes "distinct (map fst m)" and "\<And>k r. map_of m k = Some r \<Longrightarrow> keyOf r = k"
  shows "distinct (map keyOf (map snd m))" and "tableOf (map snd m) = map_of m"
proof -
  have "keyOf (snd x) = fst x" if "x \<in> set m" for x
    using assms that by (metis map_of_is_SomeI prod.collapse)
  then have "map (\<lambda>r. (keyOf r, r)) (map snd m) = m" by (simp add: map_idI o_def)
  then show "tableOf (map snd m) = map_of m" "distinct (map keyOf (map snd m))"
    using assms(1) unfolding tableOf_def by (metis, metis (no_types, lifting) fst_conv map_map comp_apply map_eq_conv)
qed

lemma sort_table:
  assumes "distinct (map keyOf rs)"
  shows "distinct (map keyOf (sortBy recordLess rs))" and "tableOf (sortBy recordLess rs) = tableOf rs"
    and "sorted (map recordOrder (sortBy recordLess rs))"
proof -
  have "mset (map keyOf (sort_key recordOrder rs)) = mset (map keyOf rs)" by simp
  then show d: "distinct (map keyOf (sortBy recordLess rs))"
    unfolding sortBy_recordLess using assms mset_eq_imp_distinct_iff by blast
  show "tableOf (sortBy recordLess rs) = tableOf rs"
    by (rule table_eqI) (unfold tableOf_Some [OF d] tableOf_Some [OF assms], simp add: sortBy_recordLess)
  show "sorted (map recordOrder (sortBy recordLess rs))" by (simp add: sortBy_recordLess)
qed

context segment_env
begin

lemma ShardRecords_view:
  assumes inv: "shard_inv sh"
  shows "distinct (map keyOf (ShardRecords sh))" and "tableOf (ShardRecords sh) = shardView sh" and "sorted (map recordOrder (ShardRecords sh))"
proof -
  define rb where "rb = (case baseSegment sh of None \<Rightarrow> [] | Some b \<Rightarrow> SegRecords b)"
  have b: "distinct (map keyOf rb) \<and> tableOf rb = baseView sh"
    using SegRecords_table [OF shard_facts(2) [OF inv]]
    by (cases "baseSegment sh") (auto simp: rb_def baseView_def [abs_def] tableOf_def)
  note a = SegRecords_table [OF shard_facts(1) [OF inv]]
  define m0 where "m0 = fold (\<lambda>r m. AList.update (keyOf r) r m) rb []"
  define m2 where "m2 = fold (\<lambda>r m. AList.update (keyOf r) r m) (SegRecords (active sh)) (fold AList.delete (tombstones sh) m0)"
  have m0: "map_of m0 = baseView sh" "distinct (map fst m0)" using fold_update_table [of rb "[]"] b by (simp_all add: m0_def)
  have m2: "map_of m2 = shardView sh" "distinct (map fst m2)"
  proof -
    show "map_of m2 = shardView sh"
      unfolding m2_def fold_update_table(1) [OF a(1)] fold_delete(1) m0(1) a(2) by (auto simp: map_add_def shardView_def fun_eq_iff split: option.split)
    show "distinct (map fst m2)" unfolding m2_def by (intro fold_update_table(2) [OF a(1)] fold_delete(2) m0(2))
  qed
  have recs: "ShardRecords sh = sortBy recordLess (map snd m2)"
    by (simp add: ShardRecords_def m2_def m0_def rb_def Let_def)
  have s: "distinct (map keyOf (map snd m2))" "tableOf (map snd m2) = map_of m2"
    using snd_table [OF m2(2)] shardView_key [OF inv] m2(1) by auto
  show "distinct (map keyOf (ShardRecords sh))" "tableOf (ShardRecords sh) = shardView sh" "sorted (map recordOrder (ShardRecords sh))"
    unfolding recs using sort_table [OF s(1)] s(2) m2(1) by simp_all
qed

text \<open>The delta a checkpoint saves is what has to be applied to the base.\<close>

lemma CheckpointDelta_view:
  assumes "shard_inv sh" and "CheckpointDelta sh = (rs, dead)"
  shows "shardView sh = (\<lambda>k. if k \<in> set dead then None else baseView sh k) ++ tableOf rs" and "set dead \<inter> dom (tableOf rs) = {}"
    and "set dead \<subseteq> dom (baseView sh)"
proof -
  have p: "rs = SegRecords (active sh)" "set dead = set (tombstones sh)" using assms(2) by (auto simp: CheckpointDelta_def)
  then have t: "tableOf rs = segView (active sh)" using SegRecords_table(2) [OF shard_facts(1) [OF assms(1)]] by simp
  show "shardView sh = (\<lambda>k. if k \<in> set dead then None else baseView sh k) ++ tableOf rs"
    unfolding t p(2) by (rule ext) (simp add: shardView_def map_add_def split: option.split)
  show "set dead \<inter> dom (tableOf rs) = {}" "set dead \<subseteq> dom (baseView sh)"
    using assms(1) p(2) t by (auto simp: shard_inv_def delta_ok_def)
qed

lemma ShardDelete_view:
  assumes inv: "shard_inv sh" and k: "shardView sh (recordKey namespace uid) \<noteq> None"
  shows "\<exists>sh'. ShardDelete E sh namespace uid = (Inr (), sh') \<and> shard_inv sh' \<and> sh_config sh' = sh_config sh \<and> generations sh' = generations sh
    \<and> nextID (active sh') = nextID (active sh) \<and> shardView sh' = (shardView sh)(recordKey namespace uid := None)"
proof -
  let ?k = "recordKey namespace uid"
  have act: "mutable (active sh)" and d: "delta_ok sh" using inv by (auto simp: shard_inv_def)
  note get = shard_facts(3,4) [OF inv, of namespace uid]
  define sh' where "sh' = snd (ShardDelete E sh namespace uid)"
  define live where "live = (segView (active sh) ?k \<noteq> None)"
  obtain a where a: "live \<Longrightarrow> SegDelete E (active sh) namespace uid = (Inr (), a)" "mutable a" "same_frame (active sh) a"
      "dim (sg_index a) = dim (sg_index (active sh))" "metric (sg_index a) = metric (sg_index (active sh))" "nextID a = nextID (active sh)"
      "segView a = (segView (active sh))(?k := None)" "\<not> live \<Longrightarrow> a = active sh"
  proof (cases live)
    case True
    then show ?thesis using SegDelete_table [OF act, of namespace uid] that by (auto simp: live_def)
  next
    case False
    then have "(segView (active sh))(?k := None) = segView (active sh)" by (simp add: live_def fun_upd_idem)
    then show ?thesis using that [of "active sh"] False act by (simp add: same_frame_def)
  qed
  have step: "ShardDelete E sh namespace uid = (Inr (), sh') \<and> active sh' = a \<and> sh_config sh' = sh_config sh \<and> generations sh' = generations sh
      \<and> immutable sh' = immutable sh \<and> sh_count sh' = sh_count sh - 1
      \<and> set (tombstones sh') = (if baseView sh ?k = None then set (tombstones sh) else insert ?k (set (tombstones sh)))"
  proof (cases live)
    case True
    then show ?thesis
      using a(1) get by (cases "baseView sh ?k") (auto simp: sh'_def ShardDelete_def live_def Let_def)
  next
    case False
    then have "baseView sh ?k \<noteq> None" "?k \<notin> set (tombstones sh)" using k by (auto simp: shardView_def live_def split: if_splits)
    then show ?thesis using False a(8) get by (auto simp: sh'_def ShardDelete_def live_def Let_def)
  qed
  then have base: "baseSegment sh' = baseSegment sh" by (simp add: baseSegment_def)
  have bv: "baseView sh' = baseView sh" by (rule ext) (simp add: baseView_def base)
  have view: "shardView sh' = (shardView sh)(?k := None)"
    by (rule ext) (use step in \<open>auto simp: shardView_def bv a(7) split: option.split\<close>)
  have "card (dom (shardView sh)) > 0" using k by (auto simp: card_gt_0_iff)
  then have "int (card (dom (shardView sh'))) = int (card (dom (shardView sh))) - 1"
    unfolding view card_upd(2) [OF shardView_finite k] by simp
  then have "delta_ok sh'"
    using d bv step a(7) by (auto simp: delta_ok_def)
  then have "shard_inv sh'" using inv a step base by (simp add: shard_inv_def based_def same_frame_def mutable_def)
  then show ?thesis using step view a(6) by blast
qed

lemma ShardDelete_missing:
  assumes "shard_inv sh" and "shardView sh (recordKey namespace uid) = None"
  shows "ShardDelete E sh namespace uid = (Inl ErrNotFound, sh)"
  using shard_facts(3,4) [OF assms(1), of namespace uid] assms(2)
  by (auto simp: ShardDelete_def shardView_def Let_def split: option.splits if_splits)

lemma InstallImmutable_view:
  assumes inv: "shard_inv sh" and b: "based (sh_config sh) b"
  shows "\<exists>sh'. InstallImmutable E sh b = (Inr (), sh') \<and> shard_inv sh' \<and> sh_config sh' = sh_config sh \<and> nextID (active sh') = 1
    \<and> shardView sh' = segView b"
proof -
  have c: "exact_config (sh_config sh)" using inv by (simp add: shard_inv_def)
  obtain s where s: "SegNew E (sh_config sh) = Inr s" "mutable s" "dim (sg_index s) = Dimension (sh_config sh)"
      "metric (sg_index s) = Metric (sh_config sh)" "nextID s = 1" "segView s = Map.empty" "fieldConfigs (named s) = declaredConfigs (sh_config sh)"
    using SegNew_table [OF c] by blast
  define sh' where "sh' = snd (InstallImmutable E sh b)"
  have p: "active sh' = s" "tombstones sh' = []" "sh_config sh' = sh_config sh" "baseSegment sh' = Some b" "sh_count sh' = SegLen E b"
    using s(1) by (simp_all add: sh'_def InstallImmutable_def Let_def baseSegment_def update_conv')
  have view: "shardView sh' = segView b" using p s(6) by (auto simp: shardView_def baseView_def)
  have "SegLen E b = int (card (dom (segView b)))" using SegLen_table b by (simp add: based_def)
  then have "delta_ok sh'" using p view by (simp add: delta_ok_def)
  then have "shard_inv sh'" using c p s b by (simp add: shard_inv_def based_def mutable_def)
  moreover have "InstallImmutable E sh b = (Inr (), sh')" using s(1) by (simp add: sh'_def InstallImmutable_def Let_def)
  ultimately show ?thesis using view p s(5) by auto
qed

end

subsection \<open>Searching a shard\<close>

lemma limitResults_best:
  assumes "\<forall>r \<in> set rs. resOk r"
  shows "\<exists>out. limitResults (int k) rs = Inr out \<and> sorted (map resKey out) \<and> best_k resKey k (mset rs) (mset out)"
proof -
  have "sortBy betterResult rs = sort_key resKey rs"
    using assms by (intro sortBy_key) (auto simp: betterResult_def resKey_def resOk_def f32_lt_def f32_eq_def less_prod_def' less_le)
  then have "limitResults (int k) rs = Inr (take k (sort_key resKey rs))" by (auto simp: limitResults_def Let_def)
  moreover have "sorted (map resKey (take k (sort_key resKey rs)))"
    by (simp only: take_map [symmetric] sorted_sort_key sorted_wrt_take)
  ultimately show ?thesis using best_k_take_sort [of resKey k rs] by blast
qed

definition scorable_in :: "'i seg_env \<Rightarrow> string \<Rightarrow> f32 list \<Rightarrow> (string \<Rightarrow> CoreRecord option) \<Rightarrow> (CoreRecord \<Rightarrow> bool) \<Rightarrow> bool" where
  "scorable_in E m q tbl P \<longleftrightarrow> (\<forall>k r. tbl k = Some r \<longrightarrow> P r \<longrightarrow> scorable (distanceOf E) m q (cr_Vector r))"

lemma resultsOf_ok:
  assumes "scorable_in E m q tbl P" and "finite (dom tbl)" and "x \<in># resultsOf E m q tbl P"
  shows "resOk x"
proof -
  have "finite (tableHits tbl P)" by (rule finite_subset [OF _ assms(2)]) (auto simp: tableHits_def)
  then obtain k r where "tbl k = Some r" "P r" "x = scoredResult E m q r"
    using assms(3) by (auto simp: resultsOf_def tableHits_def)
  then show ?thesis
    using assms(1) scorableD [of "distanceOf E" m q "cr_Vector r"] by (auto simp: scorable_in_def resOk_def scoredResult_def toResult_def)
qed

lemma resultsOf_cong:
  assumes "\<And>k. k \<in> tableHits tbl P \<longleftrightarrow> k \<in> tableHits tbl' P'" and "\<And>k. k \<in> tableHits tbl P \<Longrightarrow> tbl k = tbl' k"
  shows "resultsOf E m q tbl P = resultsOf E m q tbl' P'"
proof -
  have "tableHits tbl P = tableHits tbl' P'" using assms(1) by blast
  moreover have "scoredResult E m q (the (tbl k)) = scoredResult E m q (the (tbl' k))" if "k \<in># mset_set (tableHits tbl P)" for k
    using that assms(2) by (metis elem_mset_set infinite_set_mset_mset_set empty_iff)
  ultimately show ?thesis unfolding resultsOf_def by (auto intro: image_mset_cong)
qed

lemma resultsOf_union:
  assumes "finite (dom t1)" and "finite (dom t2)" and "dom t1 \<inter> dom t2 = {}"
  shows "resultsOf E m q (t1 ++ t2) P = resultsOf E m q t1 P + resultsOf E m q t2 P"
proof -
  have fin: "finite (tableHits t1 P)" "finite (tableHits t2 P)"
    using assms(1,2) by (auto simp: tableHits_def intro: finite_subset [rotated])
  have un: "tableHits (t1 ++ t2) P = tableHits t1 P \<union> tableHits t2 P"
    using assms(3) by (force simp: tableHits_def map_add_Some_iff domIff)
  have dis: "tableHits t1 P \<inter> tableHits t2 P = {}" using assms(3) by (auto simp: tableHits_def)
  have left: "(t1 ++ t2) k = t1 k" if "k \<in> tableHits t1 P" for k
    using that assms(3) by (intro map_add_dom_app_simps(3)) (auto simp: tableHits_def)
  have "image_mset (\<lambda>k. scoredResult E m q (the ((t1 ++ t2) k))) (mset_set (tableHits t1 P)) = resultsOf E m q t1 P"
    unfolding resultsOf_def using left fin by (intro image_mset_cong) simp
  moreover have "image_mset (\<lambda>k. scoredResult E m q (the ((t1 ++ t2) k))) (mset_set (tableHits t2 P)) = resultsOf E m q t2 P"
    unfolding resultsOf_def using fin by (intro image_mset_cong) (auto simp: tableHits_def)
  ultimately show ?thesis unfolding resultsOf_def [of E m q "t1 ++ t2"] un using fin dis by (simp add: mset_set_Union)
qed

context segment_env
begin

lemma ShardSearch_exact:
  assumes inv: "shard_inv sh" and q: "int (length q) = Dimension (sh_config sh)" and k: "0 < k" and f: "wt flt" "plain flt"
    and sc: "scorable_in E (Metric (sh_config sh)) q (shardView sh) (selects E namespace flt)"
  shows "\<exists>rs. ShardSearch E sh namespace q (int k) flt ef = Inr rs \<and> sorted (map resKey rs)
    \<and> best_k scoreKey k (resultsOf E (Metric (sh_config sh)) q (shardView sh) (selects E namespace flt)) (mset rs)"
proof -
  let ?m = "Metric (sh_config sh)" and ?P = "selects E namespace flt"
  let ?R = "resultsOf E ?m q"
  have a: "seg_inv E iv vec (active sh)" "dim (sg_index (active sh)) = Dimension (sh_config sh)" "metric (sg_index (active sh)) = ?m"
    using inv by (auto simp: shard_inv_def based_def)
  have up: "shardView sh key = Some r" if "segView (active sh) key = Some r" for key r
    using that by (simp add: shardView_def)
  have sa: "\<And>key r. segView (active sh) key = Some r \<Longrightarrow> ?P r \<Longrightarrow> key \<notin> set [] \<Longrightarrow> scorable (distanceOf E) (metric (sg_index (active sh))) q (cr_Vector r)"
    using sc up a(3) by (auto simp: scorable_in_def)
  obtain ra where ra: "SegSearch E (active sh) namespace q (int k) flt [] ef = Inr ra" "best_k scoreKey k (?R (segView (active sh)) ?P) (mset ra)"
  proof -
    have "\<exists>rs. SegSearch E (active sh) namespace q (int k) flt [] ef = Inr rs
      \<and> best_k scoreKey k (resultsOf E (metric (sg_index (active sh))) q (segView (active sh)) (\<lambda>r. ?P r \<and> keyOf r \<notin> set [])) (mset rs)"
      by (rule SegSearch_exact [OF a(1) _ k f]) (use q a(2) sa in auto)
    then show ?thesis using that a(3) by auto
  qed
  define tb where "tb = (\<lambda>key. if key \<in> set (SegKeys (active sh) @ tombstones sh) then None else baseView sh key)"
  have view: "shardView sh = tb ++ segView (active sh)"
    by (rule ext) (auto simp: shardView_def tb_def map_add_def SegKeys_view split: option.split)
  have dis: "dom tb \<inter> dom (segView (active sh)) = {}" by (auto simp: tb_def SegKeys_view split: if_splits)
  have fin: "finite (dom tb)"
    using shardView_finite [of sh] unfolding view by simp
  have total: "?R (shardView sh) ?P = ?R tb ?P + ?R (segView (active sh)) ?P"
    unfolding view by (rule resultsOf_union [OF fin _ dis]) simp
  have sub: "scorable_in E ?m q tb ?P"
    using sc view dis unfolding scorable_in_def by (metis map_add_dom_app_simps(3) disjoint_iff domI domIff)
  have "\<exists>rb. (case baseSegment sh of None \<Rightarrow> Inr ra
       | Some b \<Rightarrow> and_then (SegSearch E b namespace q (int k) flt (SegKeys (active sh) @ tombstones sh) ef) (\<lambda>rs. Inr (ra @ rs)))
      = Inr (ra @ rb) \<and> best_k scoreKey k (?R tb ?P) (mset rb)"
  proof (cases "baseSegment sh")
    case None
    then have "tb = Map.empty" by (auto simp: tb_def baseView_def)
    then show ?thesis using None by (intro exI [of _ "[]"]) (simp add: resultsOf_def tableHits_def)
  next
    case (Some b)
    have b: "seg_inv E iv vec b" "dim (sg_index b) = Dimension (sh_config sh)" "metric (sg_index b) = ?m"
      using inv Some by (auto simp: shard_inv_def based_def)
    have bv: "baseView sh = segView b" using Some by (auto simp: baseView_def)
    have sb: "\<And>key r. segView b key = Some r \<Longrightarrow> ?P r \<Longrightarrow> key \<notin> set (SegKeys (active sh) @ tombstones sh)
        \<Longrightarrow> scorable (distanceOf E) (metric (sg_index b)) q (cr_Vector r)"
    proof -
      fix key r
      assume x: "segView b key = Some r" "?P r" "key \<notin> set (SegKeys (active sh) @ tombstones sh)"
      then have "tb key = Some r" using bv by (simp add: tb_def)
      then show "scorable (distanceOf E) (metric (sg_index b)) q (cr_Vector r)" using sub x(2) b(3) unfolding scorable_in_def by simp
    qed
    obtain rb where rb: "SegSearch E b namespace q (int k) flt (SegKeys (active sh) @ tombstones sh) ef = Inr rb"
        "best_k scoreKey k (?R (segView b) (\<lambda>r. ?P r \<and> keyOf r \<notin> set (SegKeys (active sh) @ tombstones sh))) (mset rb)"
    proof -
      have "\<exists>rs. SegSearch E b namespace q (int k) flt (SegKeys (active sh) @ tombstones sh) ef = Inr rs
        \<and> best_k scoreKey k (resultsOf E (metric (sg_index b)) q (segView b) (\<lambda>r. ?P r \<and> keyOf r \<notin> set (SegKeys (active sh) @ tombstones sh))) (mset rs)"
        by (rule SegSearch_exact [OF b(1) _ k f]) (use q b(2) sb in auto)
      then show ?thesis using that b(3) by auto
    qed
    have "?R (segView b) (\<lambda>r. ?P r \<and> keyOf r \<notin> set (SegKeys (active sh) @ tombstones sh)) = ?R tb ?P"
      by (rule resultsOf_cong) (use segView_key [OF b(1)] in \<open>auto simp: tableHits_def tb_def bv\<close>)
    then show ?thesis using Some rb by (intro exI [of _ rb]) simp
  qed
  then obtain rb where rb: "(case baseSegment sh of None \<Rightarrow> Inr ra
       | Some b \<Rightarrow> and_then (SegSearch E b namespace q (int k) flt (SegKeys (active sh) @ tombstones sh) ef) (\<lambda>rs. Inr (ra @ rs)))
      = Inr (ra @ rb)" "best_k scoreKey k (?R tb ?P) (mset rb)"
    by blast
  have "set_mset (mset ra) \<subseteq> set_mset (?R (segView (active sh)) ?P)" "set_mset (mset rb) \<subseteq> set_mset (?R tb ?P)"
    by (rule set_mset_mono, rule best_k_subset, fact ra rb)+
  then have "\<forall>r \<in> set (ra @ rb). resOk r"
    using resultsOf_ok [OF sc shardView_finite] unfolding total by auto
  from limitResults_best [OF this, of k] obtain out where out: "limitResults (int k) (ra @ rb) = Inr out" "sorted (map resKey out)"
      "best_k resKey k (mset (ra @ rb)) (mset out)"
    by blast
  have parts: "list_all2 (\<lambda>S p. best_k scoreKey k S (mset p)) [?R (segView (active sh)) ?P, ?R tb ?P] [ra, rb]"
    using ra(2) rb(2) by simp
  have "best_k scoreKey k (mset (concat [ra, rb]) + {#}) (mset out)" using best_k_scoreKey [OF out(3)] by simp
  from best_k_parts [OF parts this] have "best_k scoreKey k (?R (shardView sh) ?P) (mset out)"
    unfolding total by (simp add: add.commute)
  moreover have "ShardSearch E sh namespace q (int k) flt ef = Inr out"
    using ra(1) rb(1) out(1) by (simp add: ShardSearch_def)
  ultimately show ?thesis using out(2) by blast
qed

end

end
