(* ===== verification/Exact_Env.thy ===== *)
theory Exact_Env
  imports Segment_Props
begin

text \<open>
  The environment of a segment whose vector indexes are the two exact ones of the repository, the flat index and the
  file-mapped index. Their laws are discharged here, so everything that is proved about segments over an exact index holds for them.
  The constructors of the approximate indexes are never reached by an exact configuration and refuse.
\<close>

definition closeLocal :: "local_index \<Rightarrow> local_index" where
  "closeLocal i = (case i of FlatLocal f \<Rightarrow> FlatLocal f | MappedLocal m \<Rightarrow> MappedLocal (m\<lparr>mi_source := MappedClose (mi_source m)\<rparr>))"

definition exactEnv ::
    "scorer \<Rightarrow> (f32 list list \<Rightarrow> f32 list) \<Rightarrow> (string \<Rightarrow> f32 list list \<Rightarrow> f32 list list \<Rightarrow> f32 result) \<Rightarrow> lex_lib \<Rightarrow> text_lib
      \<Rightarrow> (Index \<Rightarrow> GeoRadius \<Rightarrow> Set) \<Rightarrow> hybrid_lib \<Rightarrow> local_index seg_env" where
  "exactEnv D pool sim F T geo H = \<lparr>
     indexOps = exactOps D,
     newFlat = (\<lambda>d m. map_sum (\<lambda>e. e) FlatLocal (FlatNew d m)),
     newHNSW = (\<lambda>d m c. Inl (ErrInvalidArgument ''index'')),
     newBinary = (\<lambda>c. Inl (ErrInvalidArgument ''index'')),
     newBinaryMapped = (\<lambda>c src ids. Inl (ErrInvalidArgument ''index'')),
     newMapped = (\<lambda>src m ids. map_sum (\<lambda>e. e) MappedLocal (NewMappedIndex src m ids)),
     newPQ = (\<lambda>c rs src b. Inl (ErrInvalidArgument ''index'')),
     loadGraph = (\<lambda>c ids vs b. Inl (ErrInvalidArgument ''index'')),
     openDiskANN = (\<lambda>path m d n tag ef. Inl (ErrInvalidArgument ''index'')), closeIndex = closeLocal, distanceOf = D, meanPool = pool, maxSimOf = sim, lexLib = F, textLib = T, geoOf = geo, hybridLib = H\<rparr>"

lemma exactEnv_simps [simp]:
  "indexOps (exactEnv D pool sim F T geo H) = exactOps D" "distanceOf (exactEnv D pool sim F T geo H) = D"
  "lexLib (exactEnv D pool sim F T geo H) = F" "textLib (exactEnv D pool sim F T geo H) = T"
  "newFlat (exactEnv D pool sim F T geo H) d m = map_sum (\<lambda>e. e) FlatLocal (FlatNew d m)"
  "newMapped (exactEnv D pool sim F T geo H) src m ids = map_sum (\<lambda>e. e) MappedLocal (NewMappedIndex src m ids)"
  "geoOf (exactEnv D pool sim F T geo H) = geo"
  by (simp_all add: exactEnv_def)

lemma new_flat_local:
  assumes "0 < d" "MetricValid m"
  shows "\<exists>i. map_sum (\<lambda>e. e) FlatLocal (FlatNew d m) = Inr i \<and> local_inv i \<and> \<not> local_frozen i \<and> local_dim i = d \<and> local_metric i = m
    \<and> local_vec i = Map.empty"
proof -
  obtain f where f: "FlatNew d m = Inr f" using assms by (simp add: FlatNew_def)
  then show ?thesis using FlatNew_inv [OF f] by (simp add: local_defs)
qed

lemma new_mapped_local:
  assumes "ms_rows src = Some rows" "length rows = length ids" "distinct ids" "0 \<notin> set ids"
    "\<forall>v \<in> set rows. int (length v) = ms_dimension src" "0 < ms_dimension src" "MetricValid m"
  shows "\<exists>i. map_sum (\<lambda>e. e) MappedLocal (NewMappedIndex src m ids) = Inr i \<and> local_inv i \<and> local_dim i = ms_dimension src
    \<and> local_metric i = m \<and> local_vec i = map_of (zip ids rows)"
proof -
  obtain f where f: "NewMappedIndex src m ids = Inr f"
    using assms by (auto simp: NewMappedIndex_def and_then_Inr_iff foldR_distinct)
  then show ?thesis using NewMappedIndex_inv [OF f assms(1,5)] by (simp add: local_defs)
qed

interpretation ex: segment_env "exactEnv D pool sim F T geo H" local_inv local_vec local_dim local_metric local_frozen
  for D pool sim F T geo H
proof (intro segment_env.intro segment_index.intro segment_env_axioms.intro)
  show "exact_index (indexOps (exactEnv D pool sim F T geo H)) local_inv local_vec local_dim local_metric local_frozen
      (distanceOf (exactEnv D pool sim F T geo H))"
    using li.exact_index_axioms [of D] by simp
qed (simp_all add: new_flat_local new_mapped_local)

subsection \<open>A concrete environment\<close>

text \<open>Vectors of one component, which is the score; words are separated by blanks.\<close>

definition sample_score :: scorer where
  "sample_score m q v = (case v of [x] \<Rightarrow> if length q = 1 then Inr x else Inl ErrDimensionMismatch | _ \<Rightarrow> Inl ErrDimensionMismatch)"

definition sample_env :: "local_index seg_env" where
  "sample_env = exactEnv sample_score (\<lambda>vs. case vs of [] \<Rightarrow> [] | v # _ \<Rightarrow> v) (\<lambda>_ _ _. Inr 0) sample_lex Meta_Parse.sample_text (\<lambda>_ _. newSet 0)
     \<lparr>rrfAdd = (\<lambda>x n. x), addShifted = (\<lambda>x y. x), addNormalizedBM25 = (\<lambda>x y. x), divideBy = (\<lambda>x n. x), mixDense = (\<lambda>_ x _ _. x)\<rparr>"

definition sample_config :: CollectionConfig where
  "sample_config = \<lparr>Name = ''docs'', Dimension = 1, Metric = ''dot'', ShardCount = 2,
     cc_Index = \<lparr>ic_Type = ''flat'', ic_M = 0, EFConstruction = 0, EFSearch = 0, Quantization = [], Oversampling = 0, PQSubspaces = 0,
       MaxDegree = 0, Alpha = 0\<rparr>, Vectorizer = [], Vectors = []\<rparr>"

definition sample_record :: "string \<Rightarrow> f32 \<Rightarrow> CoreRecord" where
  "sample_record name x = \<lparr>cr_ID = name, cr_Vector = [x], SparseVector = None, Metadata = [], cr_Payload = [], Timestamp = 0, cr_Version = 1,
     Namespace = [], Text = [], cr_Vectors = [], MultiVectors = []\<rparr>"

lemma sample_row_ok: "name \<noteq> [] \<Longrightarrow> record_ok sample_env (sample_record name x)"
proof -
  have "docTokens sample_lex (sample_record name x) = docTokens sample_lex (sample_record [] 0)"
    by (simp add: docTokens_def sample_record_def)
  moreover have "docTokens sample_lex (sample_record [] 0) = []" by code_simp
  ultimately show "record_ok sample_env (sample_record name x)" if "name \<noteq> []"
    using that by (simp add: record_ok_def good_doc_def sample_env_def) (simp add: sample_record_def)
qed

lemma sample_config_exact: "exact_config sample_config"
  by (simp add: exact_config_def sample_config_def MetricValid_def)

definition sample_base :: "local_index Segment" where
  "sample_base = (case NewMappedWithPQ sample_env sample_config [sample_record ''a'' 5, sample_record ''b'' 7]
      \<lparr>ms_dimension = 1, ms_rows = Some [[5], [7]]\<rparr> None None of Inr s \<Rightarrow> s | Inl _ \<Rightarrow> undefined)"

end
