(* ===== verification/Collection_Props.thy ===== *)
theory Collection_Props
  imports Collection Shard_Props Exact_Env Core_Props
begin

text \<open>
  A collection is one table from keys to records, spread over its shards by the hash of the key. Each operation
  is the same operation on the table, and a search returns the best results of the whole table whatever the number of shards.
\<close>

subsection \<open>Routing\<close>

definition routeKey :: "nat \<Rightarrow> string \<Rightarrow> nat" where
  "routeKey n k = unat (fnv_write (bytes_of_string k) fnv_offset mod of_nat n)"

lemma bytes_of_string_append [simp]: "bytes_of_string (s @ t) = bytes_of_string s @ bytes_of_string t"
  by (simp add: bytes_of_string_def)

lemma routeHash_key: "routeHash namespace uid = fnv_write (bytes_of_string (recordKey namespace uid)) fnv_offset"
  by (simp add: routeHash_def recordKey_def fnv_write_def bytes_of_string_def byte_of_char_def)

lemma routeKey_less:
  assumes "0 < n" and "n < 2 ^ 32"
  shows "routeKey n k < n"
proof -
  have n: "unat (of_nat n :: u64) = n" using assms(2) by (simp add: unat_of_nat take_bit_nat_eq_self_iff)
  have "unat (h mod of_nat n) < n" for h :: u64 using assms(1) n by (simp add: unat_mod_distrib)
  then show ?thesis by (simp add: routeKey_def)
qed

lemma RouteShard_key:
  assumes "0 < length (co_shards c)" and "length (co_shards c) < 2 ^ 32"
  shows "unat (RouteShard c namespace uid) = routeKey (length (co_shards c)) (recordKey namespace uid)"
proof -
  let ?n = "length (co_shards c)"
  let ?h = "routeHash namespace uid mod of_nat ?n"
  have "unat ?h < 2 ^ 32" using routeKey_less [OF assms, of "recordKey namespace uid"] assms(2) by (simp add: routeKey_def routeHash_key)
  then have "unat (ucast ?h :: u32) = unat ?h" by (simp add: unsigned_ucast_eq take_bit_nat_eq_self_iff)
  then show ?thesis by (simp add: RouteShard_def routeKey_def routeHash_key)
qed

subsection \<open>The table of a collection\<close>

definition collView :: "'i Collection \<Rightarrow> string \<Rightarrow> CoreRecord option" where
  "collView c k = shardView (co_shards c ! routeKey (length (co_shards c)) k) k"

definition collShape :: "'i Collection \<Rightarrow> bool" where
  "collShape c \<longleftrightarrow> co_shards c \<noteq> [] \<and> length (co_shards c) < 2 ^ 32
     \<and> (\<forall>i < length (co_shards c). sh_config (co_shards c ! i) = co_config c
          \<and> (\<forall>k \<in> dom (shardView (co_shards c ! i)). routeKey (length (co_shards c)) k = i))"

lemma collShapeD:
  assumes "collShape c"
  shows "0 < length (co_shards c)" and "length (co_shards c) < 2 ^ 32"
    and "unat (RouteShard c namespace uid) = routeKey (length (co_shards c)) (recordKey namespace uid)"
    and "routeKey (length (co_shards c)) k < length (co_shards c)"
    and "i < length (co_shards c) \<Longrightarrow> sh_config (co_shards c ! i) = co_config c"
    and "i < length (co_shards c) \<Longrightarrow> shardView (co_shards c ! i) k = Some r \<Longrightarrow> routeKey (length (co_shards c)) k = i"
  using assms by (auto simp: collShape_def RouteShard_key routeKey_less)

lemma collShape_upd:
  assumes "collShape c" and "i < length (co_shards c)" and "sh_config sh = co_config c"
    and "\<And>k. shardView sh k \<noteq> None \<Longrightarrow> routeKey (length (co_shards c)) k = i"
  shows "collShape (c\<lparr>co_shards := (co_shards c)[i := sh]\<rparr>)"
    and "collView (c\<lparr>co_shards := (co_shards c)[i := sh]\<rparr>) k = (if routeKey (length (co_shards c)) k = i then shardView sh k else collView c k)"
  using assms by (auto simp: collShape_def collView_def nth_list_update dom_def)

lemma collView_dom:
  assumes "collShape c"
  shows "dom (collView c) = (\<Union>i<length (co_shards c). dom (shardView (co_shards c ! i)))"
proof -
  have "k \<in> dom (collView c)" if "i < length (co_shards c)" "shardView (co_shards c ! i) k = Some r" for i k r
    using collShapeD(6) [OF assms that] that by (auto simp: collView_def)
  then show ?thesis using collShapeD(4) [OF assms] by (auto simp: collView_def) blast+
qed

lemma collView_finite [simp]: "collShape c \<Longrightarrow> finite (dom (collView c))"
  by (simp add: collView_dom)

lemma shards_apart:
  assumes "collShape c" and "i < length (co_shards c)" and "j < length (co_shards c)" and "i \<noteq> j"
  shows "dom (shardView (co_shards c ! i)) \<inter> dom (shardView (co_shards c ! j)) = {}"
proof -
  have False if "shardView (co_shards c ! i) k = Some r" "shardView (co_shards c ! j) k = Some r'" for k r r'
    using collShapeD(6) [OF assms(1,2) that(1)] collShapeD(6) [OF assms(1,3) that(2)] assms(4) by simp
  then show ?thesis by (auto simp: dom_def)
qed

lemma collView_card:
  assumes "collShape c"
  shows "card (dom (collView c)) = (\<Sum>i<length (co_shards c). card (dom (shardView (co_shards c ! i))))"
  unfolding collView_dom [OF assms] using shards_apart [OF assms] by (intro card_UN_disjoint) simp_all

text \<open>How far the ordinals and the tables can have grown after a number of operations.\<close>

definition collRoom :: "nat \<Rightarrow> 'i Collection \<Rightarrow> bool" where
  "collRoom m c \<longleftrightarrow> (\<forall>sh \<in> set (co_shards c). unat (nextID (active sh)) \<le> Suc m \<and> card (dom (shardView sh)) \<le> m)"

lemma collRoom_upd:
  assumes "collRoom m c" and "m \<le> m'" and "unat (nextID (active sh)) \<le> Suc m'" and "card (dom (shardView sh)) \<le> m'"
  shows "collRoom m' (c\<lparr>co_shards := (co_shards c)[i := sh]\<rparr>)"
  using assms set_update_subset_insert [of "co_shards c" i sh] by (fastforce simp: collRoom_def)

lemma unat_plus_one_le: "unat (x + 1 :: u64) \<le> Suc (unat x)"
  using mod_less_eq_dividend [of "unat x + 1" "2 ^ 64"] by (simp add: unat_word_ariths)

context segment_env
begin

definition coll_inv :: "'i Collection \<Rightarrow> bool" where
  "coll_inv c \<longleftrightarrow> collShape c \<and> exact_config (co_config c) \<and> (\<forall>sh \<in> set (co_shards c). shard_inv sh)"

lemma CollGet_view:
  assumes "coll_inv c"
  shows "CollGet c namespace uid = (case collView c (recordKey namespace uid) of None \<Rightarrow> Inl ErrNotFound | Some r \<Rightarrow> Inr r)"
proof -
  have s: "collShape c" and i: "\<forall>sh \<in> set (co_shards c). shard_inv sh" using assms by (auto simp: coll_inv_def)
  let ?i = "routeKey (length (co_shards c)) (recordKey namespace uid)"
  have "shard_inv (co_shards c ! ?i)" using i collShapeD(4) [OF s] by simp
  then show ?thesis
    using ShardGet_view collShapeD(3,4) [OF s] by (simp add: CollGet_def readShard_def collView_def)
qed

lemma CollCount_view:
  assumes "coll_inv c"
  shows "CollCount c = int (card (dom (collView c)))"
proof -
  have s: "collShape c" using assms by (simp add: coll_inv_def)
  have n: "sh_count (co_shards c ! i) = int (card (dom (shardView (co_shards c ! i))))" if "i < length (co_shards c)" for i
  proof -
    have "shard_inv (co_shards c ! i)" using assms that by (simp add: coll_inv_def)
    then show ?thesis by (simp add: shard_inv_def delta_ok_def)
  qed
  have "CollCount c = (\<Sum>i<length (co_shards c). sh_count (co_shards c ! i))"
    by (simp add: CollCount_def sum_list_sum_nth atLeast0LessThan)
  also have "\<dots> = (\<Sum>i<length (co_shards c). int (card (dom (shardView (co_shards c ! i)))))" using n by simp
  finally show ?thesis by (simp add: collView_card [OF s])
qed

lemma ApplyUpsert_view:
  assumes inv: "coll_inv c" and r: "record_ok E r" "int (length (cr_Vector r)) = Dimension (co_config c)"
    and room: "collRoom m c" "m < 2 ^ 64 - 2"
  shows "\<exists>c'. ApplyUpsert E c r = (Inr (), c') \<and> coll_inv c' \<and> co_config c' = co_config c \<and> co_version c' = co_version c
    \<and> collRoom (Suc m) c' \<and> collView c' = (collView c)(keyOf r \<mapsto> storedNamed (declaredConfigs (co_config c)) r)"
proof -
  have s: "collShape c" and shs: "\<forall>sh \<in> set (co_shards c). shard_inv sh" and ec: "exact_config (co_config c)" using inv by (auto simp: coll_inv_def)
  let ?n = "length (co_shards c)" and ?i = "routeKey (length (co_shards c)) (keyOf r)"
  let ?sh = "co_shards c ! ?i"
  have i: "?i < ?n" "unat (RouteShard c (Namespace r) (cr_ID r)) = ?i" using collShapeD(3,4) [OF s] by auto
  have sh: "shard_inv ?sh" "?sh \<in> set (co_shards c)" "sh_config ?sh = co_config c" using shs i(1) collShapeD(5) [OF s] by auto
  have lo: "unat (nextID (active ?sh)) \<le> Suc m" "card (dom (shardView ?sh)) \<le> m" using room(1) sh(2) by (auto simp: collRoom_def)
  have "nextID (active ?sh) \<noteq> - 1"
  proof
    assume "nextID (active ?sh) = - 1"
    then have "unat (nextID (active ?sh)) = mask 64" by (simp add: unsigned_minus_1_eq_mask)
    then show False using lo(1) room(2) by (simp add: mask_eq_exp_minus_1)
  qed
  then obtain sh' where u: "ShardUpsert E ?sh r = (Inr (), sh')" "shard_inv sh'" "sh_config sh' = sh_config ?sh"
      "nextID (active sh') \<le> nextID (active ?sh) + 1"
      "shardView sh' = (shardView ?sh)(keyOf r \<mapsto> storedNamed (declaredConfigs (sh_config ?sh)) r)"
    using ShardUpsert_view [OF sh(1) r(1)] r(2) sh(3) by auto
  define c' where "c' = c\<lparr>co_shards := (co_shards c)[?i := sh']\<rparr>"
  have home: "routeKey ?n k = ?i" if "shardView sh' k \<noteq> None" for k
    using that u(5) collShapeD(6) [OF s i(1), of k] by (auto split: if_splits)
  note up = collShape_upd [OF s i(1), of sh', OF u(3) [unfolded sh(3)] home]
  have "unat (nextID (active sh')) \<le> Suc (Suc m)"
    using u(4) unat_plus_one_le [of "nextID (active ?sh)"] lo(1) by (simp add: word_le_nat_alt)
  moreover have "card (dom (shardView sh')) \<le> Suc m" using u(5) lo(2) card_upd(1) [OF shardView_finite, of ?sh "keyOf r"] by simp
  ultimately have "collRoom (Suc m) c'" using collRoom_upd [OF room(1), of "Suc m"] by (simp add: c'_def)
  moreover have "collView c' = (collView c)(keyOf r \<mapsto> storedNamed (declaredConfigs (co_config c)) r)"
    using up(2) u(5) sh(3) by (auto simp: c'_def fun_eq_iff collView_def)
  moreover have "coll_inv c'" using up(1) shs u(2) ec by (auto simp: coll_inv_def c'_def dest: set_update_subset_insert [THEN subsetD])
  moreover have "ApplyUpsert E c r = (Inr (), c')" using i u(1) by (simp add: ApplyUpsert_def onShard_def c'_def)
  ultimately show ?thesis by (auto simp: c'_def)
qed

lemma deleteShard_view:
  assumes inv: "coll_inv c" and room: "collRoom m c" and k: "collView c (recordKey namespace uid) \<noteq> None"
  shows "\<exists>c'. onShard c (RouteShard c namespace uid) (\<lambda>sh. ShardDelete E sh namespace uid) = (Inr (), c') \<and> coll_inv c'
    \<and> co_config c' = co_config c \<and> co_version c' = co_version c \<and> collRoom m c' \<and> collView c' = (collView c)(recordKey namespace uid := None)"
proof -
  have s: "collShape c" and shs: "\<forall>sh \<in> set (co_shards c). shard_inv sh" and ec: "exact_config (co_config c)" using inv by (auto simp: coll_inv_def)
  let ?n = "length (co_shards c)" and ?i = "routeKey (length (co_shards c)) (recordKey namespace uid)"
  let ?sh = "co_shards c ! ?i"
  have i: "?i < ?n" "unat (RouteShard c namespace uid) = ?i" using collShapeD(3,4) [OF s] by auto
  have sh: "shard_inv ?sh" "?sh \<in> set (co_shards c)" "sh_config ?sh = co_config c" using shs i(1) collShapeD(5) [OF s] by auto
  obtain sh' where u: "ShardDelete E ?sh namespace uid = (Inr (), sh')" "shard_inv sh'" "sh_config sh' = sh_config ?sh"
      "nextID (active sh') = nextID (active ?sh)" "shardView sh' = (shardView ?sh)(recordKey namespace uid := None)"
    using ShardDelete_view [OF sh(1), of namespace uid] k by (auto simp: collView_def)
  define c' where "c' = c\<lparr>co_shards := (co_shards c)[?i := sh']\<rparr>"
  have home: "routeKey ?n k = ?i" if "shardView sh' k \<noteq> None" for k
    using that u(5) collShapeD(6) [OF s i(1), of k] by (auto split: if_splits)
  note up = collShape_upd [OF s i(1), of sh', OF u(3) [unfolded sh(3)] home]
  have "card (dom (shardView sh')) \<le> card (dom (shardView ?sh))" using u(5) by (intro card_mono) auto
  then have "collRoom m c'" using collRoom_upd [OF room, of m sh'] room sh(2) u(4) by (auto simp: c'_def collRoom_def)
  moreover have "collView c' = (collView c)(recordKey namespace uid := None)"
    using up(2) u(5) by (auto simp: c'_def fun_eq_iff collView_def)
  moreover have "coll_inv c'" using up(1) shs u(2) ec by (auto simp: coll_inv_def c'_def dest: set_update_subset_insert [THEN subsetD])
  ultimately show ?thesis using i u(1) by (auto simp: onShard_def c'_def)
qed

lemma deleteShard_missing:
  assumes inv: "coll_inv c" and k: "collView c (recordKey namespace uid) = None"
  shows "onShard c (RouteShard c namespace uid) (\<lambda>sh. ShardDelete E sh namespace uid) = (Inl ErrNotFound, c)"
proof -
  have s: "collShape c" and shs: "\<forall>sh \<in> set (co_shards c). shard_inv sh" using inv by (auto simp: coll_inv_def)
  let ?i = "routeKey (length (co_shards c)) (recordKey namespace uid)"
  have i: "?i < length (co_shards c)" "unat (RouteShard c namespace uid) = ?i" using collShapeD(3,4) [OF s] by auto
  then have "ShardDelete E (co_shards c ! ?i) namespace uid = (Inl ErrNotFound, co_shards c ! ?i)"
    using ShardDelete_missing [of "co_shards c ! ?i" namespace uid] shs k by (auto simp: collView_def)
  then show ?thesis using i by (simp add: onShard_def)
qed

lemma installBase_view:
  assumes inv: "coll_inv c" and room: "collRoom m c" and n: "unat n < length (co_shards c)"
    and adopt: "adoptRecords n complaint rs c = (Inr (), c)"
    and b: "based (co_config c) b" "segView b = shardView (co_shards c ! unat n)"
  shows "\<exists>c'. installBase E n complaint rs (Inr b) c = (Inr (), c') \<and> coll_inv c' \<and> co_config c' = co_config c \<and> co_version c' = co_version c
    \<and> collRoom m c' \<and> collView c' = collView c"
proof -
  have s: "collShape c" and shs: "\<forall>sh \<in> set (co_shards c). shard_inv sh" and ec: "exact_config (co_config c)" using inv by (auto simp: coll_inv_def)
  let ?sh = "co_shards c ! unat n"
  have sh: "shard_inv ?sh" "?sh \<in> set (co_shards c)" "sh_config ?sh = co_config c" using shs n collShapeD(5) [OF s] by auto
  obtain sh' where u: "InstallImmutable E ?sh b = (Inr (), sh')" "shard_inv sh'" "sh_config sh' = sh_config ?sh" "nextID (active sh') = 1"
      "shardView sh' = segView b"
    using InstallImmutable_view [OF sh(1)] b(1) sh(3) by auto
  define c' where "c' = c\<lparr>co_shards := (co_shards c)[unat n := sh']\<rparr>"
  have home: "routeKey (length (co_shards c)) k = unat n" if "shardView sh' k \<noteq> None" for k
    using that u(5) b(2) collShapeD(6) [OF s n, of k] by auto
  note up = collShape_upd [OF s n, of sh', OF u(3) [unfolded sh(3)] home]
  have "collRoom m c'" using collRoom_upd [OF room, of m sh'] room sh(2) u(4,5) b(2) by (auto simp: c'_def collRoom_def)
  moreover have "collView c' = collView c" using up(2) u(5) b(2) by (auto simp: c'_def fun_eq_iff collView_def)
  moreover have "coll_inv c'" using up(1) shs u(2) ec by (auto simp: coll_inv_def c'_def dest: set_update_subset_insert [THEN subsetD])
  moreover have "installBase E n complaint rs (Inr b) c = (Inr (), c')"
    using n adopt u(1) by (simp add: installBase_def onShard_def c'_def)
  ultimately show ?thesis by (auto simp: c'_def)
qed

end

subsection \<open>Searching the table\<close>

lemma mset_set_UN:
  assumes "\<And>i. i < n \<Longrightarrow> finite (A i)" and "\<And>i j. i < n \<Longrightarrow> j < n \<Longrightarrow> i \<noteq> j \<Longrightarrow> A i \<inter> A j = {}"
  shows "mset_set (\<Union>i<n. A i) = sum_list (map (\<lambda>i. mset_set (A i)) [0..<n])"
  using assms
proof (induction n)
  case (Suc n)
  have "A i \<inter> A n = {}" if "i < n" for i using Suc.prems(2) [of i n] that by simp
  then have "(\<Union>i<n. A i) \<inter> A n = {}" by blast
  then have "mset_set (\<Union>i<Suc n. A i) = mset_set (\<Union>i<n. A i) + mset_set (A n)"
    using Suc.prems(1) by (subst mset_set_Union [symmetric]) (auto simp: lessThan_Suc Un_commute)
  then show ?case using Suc by simp
qed simp

lemma image_mset_parts: "image_mset f (sum_list (map g xs)) = sum_list (map (\<lambda>x. image_mset f (g x)) xs)"
  by (induction xs) auto

lemma resultsOf_shards:
  assumes "collShape c"
  shows "resultsOf E m q (collView c) P = sum_list (map (\<lambda>sh. resultsOf E m q (shardView sh) P) (co_shards c))"
proof -
  let ?n = "length (co_shards c)" and ?A = "\<lambda>i. tableHits (shardView (co_shards c ! i)) P"
  have home: "collView c k = shardView (co_shards c ! i) k" if "i < ?n" "k \<in> ?A i" for i k
    using that collShapeD(6) [OF assms] by (fastforce simp: tableHits_def collView_def)
  have fin: "finite (?A i)" for i
    by (rule finite_subset [OF _ shardView_finite [of "co_shards c ! i"]]) (auto simp: tableHits_def)
  have dj: "?A i \<inter> ?A j = {}" if "i < ?n" "j < ?n" "i \<noteq> j" for i j
    using shards_apart [OF assms that] by (auto simp: tableHits_def)
  have "tableHits (collView c) P = (\<Union>i<?n. ?A i)"
  proof (intro equalityI subsetI)
    fix k assume "k \<in> tableHits (collView c) P"
    then have "k \<in> ?A (routeKey ?n k)" by (simp add: tableHits_def collView_def)
    then show "k \<in> (\<Union>i<?n. ?A i)" using collShapeD(4) [OF assms] by blast
  next
    fix k assume "k \<in> (\<Union>i<?n. ?A i)"
    then obtain i where i: "i < ?n" "k \<in> ?A i" by blast
    then show "k \<in> tableHits (collView c) P" using home [OF i] by (simp add: tableHits_def)
  qed
  then have "resultsOf E m q (collView c) P = image_mset (\<lambda>k. scoredResult E m q (the (collView c k))) (sum_list (map (\<lambda>i. mset_set (?A i)) [0..<?n]))"
    using mset_set_UN [of ?n ?A] fin dj by (simp add: resultsOf_def)
  also have "\<dots> = sum_list (map (\<lambda>i. image_mset (\<lambda>k. scoredResult E m q (the (collView c k))) (mset_set (?A i))) [0..<?n])"
    by (rule image_mset_parts)
  also have "\<dots> = sum_list (map (\<lambda>i. resultsOf E m q (shardView (co_shards c ! i)) P) [0..<?n])"
    using home fin by (intro arg_cong [where f = sum_list] map_cong refl) (auto simp: resultsOf_def intro!: image_mset_cong)
  also have "\<dots> = sum_list (map (\<lambda>sh. resultsOf E m q (shardView sh) P) (co_shards c))"
    by (rule arg_cong [where f = sum_list], rule nth_equalityI) simp_all
  finally show ?thesis .
qed

context segment_env
begin

lemma CollSearch_exact:
  assumes inv: "coll_inv c" and v: "ValidateVector q (Dimension (co_config c)) = Inr ()" and k: "0 < k" and ef: "0 \<le> ef" "ef \<le> 10000"
    and f: "wt flt" "plain flt" and sc: "scorable_in E (Metric (co_config c)) q (collView c) (selects E namespace flt)"
  shows "\<exists>rs. CollSearch E c namespace q (int k) flt ef = Inr rs \<and> sorted (map resKey rs)
    \<and> best_k scoreKey k (resultsOf E (Metric (co_config c)) q (collView c) (selects E namespace flt)) (mset rs)"
proof -
  have s: "collShape c" and shs: "\<forall>sh \<in> set (co_shards c). shard_inv sh" using inv by (auto simp: coll_inv_def)
  let ?m = "Metric (co_config c)" and ?P = "selects E namespace flt"
  let ?R = "\<lambda>sh. resultsOf E ?m q (shardView sh) ?P"
  have dim: "int (length q) = Dimension (co_config c)" using v by (simp add: ValidateVector_iff)
  have part: "\<exists>rs. ShardSearch E sh namespace q (int k) flt ef = Inr rs \<and> sorted (map resKey rs) \<and> best_k scoreKey k (?R sh) (mset rs)
      \<and> (\<forall>r \<in> set rs. resOk r)" if sh: "sh \<in> set (co_shards c)" for sh
  proof -
    obtain i where i: "i < length (co_shards c)" "sh = co_shards c ! i" using sh by (auto simp: in_set_conv_nth)
    have sci: "scorable_in E ?m q (shardView sh) ?P"
      using sc collShapeD(6) [OF s i(1)] i(2) by (auto simp: scorable_in_def collView_def)
    obtain rs where rs: "ShardSearch E sh namespace q (int k) flt ef = Inr rs" "sorted (map resKey rs)" "best_k scoreKey k (?R sh) (mset rs)"
      using ShardSearch_exact [of sh q k flt namespace ef] shs sh dim k f sci i collShapeD(5) [OF s i(1)] by auto
    moreover have "\<forall>r \<in> set rs. resOk r"
      using resultsOf_ok [OF sci shardView_finite] mset_subset_eqD [OF best_k_subset [OF rs(3)]] by auto
    ultimately show ?thesis by blast
  qed
  show ?thesis
  proof (cases "length (co_shards c) = 1")
    case True
    then obtain sh where sh: "co_shards c = [sh]" by (auto simp: length_Suc_conv)
    then show ?thesis using part [of sh] v k ef resultsOf_shards [OF s, of E ?m q ?P]
      by (auto simp: CollSearch_def searchOptions_def readShard_def)
  next
    case False
    obtain g where g: "\<And>sh. sh \<in> set (co_shards c) \<Longrightarrow> ShardSearch E sh namespace q (int k) flt ef = Inr (g sh) \<and> best_k scoreKey k (?R sh) (mset (g sh))
        \<and> (\<forall>r \<in> set (g sh). resOk r)"
      using part by metis
    let ?parts = "map g (co_shards c)"
    have "mapR (\<lambda>sh. ShardSearch E sh namespace q (int k) flt ef) (co_shards c) = Inr ?parts" using g by (intro mapR_all) blast
    moreover obtain best where best: "mergeTopK ?parts (int k) = Inr best" "sorted (map resKey best)" "best_k resKey k (mset (concat ?parts)) (mset best)"
      using mergeTopK_best [of ?parts k] g k by auto
    moreover have "list_all2 (\<lambda>S p. best_k scoreKey k S (mset p)) (map ?R (co_shards c)) ?parts"
      using g by (simp add: list_all2_conv_all_nth)
    then have "best_k scoreKey k (sum_list (map ?R (co_shards c)) + {#}) (mset best)"
      by (rule best_k_parts) (use best_k_scoreKey [OF best(3)] in simp)
    ultimately show ?thesis using False v k ef resultsOf_shards [OF s, of E ?m q ?P] by (auto simp: CollSearch_def searchOptions_def)
  qed
qed

end

end
