(* ===== verification/Collection_History.thy ===== *)
theory Collection_History
  imports Collection_Props
begin

text \<open>
  Histories of a collection against a plain table: upserts, deletes and checkpoints of either kind, in any order. The collection
  answers every request as the table does; checkpoints are invisible.
\<close>

subsection \<open>Stored records are fixed points of storing\<close>

definition pick :: "('c \<Rightarrow> bool) \<Rightarrow> ('c \<Rightarrow> 'v \<Rightarrow> 'v) \<Rightarrow> (string \<times> 'c) list \<Rightarrow> (string \<times> 'v) list \<Rightarrow> (string \<times> 'v) list" where
  "pick ok h cs vs = List.map_filter (\<lambda>(name, c). if ok c then map_option (\<lambda>v. (name, h c v)) (map_of vs name) else None) cs"

lemma pick_simps:
  "pick ok h [] vs = []"
  "\<not> ok c \<Longrightarrow> pick ok h ((name, c) # cs) vs = pick ok h cs vs"
  "map_of vs name = None \<Longrightarrow> pick ok h ((name, c) # cs) vs = pick ok h cs vs"
  "ok c \<Longrightarrow> map_of vs name = Some v \<Longrightarrow> pick ok h ((name, c) # cs) vs = (name, h c v) # pick ok h cs vs"
  by (simp_all add: pick_def map_filter_simps)

lemma storedNamed_pick:
  "storedNamed cs r = r\<lparr>cr_Vectors := pick (\<lambda>c. \<not> MultiVector c) (\<lambda>c. RoundToDatatype (Datatype c)) cs (cr_Vectors r),
     MultiVectors := pick MultiVector (\<lambda>c. map (RoundToDatatype (Datatype c))) cs (MultiVectors r)\<rparr>"
proof -
  have "(\<lambda>(name, c). if MultiVector c then None else map_option (\<lambda>v. (name, RoundToDatatype (Datatype c) v)) (map_of (cr_Vectors r) name))
      = (\<lambda>(name, c). if \<not> MultiVector c then map_option (\<lambda>v. (name, RoundToDatatype (Datatype c) v)) (map_of (cr_Vectors r) name) else None)"
    by auto
  then show ?thesis unfolding storedNamed_def pick_def by (rule arg_cong)
qed

lemma pick_cases:
  obtains "pick ok h ((name, c) # cs) vs = pick ok h cs vs" "\<not> ok c \<or> map_of vs name = None"
  | v where "pick ok h ((name, c) # cs) vs = (name, h c v) # pick ok h cs vs" "ok c" "map_of vs name = Some v"
  by (cases "ok c"; cases "map_of vs name") (auto simp: pick_simps)

lemma pick_names: "fst ` set (pick ok h cs vs) \<subseteq> fst ` set cs"
proof (induction cs)
  case (Cons a cs)
  obtain n d where a: "a = (n, d)" by (cases a)
  show ?case unfolding a by (rule pick_cases [of ok h n d cs vs]) (use Cons in auto)
qed (simp add: pick_simps)

lemma pick_lookup:
  "distinct (map fst cs) \<Longrightarrow> (name, c) \<in> set cs \<Longrightarrow> map_of (pick ok h cs vs) name = (if ok c then map_option (h c) (map_of vs name) else None)"
proof (induction cs)
  case (Cons a cs)
  obtain n d where a: "a = (n, d)" by (cases a)
  show ?case
  proof (cases "n = name")
    case True
    have "name \<notin> fst ` set cs" using Cons.prems(1) a True by auto
    then have "map_of (pick ok h cs vs) name = None" using pick_names [of ok h cs vs] by (auto simp: map_of_eq_None_iff)
    moreover have "d = c" using Cons.prems a True by force
    ultimately show ?thesis unfolding a by (cases rule: pick_cases [of ok h n d cs vs]) (auto simp: True)
  next
    case False
    then have "map_of (pick ok h (a # cs) vs) name = map_of (pick ok h cs vs) name"
      unfolding a by (cases rule: pick_cases [of ok h n d cs vs]) auto
    then show ?thesis using Cons a False by simp
  qed
qed simp

lemma pick_cong: "(\<And>name c. (name, c) \<in> set cs \<Longrightarrow> ok c \<Longrightarrow> map_option (h c) (map_of vs name) = map_option (h c) (map_of ws name)) \<Longrightarrow> pick ok h cs vs = pick ok h cs ws"
proof (induction cs)
  case (Cons a cs)
  obtain n d where a: "a = (n, d)" by (cases a)
  have eq: "ok d \<Longrightarrow> map_option (h d) (map_of vs n) = map_option (h d) (map_of ws n)" using Cons.prems a by simp
  have tl: "pick ok h cs vs = pick ok h cs ws" using Cons by simp
  show ?case
  proof (cases "ok d")
    case True
    then show ?thesis using eq tl unfolding a by (cases "map_of vs n"; cases "map_of ws n") (simp_all add: pick_simps)
  qed (simp add: a tl pick_simps)
qed (simp add: pick_simps)

lemma pick_idem:
  assumes "distinct (map fst cs)" and "\<And>name c v. (name, c) \<in> set cs \<Longrightarrow> ok c \<Longrightarrow> map_of vs name = Some v \<Longrightarrow> h c (h c v) = h c v"
  shows "pick ok h cs (pick ok h cs vs) = pick ok h cs vs"
proof (rule pick_cong)
  fix name c
  assume c: "(name, c) \<in> set cs" "ok c"
  show "map_option (h c) (map_of (pick ok h cs vs) name) = map_option (h c) (map_of vs name)"
    using pick_lookup [OF assms(1) c(1), of ok h vs] c(2) assms(2) [OF c] by (cases "map_of vs name") auto
qed

lemma declared_field:
  assumes "exact_config c"
  shows "distinct (map fst (declaredConfigs c))" and "(name, f) \<in> set (declaredConfigs c) \<Longrightarrow> VectorFieldOf c name = Some f"
proof -
  show "distinct (map fst (declaredConfigs c))" using assms by (simp add: declaredConfigs_def o_def VectorFieldNames_def exact_config_def)
  show "VectorFieldOf c name = Some f" if "(name, f) \<in> set (declaredConfigs c)"
  proof -
    have "name \<in> fst ` set (Vectors c)" "f = the (VectorFieldOf c name)" using that by (auto simp: declaredConfigs_def VectorFieldNames_def)
    then show ?thesis by (cases "map_of (Vectors c) name") (auto simp: VectorFieldOf_def map_of_eq_None_iff)
  qed
qed

lemma prepared_fixed:
  assumes "PrepareNamedVectors c r = Inr p"
  shows "(name, v) \<in> set (cr_Vectors p) \<Longrightarrow> VectorFieldOf c name = Some f \<Longrightarrow> RoundToDatatype (Datatype f) v = v"
    and "(name, vs) \<in> set (MultiVectors p) \<Longrightarrow> VectorFieldOf c name = Some f \<Longrightarrow> map (RoundToDatatype (Datatype f)) vs = vs"
proof -
  have "mapR (prepareVector c) (cr_Vectors p) = Inr (cr_Vectors p) \<and> mapR (prepareMultiVector c) (MultiVectors p) = Inr (MultiVectors p)"
  proof (cases "cr_Vectors r = [] \<and> MultiVectors r = []")
    case True
    then show ?thesis using assms by (auto simp: PrepareNamedVectors_def mapR_def)
  next
    case False
    then obtain vs ms where s: "mapR (prepareVector c) (cr_Vectors r) = Inr vs"
        "mapR (prepareMultiVector c) (MultiVectors r) = Inr ms" "p = r\<lparr>cr_Vectors := vs, MultiVectors := ms\<rparr>"
      using assms by (auto simp: PrepareNamedVectors_def and_then_Inr_iff)
    then show ?thesis by (auto intro: mapR_fixed prepareVector_fixed prepareMultiVector_fixed)
  qed
  then have fx: "prepareVector c x = Inr x" if "x \<in> set (cr_Vectors p)" for x
    using that unfolding mapR_iff by (auto simp: list_all2_conv_all_nth in_set_conv_nth)
  have fm: "prepareMultiVector c x = Inr x" if "x \<in> set (MultiVectors p)" for x
    using \<open>mapR (prepareVector c) (cr_Vectors p) = Inr (cr_Vectors p) \<and> mapR (prepareMultiVector c) (MultiVectors p) = Inr (MultiVectors p)\<close> that
    unfolding mapR_iff by (auto simp: list_all2_conv_all_nth in_set_conv_nth)
  show "RoundToDatatype (Datatype f) v = v" if "(name, v) \<in> set (cr_Vectors p)" "VectorFieldOf c name = Some f"
    using fx [OF that(1)] that(2) by (auto simp: prepareVector_def Let_def and_then_Inr_iff split: if_splits)
  show "map (RoundToDatatype (Datatype f)) vs = vs" if "(name, vs) \<in> set (MultiVectors p)" "VectorFieldOf c name = Some f"
    using fm [OF that(1)] that(2) by (auto simp: prepareMultiVector_def Let_def and_then_Inr_iff split: if_splits)
qed

lemma stored_inStoredForm:
  assumes "exact_config c" and "PrepareNamedVectors c r = Inr p"
  shows "inStoredForm c (storedNamed (declaredConfigs c) (p\<lparr>cr_Version := v, Timestamp := now\<rparr>))"
proof -
  have "pick (\<lambda>c. \<not> MultiVector c) (\<lambda>c. RoundToDatatype (Datatype c)) (declaredConfigs c)
      (pick (\<lambda>c. \<not> MultiVector c) (\<lambda>c. RoundToDatatype (Datatype c)) (declaredConfigs c) (cr_Vectors p))
    = pick (\<lambda>c. \<not> MultiVector c) (\<lambda>c. RoundToDatatype (Datatype c)) (declaredConfigs c) (cr_Vectors p)"
    using prepared_fixed(1) [OF assms(2)] declared_field [OF assms(1)] by (intro pick_idem) (auto dest!: map_of_SomeD)
  moreover have "pick MultiVector (\<lambda>c. map (RoundToDatatype (Datatype c))) (declaredConfigs c)
      (pick MultiVector (\<lambda>c. map (RoundToDatatype (Datatype c))) (declaredConfigs c) (MultiVectors p))
    = pick MultiVector (\<lambda>c. map (RoundToDatatype (Datatype c))) (declaredConfigs c) (MultiVectors p)"
  proof (rule pick_idem)
    fix name f vs
    assume "(name, f) \<in> set (declaredConfigs c)" "map_of (MultiVectors p) name = Some vs"
    then have "map (RoundToDatatype (Datatype f)) vs = vs"
      using prepared_fixed(2) [OF assms(2)] declared_field(2) [OF assms(1)] by (auto dest!: map_of_SomeD)
    then show "map (RoundToDatatype (Datatype f)) (map (RoundToDatatype (Datatype f)) vs) = map (RoundToDatatype (Datatype f)) vs" by simp
  qed (rule declared_field(1) [OF assms(1)])
  ultimately show ?thesis by (simp add: inStoredForm_def storedNamed_pick)
qed

subsection \<open>Histories and the table they describe\<close>

datatype coll_op =
    CUpsert int CoreRecord
  | CDelete string string
  | CCheckpoint u32
  | CMapped u32

text \<open>A checkpoint of a shard installs the shard's own records, from memory or from a mapped file that holds their vectors.\<close>

definition collStep :: "'i seg_env \<Rightarrow> coll_op \<Rightarrow> 'i Collection \<Rightarrow> 'i Collection" where
  "collStep E op c =
     (case op of
        CUpsert now r \<Rightarrow> snd (CollUpsert E now c r)
      | CDelete namespace uid \<Rightarrow> snd (CollDelete E c namespace uid)
      | CCheckpoint n \<Rightarrow> (case CollShardRecords c n of Inl _ \<Rightarrow> c | Inr rs \<Rightarrow> snd (ReplaceShardRecords E n rs c))
      | CMapped n \<Rightarrow> (case CollShardRecords c n of
            Inl _ \<Rightarrow> c
          | Inr rs \<Rightarrow> snd (InstallMappedShard E n rs \<lparr>ms_dimension = Dimension (co_config c), ms_rows = Some (map cr_Vector rs)\<rparr> None None c)))"

type_synonym table_state = "(string \<Rightarrow> CoreRecord option) \<times> u64"

definition tableStep :: "CollectionConfig \<Rightarrow> coll_op \<Rightarrow> table_state \<Rightarrow> table_state" where
  "tableStep config op = (\<lambda>(tbl, v).
     case op of
       CUpsert now r \<Rightarrow> (case validateUpsert config r of
           Inl _ \<Rightarrow> (tbl, v)
         | Inr p \<Rightarrow> (tbl(keyOf p \<mapsto> storedNamed (declaredConfigs config) (p\<lparr>cr_Version := v + 1, Timestamp := now\<rparr>)), v + 1))
     | CDelete namespace uid \<Rightarrow>
         if tbl (recordKey namespace uid) = None then (tbl, v) else (tbl(recordKey namespace uid := None), v + 1)
     | _ \<Rightarrow> (tbl, v))"

definition op_ok :: "'i seg_env \<Rightarrow> coll_op \<Rightarrow> bool" where
  "op_ok E op \<longleftrightarrow> (case op of CUpsert now r \<Rightarrow> good_doc (lexLib E) r \<and> distinct (map fst (Metadata r)) | _ \<Rightarrow> True)"

definition row_ok :: "'i seg_env \<Rightarrow> CollectionConfig \<Rightarrow> u64 \<Rightarrow> string \<Rightarrow> CoreRecord \<Rightarrow> bool" where
  "row_ok E config v k r \<longleftrightarrow> inStoredForm config r \<and> record_ok E r \<and> int (length (cr_Vector r)) = Dimension config \<and> cr_Version r \<le> v \<and> keyOf r = k"

lemma validateUpsert_ok:
  assumes "validateUpsert config r = Inr p"
  shows "cr_ID p = cr_ID r" "Namespace p = Namespace r" "Metadata p = Metadata r" "SparseVector p = SparseVector r" "Text p = Text r"
    "cr_Vector p = cr_Vector r" "cr_ID r \<noteq> []" "int (length (cr_Vector r)) = Dimension config" "PrepareNamedVectors config r = Inr p"
proof -
  have v: "ValidateVector (cr_Vector r) (Dimension config) = Inr ()" "cr_ID r \<noteq> []" "PrepareNamedVectors config r = Inr p"
    using assms by (auto simp: validateUpsert_def and_then_Inr_iff split: if_splits)
  then have "p = r \<or> (\<exists>vs ms. p = r\<lparr>cr_Vectors := vs, MultiVectors := ms\<rparr>)"
    by (cases "cr_Vectors r = [] \<and> MultiVectors r = []") (auto simp: PrepareNamedVectors_def and_then_Inr_iff)
  then show "cr_ID p = cr_ID r" "Namespace p = Namespace r" "Metadata p = Metadata r" "SparseVector p = SparseVector r" "Text p = Text r"
    "cr_Vector p = cr_Vector r" by auto
  show "cr_ID r \<noteq> []" "int (length (cr_Vector r)) = Dimension config" "PrepareNamedVectors config r = Inr p"
    using v by (auto simp: ValidateVector_iff)
qed

lemma record_ok_fields2 [simp]:
  "record_ok E (storedNamed cs r) = record_ok E r" "record_ok E (r\<lparr>cr_Version := v, Timestamp := now\<rparr>) = record_ok E r"
  by (simp_all add: record_ok_def storedNamed_def good_doc_def docTokens_def)

lemma storedNamed_same [simp]:
  "cr_ID (storedNamed cs r) = cr_ID r" "Namespace (storedNamed cs r) = Namespace r" "cr_Version (storedNamed cs r) = cr_Version r"
  "cr_Vector (storedNamed cs r) = cr_Vector r"
  by (simp_all add: storedNamed_def)

lemma prepared_row:
  assumes "exact_config config" "validateUpsert config r = Inr p" "op_ok E (CUpsert now r)"
  shows "row_ok E config v (keyOf p) (storedNamed (declaredConfigs config) (p\<lparr>cr_Version := v, Timestamp := now\<rparr>))"
    and "record_ok E (p\<lparr>cr_Version := v, Timestamp := now\<rparr>)"
proof -
  note p = validateUpsert_ok [OF assms(2)]
  show ok: "record_ok E (p\<lparr>cr_Version := v, Timestamp := now\<rparr>)"
    using assms(3) p by (auto simp: record_ok_def op_ok_def good_doc_def docTokens_def)
  show "row_ok E config v (keyOf p) (storedNamed (declaredConfigs config) (p\<lparr>cr_Version := v, Timestamp := now\<rparr>))"
    using stored_inStoredForm [OF assms(1) p(9)] ok p by (simp add: row_ok_def)
qed

lemma adoptRecords_same:
  "\<forall>r \<in> set rs. RouteShard c (Namespace r) (cr_ID r) = n \<and> cr_Version r \<le> co_version c \<Longrightarrow> adoptRecords n complaint rs c = (Inr (), c)"
  by (induction rs) (auto simp: raiseVersion_def)

lemma fold_canonical:
  assumes "\<forall>r \<in> set rs. inStoredForm config r" and "distinct (map keyOf rs)"
  shows "fold (\<lambda>r t. t(keyOf r \<mapsto> storedNamed (declaredConfigs config) r)) rs t = t ++ tableOf rs"
  using assms
proof (induction rs arbitrary: t)
  case (Cons r rs)
  have step: "fold (\<lambda>r t. t(keyOf r \<mapsto> storedNamed (declaredConfigs config) r)) (r # rs) t = t(keyOf r \<mapsto> r) ++ tableOf rs"
    using Cons by (simp add: inStoredForm_def del: fun_upd_apply)
  have "tableOf rs (keyOf r) = None" using Cons.prems(2) by (auto simp: tableOf_def map_of_eq_None_iff)
  then have "t(keyOf r \<mapsto> r) ++ tableOf rs = t ++ tableOf (r # rs)" by (auto simp: fun_eq_iff map_add_def tableOf_def split: option.split)
  with step show ?case by (rule trans)
qed (simp add: tableOf_def)

lemma length_table: "distinct (map keyOf rs) \<Longrightarrow> length rs = card (dom (tableOf rs))"
  using distinct_card [of "map keyOf rs"] by (simp add: tableOf_def dom_map_of_conv_image_fst image_image)

lemma table_self: "distinct (map keyOf rs) \<Longrightarrow> r \<in> set rs \<Longrightarrow> tableOf rs (keyOf r) = Some r"
  by (simp add: tableOf_def comp_def map_of_eq_Some_iff)

lemma table_member: "distinct (map keyOf rs) \<Longrightarrow> r \<in> set rs \<longleftrightarrow> tableOf rs (keyOf r) = Some r"
  by (auto simp: table_self) (auto simp: tableOf_def dest!: map_of_SomeD)

subsection \<open>The collection refines the table\<close>

context segment_env
begin

definition hist_inv :: "nat \<Rightarrow> 'i Collection \<Rightarrow> bool" where
  "hist_inv m c \<longleftrightarrow> coll_inv c \<and> collRoom m c \<and> unat (co_version c) \<le> m
     \<and> (\<forall>k r. collView c k = Some r \<longrightarrow> row_ok E (co_config c) (co_version c) k r)"

lemma hist_inv_more: "hist_inv m c \<Longrightarrow> m \<le> m' \<Longrightarrow> hist_inv m' c"
  by (fastforce simp: hist_inv_def collRoom_def)

lemma own_records:
  assumes inv: "hist_inv m c" and rs: "CollShardRecords c n = Inr rs"
  shows "unat n < length (co_shards c)" and "distinct (map keyOf rs)" and "tableOf rs = shardView (co_shards c ! unat n)" and "length rs \<le> m"
    and "adoptRecords n complaint rs c = (Inr (), c)" and "\<forall>r \<in> set rs. row_ok E (co_config c) (co_version c) (keyOf r) r"
proof -
  have s: "collShape c" and shs: "\<forall>sh \<in> set (co_shards c). shard_inv sh" and room: "collRoom m c"
    using inv by (auto simp: hist_inv_def coll_inv_def)
  show n: "unat n < length (co_shards c)" using rs by (auto simp: CollShardRecords_def split: if_splits)
  let ?sh = "co_shards c ! unat n"
  have eq: "rs = ShardRecords ?sh" using rs n by (simp add: CollShardRecords_def readShard_def)
  have sh: "shard_inv ?sh" "card (dom (shardView ?sh)) \<le> m" using shs n room by (auto simp: collRoom_def)
  show d: "distinct (map keyOf rs)" and t: "tableOf rs = shardView ?sh" using ShardRecords_view [OF sh(1)] eq by auto
  show "length rs \<le> m" using length_table [OF d] sh(2) t by simp
  have in_view: "shardView ?sh (keyOf r) = Some r" if "r \<in> set rs" for r using table_self [OF d that] t by simp
  have home: "routeKey (length (co_shards c)) (keyOf r) = unat n" if "r \<in> set rs" for r
    using collShapeD(6) [OF s n in_view [OF that]] .
  show rows: "\<forall>r \<in> set rs. row_ok E (co_config c) (co_version c) (keyOf r) r"
    using in_view home inv by (auto simp: hist_inv_def collView_def)
  have "\<forall>r \<in> set rs. RouteShard c (Namespace r) (cr_ID r) = n \<and> cr_Version r \<le> co_version c"
    using home rows collShapeD(3) [OF s] by (auto simp: row_ok_def word_unat_eq_iff)
  then show "adoptRecords n complaint rs c = (Inr (), c)" by (rule adoptRecords_same)
qed

lemma checkpoint_step:
  assumes inv: "hist_inv m c" and rs: "CollShardRecords c n = Inr rs" and m: "m < 2 ^ 64 - 2"
  shows "\<exists>c'. ReplaceShardRecords E n rs c = (Inr (), c') \<and> hist_inv m c' \<and> collView c' = collView c \<and> co_version c' = co_version c \<and> co_config c' = co_config c"
proof -
  note o = own_records [OF inv rs]
  have ci: "coll_inv c" "exact_config (co_config c)" "collRoom m c" using inv by (auto simp: hist_inv_def coll_inv_def)
  obtain b where b: "NewImmutableWithPQ E (co_config c) rs None None = Inr b" "seg_inv E iv vec b" "dim (sg_index b) = Dimension (co_config c)"
      "metric (sg_index b) = Metric (co_config c)"
      "segView b = fold (\<lambda>r t. t(keyOf r \<mapsto> storedNamed (declaredConfigs (co_config c)) r)) rs Map.empty"
    using NewImmutable_table [OF ci(2), of rs None] o(4,6) m by (auto simp: row_ok_def)
  have "segView b = shardView (co_shards c ! unat n)"
    using b(5) fold_canonical [OF _ o(2), of "co_config c" Map.empty] o(3,6) by (simp add: row_ok_def)
  then obtain c' where "installBase E n ''snapshot record routed to wrong shard'' rs (Inr b) c = (Inr (), c')" "coll_inv c'"
      "co_config c' = co_config c" "co_version c' = co_version c" "collRoom m c'" "collView c' = collView c"
    using installBase_view [OF ci(1,3) o(1,5), of b] b(2-4) by (auto simp: based_def)
  then show ?thesis using b(1) inv by (auto simp: ReplaceShardRecords_def InstallRecordsShard_def hist_inv_def)
qed

lemma mapped_step:
  assumes inv: "hist_inv m c" and rs: "CollShardRecords c n = Inr rs" and m: "m < 2 ^ 64 - 2" and flat: "ic_Type (cc_Index (co_config c)) = ''flat''"
    and src: "src = \<lparr>ms_dimension = Dimension (co_config c), ms_rows = Some (map cr_Vector rs)\<rparr>"
  shows "\<exists>c'. InstallMappedShard E n rs src None None c = (Inr (), c') \<and> hist_inv m c' \<and> collView c' = collView c \<and> co_version c' = co_version c
    \<and> co_config c' = co_config c"
proof -
  note o = own_records [OF inv rs]
  have ci: "coll_inv c" "exact_config (co_config c)" "collRoom m c" using inv by (auto simp: hist_inv_def coll_inv_def)
  obtain b where b: "NewMappedWithPQ E (co_config c) rs src None None = Inr b" "seg_inv E iv vec b" "dim (sg_index b) = Dimension (co_config c)"
      "metric (sg_index b) = Metric (co_config c)" "segView b = tableOf rs"
    using NewMapped_table [OF ci(2), of src rs None] o(2,4,6) m src by (auto simp: row_ok_def)
  then obtain c' where "installBase E n ''mapped segment record routed to wrong shard'' rs (Inr b) c = (Inr (), c')" "coll_inv c'"
      "co_config c' = co_config c" "co_version c' = co_version c" "collRoom m c'" "collView c' = collView c"
    using installBase_view [OF ci(1,3) o(1,5), of b] o(3) by (auto simp: based_def)
  then show ?thesis using b(1) inv flat by (auto simp: InstallMappedShard_def hist_inv_def)
qed

lemma upsert_step:
  assumes inv: "hist_inv m c" and ok: "op_ok E (CUpsert now r)" and p: "validateUpsert (co_config c) r = Inr p" and m: "m < 2 ^ 64 - 2"
  shows "\<exists>c'. CollUpsert E now c r = (Inr (p\<lparr>cr_Version := co_version c + 1, Timestamp := now\<rparr>), c') \<and> hist_inv (Suc m) c' \<and> co_config c' = co_config c
    \<and> co_version c' = co_version c + 1
    \<and> collView c' = (collView c)(keyOf p \<mapsto> storedNamed (declaredConfigs (co_config c)) (p\<lparr>cr_Version := co_version c + 1, Timestamp := now\<rparr>))"
proof -
  let ?q = "p\<lparr>cr_Version := co_version c + 1, Timestamp := now\<rparr>"
  let ?c = "c\<lparr>co_version := co_version c + 1\<rparr>"
  have ci: "coll_inv c" "exact_config (co_config c)" "collRoom m c" and v: "unat (co_version c) \<le> m" using inv by (auto simp: hist_inv_def coll_inv_def)
  have c1: "coll_inv ?c" "collRoom m ?c" "collView ?c = collView c"
    using ci by (auto simp: coll_inv_def collShape_def collRoom_def collView_def fun_eq_iff)
  have vp: "int (length (cr_Vector ?q)) = Dimension (co_config ?c)" using validateUpsert_ok [OF p] by simp
  obtain c' where c': "ApplyUpsert E ?c ?q = (Inr (), c')" "coll_inv c'" "co_config c' = co_config ?c" "co_version c' = co_version ?c" "collRoom (Suc m) c'"
      "collView c' = (collView ?c)(keyOf ?q \<mapsto> storedNamed (declaredConfigs (co_config ?c)) ?q)"
    using ApplyUpsert_view [OF c1(1) prepared_row(2) [OF ci(2) p ok] vp c1(2) m] by blast
  have up: "co_version c \<le> co_version c + 1" "unat (co_version c + 1) \<le> Suc m"
    using v m by (simp_all add: word_le_nat_alt unat_word_ariths)
  have "row_ok E (co_config c) (co_version c + 1) k x" if "collView c' k = Some x" for k x
  proof (cases "k = keyOf p")
    case True
    then show ?thesis using that c'(6) prepared_row(1) [OF ci(2) p ok] by auto
  next
    case False
    then have "row_ok E (co_config c) (co_version c) k x" using that c'(6) c1(3) inv by (auto simp: hist_inv_def)
    then show ?thesis using up(1) by (auto simp: row_ok_def)
  qed
  then have "hist_inv (Suc m) c'" using c' up(2) by (simp add: hist_inv_def)
  then show ?thesis using c' c1(3) p by (simp add: CollUpsert_def PrepareUpsert_def Let_def)
qed

lemma delete_step:
  assumes inv: "hist_inv m c" and k: "collView c (recordKey namespace uid) \<noteq> None" and m: "m < 2 ^ 64 - 2"
  shows "\<exists>c'. CollDelete E c namespace uid = (Inr (), c') \<and> hist_inv (Suc m) c' \<and> co_config c' = co_config c
    \<and> co_version c' = co_version c + 1 \<and> collView c' = (collView c)(recordKey namespace uid := None)"
proof -
  have ci: "coll_inv c" "collRoom m c" and v: "unat (co_version c) \<le> m" using inv by (auto simp: hist_inv_def)
  obtain c1 where c1: "onShard c (RouteShard c namespace uid) (\<lambda>sh. ShardDelete E sh namespace uid) = (Inr (), c1)" "coll_inv c1"
      "co_config c1 = co_config c" "co_version c1 = co_version c" "collRoom m c1" "collView c1 = (collView c)(recordKey namespace uid := None)"
    using deleteShard_view [OF ci k] by blast
  let ?c = "c1\<lparr>co_version := co_version c + 1\<rparr>"
  have up: "co_version c \<le> co_version c + 1" "unat (co_version c + 1) \<le> Suc m"
    using v m by (simp_all add: word_le_nat_alt unat_word_ariths)
  have c2: "coll_inv ?c" "collRoom (Suc m) ?c" "collView ?c = collView c1"
    using c1(2,5) by (auto simp: coll_inv_def collShape_def collRoom_def collView_def fun_eq_iff intro: le_SucI)
  have "row_ok E (co_config c) (co_version c + 1) k x" if "collView c1 k = Some x" for k x
  proof -
    have "row_ok E (co_config c) (co_version c) k x" using that c1(6) inv by (auto simp: hist_inv_def split: if_splits)
    then show ?thesis using up(1) by (auto simp: row_ok_def)
  qed
  then have "hist_inv (Suc m) ?c" using c1(3) c2 up(2) by (simp add: hist_inv_def)
  then show ?thesis using c1 c2(3) by (simp add: CollDelete_def)
qed

lemma delete_missing:
  "hist_inv m c \<Longrightarrow> collView c (recordKey namespace uid) = None \<Longrightarrow> CollDelete E c namespace uid = (Inl ErrNotFound, c)"
  using deleteShard_missing [of c namespace uid] by (simp add: hist_inv_def CollDelete_def)

lemma collStep_refines:
  assumes inv: "hist_inv m c" and ok: "op_ok E op" and m: "m < 2 ^ 64 - 2"
  shows "hist_inv (Suc m) (collStep E op c) \<and> co_config (collStep E op c) = co_config c
    \<and> (collView (collStep E op c), co_version (collStep E op c)) = tableStep (co_config c) op (collView c, co_version c)"
proof (cases op)
  case (CUpsert now r)
  show ?thesis
  proof (cases "validateUpsert (co_config c) r")
    case (Inl e)
    then show ?thesis using hist_inv_more [OF inv, of "Suc m"] CUpsert by (simp add: collStep_def tableStep_def CollUpsert_def PrepareUpsert_def)
  next
    case (Inr p)
    then show ?thesis using upsert_step [OF inv ok [unfolded CUpsert] Inr m] CUpsert by (auto simp: collStep_def tableStep_def)
  qed
next
  case (CDelete namespace uid)
  show ?thesis
  proof (cases "collView c (recordKey namespace uid) = None")
    case True
    then show ?thesis using delete_missing [OF inv True] hist_inv_more [OF inv, of "Suc m"] CDelete by (simp add: collStep_def tableStep_def)
  next
    case False
    then show ?thesis using delete_step [OF inv False m] CDelete by (auto simp: collStep_def tableStep_def)
  qed
next
  case (CCheckpoint n)
  show ?thesis
  proof (cases "CollShardRecords c n")
    case (Inl e)
    then show ?thesis using hist_inv_more [OF inv, of "Suc m"] CCheckpoint by (simp add: collStep_def tableStep_def)
  next
    case (Inr rs)
    then show ?thesis using checkpoint_step [OF inv Inr m] hist_inv_more [of m _ "Suc m"] CCheckpoint by (auto simp: collStep_def tableStep_def)
  qed
next
  case (CMapped n)
  show ?thesis
  proof (cases "CollShardRecords c n")
    case (Inl e)
    then show ?thesis using hist_inv_more [OF inv, of "Suc m"] CMapped by (simp add: collStep_def tableStep_def)
  next
    case (Inr rs)
    show ?thesis
    proof (cases "ic_Type (cc_Index (co_config c)) = ''flat''")
      case True
      then show ?thesis using mapped_step [OF inv Inr m True refl] hist_inv_more [of m _ "Suc m"] Inr CMapped by (auto simp: collStep_def tableStep_def)
    next
      case False
      then show ?thesis using hist_inv_more [OF inv, of "Suc m"] Inr CMapped by (simp add: collStep_def tableStep_def InstallMappedShard_def)
    qed
  qed
qed

lemma history_refines:
  "hist_inv m c \<Longrightarrow> \<forall>op \<in> set ops. op_ok E op \<Longrightarrow> m + length ops < 2 ^ 64 - 1 \<Longrightarrow>
    hist_inv (m + length ops) (fold (collStep E) ops c) \<and> co_config (fold (collStep E) ops c) = co_config c
    \<and> (collView (fold (collStep E) ops c), co_version (fold (collStep E) ops c)) = fold (tableStep (co_config c)) ops (collView c, co_version c)"
proof (induction ops arbitrary: c m)
  case (Cons op ops)
  have s: "hist_inv (Suc m) (collStep E op c)" "co_config (collStep E op c) = co_config c"
      "(collView (collStep E op c), co_version (collStep E op c)) = tableStep (co_config c) op (collView c, co_version c)"
    using collStep_refines [OF Cons.prems(1)] Cons.prems(2,3) by auto
  show ?case using Cons.IH [OF s(1)] Cons.prems(2,3) s(2,3) by simp
qed simp

end

subsection \<open>Listing and creation\<close>

lemma distinct_parts:
  assumes "\<And>i. i < n \<Longrightarrow> distinct (f i)" and "\<And>i j. i < n \<Longrightarrow> j < n \<Longrightarrow> i \<noteq> j \<Longrightarrow> set (f i) \<inter> set (f j) = {}"
  shows "distinct (concat (map f [0..<n]))"
  using assms
proof (induction n)
  case (Suc n)
  have "set (f i) \<inter> set (f n) = {}" if "i < n" for i using Suc.prems(2) [of i n] that by simp
  then have "set (concat (map f [0..<n])) \<inter> set (f n) = {}" by (auto simp: disjoint_iff)
  moreover have "distinct (concat (map f [0..<n]))" using Suc by simp
  ultimately show ?case using Suc.prems(1) [of n] by simp
qed simp

context segment_env
begin

lemma CollRecords_view:
  assumes "coll_inv c"
  shows "distinct (map keyOf (CollRecords c))" and "r \<in> set (CollRecords c) \<longleftrightarrow> collView c (keyOf r) = Some r"
proof -
  have s: "collShape c" using assms by (simp add: coll_inv_def)
  let ?n = "length (co_shards c)" and ?f = "\<lambda>i. ShardRecords (co_shards c ! i)"
  have all: "CollRecords c = concat (map ?f [0..<?n])" unfolding CollRecords_def by (rule arg_cong [where f = concat], rule nth_equalityI) simp_all
  have v: "distinct (map keyOf (?f i))" "tableOf (?f i) = shardView (co_shards c ! i)" if "i < ?n" for i
    using ShardRecords_view [of "co_shards c ! i"] that assms by (auto simp: coll_inv_def)
  have mem: "r \<in> set (?f i) \<longleftrightarrow> shardView (co_shards c ! i) (keyOf r) = Some r" if "i < ?n" for i r
    using table_member [OF v(1) [OF that]] v(2) [OF that] by simp
  have "keyOf ` set (?f i) \<inter> keyOf ` set (?f j) = {}" if "i < ?n" "j < ?n" "i \<noteq> j" for i j
    using shards_apart [OF s that] mem [OF that(1)] mem [OF that(2)] by (auto simp: disjoint_iff) (metis domI)
  then show "distinct (map keyOf (CollRecords c))"
    using distinct_parts [of ?n "\<lambda>i. map keyOf (?f i)"] v(1) by (simp add: all map_concat o_def)
  show "r \<in> set (CollRecords c) \<longleftrightarrow> collView c (keyOf r) = Some r"
    using mem collShapeD(4,6) [OF s] by (auto simp: all collView_def)
qed

lemma CollNew_inv:
  assumes new: "CollNew E cfg = Inr c" and cfg: "exact_config (Normalized cfg)" "ShardCount (Normalized cfg) < 2 ^ 32"
  shows "hist_inv 0 c \<and> co_config c = Normalized cfg \<and> collView c = Map.empty \<and> co_version c = 0"
proof -
  let ?c = "Normalized cfg"
  have val: "Validate ?c = Inr ()" using new by (auto simp: CollNew_def Let_def and_then_Inr_iff)
  have pos: "0 < ShardCount ?c"
    using val by (auto simp: Validate.simps and_then_Inr_iff validateBase_def Let_def Normalized_def split: if_splits)
  have "\<forall>i :: nat. \<exists>sh. ShardNew E (of_nat i) ?c = Inr sh \<and> shard_inv sh \<and> sh_config sh = ?c \<and> shardView sh = Map.empty \<and> nextID (active sh) = 1"
    using ShardNew_view [OF cfg(1)] by blast
  then obtain f where f: "\<And>i :: nat. ShardNew E (of_nat i) ?c = Inr (f i) \<and> shard_inv (f i) \<and> sh_config (f i) = ?c \<and> shardView (f i) = Map.empty
      \<and> nextID (active (f i)) = 1"
    by (elim choice [THEN exE]) blast
  have "mapR (\<lambda>i. ShardNew E (of_nat i) ?c) [0..<nat (ShardCount ?c)] = Inr (map f [0..<nat (ShardCount ?c)])"
    using f by (intro mapR_all) blast
  then have c: "c = \<lparr>co_config = ?c, co_shards = map f [0..<nat (ShardCount ?c)], co_version = 0\<rparr>"
    using new val by (simp add: CollNew_def Let_def)
  have sh: "collShape c" using pos cfg(2) f by (auto simp: c collShape_def)
  have "collView c = Map.empty" using collShapeD(4) [OF sh] f by (auto simp: collView_def c)
  moreover have "hist_inv 0 c" using sh f cfg(1) \<open>collView c = Map.empty\<close>
    by (auto simp: hist_inv_def coll_inv_def collRoom_def) (auto simp: c)
  ultimately show ?thesis by (simp add: c)
qed

end

subsection \<open>The guarantees of a collection over the exact indexes\<close>

text \<open>C1: A collection is a table. After any history of upserts, deletes and checkpoints, a get returns the latest accepted record
  of the key or not-found, the count is the number of live records, the listing has each live record once, and the
  next upsert or delete is answered as the table answers it.\<close>

theorem collection_is_a_table:
  assumes "E = exactEnv D pool sim F T geo H" and "CollNew E cfg = Inr c0" and "exact_config (Normalized cfg)" and "ShardCount (Normalized cfg) < 2 ^ 32"
    and "\<forall>op \<in> set (CUpsert now r # ops). op_ok E op" and "length ops < 2 ^ 64 - 2"
    and "c = fold (collStep E) ops c0" and "(tbl, v) = fold (tableStep (Normalized cfg)) ops (Map.empty, 0)"
  shows "CollGet c namespace uid = (case tbl (recordKey namespace uid) of None \<Rightarrow> Inl ErrNotFound | Some x \<Rightarrow> Inr x)
    \<and> CollCount c = int (card (dom tbl))
    \<and> distinct (map keyOf (CollRecords c)) \<and> set (CollRecords c) = ran tbl
    \<and> fst (CollDelete E c namespace uid) = (if tbl (recordKey namespace uid) = None then Inl ErrNotFound else Inr ())
    \<and> fst (CollUpsert E now c r) = map_sum (\<lambda>e. e) (\<lambda>p. p\<lparr>cr_Version := v + 1, Timestamp := now\<rparr>) (validateUpsert (Normalized cfg) r)"
proof -
  let ?E = "exactEnv D pool sim F T geo H"
  note n = ex.CollNew_inv [OF assms(2) [unfolded assms(1)] assms(3,4)]
  have h: "ex.hist_inv D pool sim F T geo H (length ops) c" "co_config c = Normalized cfg" "(collView c, co_version c) = (tbl, v)"
    using ex.history_refines [of D pool sim F T geo H 0 c0 ops] n assms by auto
  then have c: "ex.coll_inv D pool sim F T geo H c" and t: "collView c = tbl" and rows: "\<forall>k x. tbl k = Some x \<longrightarrow> row_ok ?E (Normalized cfg) v k x"
    by (auto simp: ex.hist_inv_def)
  have "set (CollRecords c) = ran tbl"
    using ex.CollRecords_view(2) [OF c] t rows by (auto simp: ran_def row_ok_def)
  moreover have "fst (CollDelete E c namespace uid) = (if tbl (recordKey namespace uid) = None then Inl ErrNotFound else Inr ())"
    using ex.delete_missing [OF h(1), of namespace uid] ex.delete_step [OF h(1), of namespace uid] assms(1,6) t by auto
  moreover have "fst (CollUpsert E now c r) = map_sum (\<lambda>e. e) (\<lambda>p. p\<lparr>cr_Version := v + 1, Timestamp := now\<rparr>) (validateUpsert (Normalized cfg) r)"
  proof (cases "validateUpsert (Normalized cfg) r")
    case (Inl e)
    then show ?thesis using h(2) by (simp add: CollUpsert_def PrepareUpsert_def)
  next
    case (Inr p)
    then show ?thesis using ex.upsert_step [OF h(1), of now r p] assms(1,5,6) h(2,3) by auto
  qed
  ultimately show ?thesis using ex.CollGet_view [OF c] ex.CollCount_view [OF c] ex.CollRecords_view(1) [OF c] t by simp
qed


subsection \<open>Witnesses\<close>

lemma ValidateText_code [code]:
  "ValidateText text = (if int (length text) > 1048576 then Inl (ErrInvalidArgument ''text too long'') else Inr ())"
  by (auto simp: ValidateText_def MaxTextBytes_def)

abbreviation sample_cfg :: CollectionConfig where
  "sample_cfg \<equiv> Exact_Env.sample_config"

definition sample_coll :: "local_index Collection" where
  "sample_coll = (case CollNew sample_env sample_cfg of Inr c \<Rightarrow> c | Inl _ \<Rightarrow> undefined)"

definition sample_ops :: "coll_op list" where
  "sample_ops = [CUpsert 1 (sample_record ''a'' 5), CUpsert 2 (sample_record ''b'' 7), CUpsert 3 (sample_record ''c'' 3), CCheckpoint 0, CMapped 1,
     CUpsert 4 (sample_record ''a'' 9), CDelete [] ''c'', CUpsert 5 (sample_record [] 1)]"

lemma sample_coll_new: "CollNew sample_env sample_cfg = Inr sample_coll"
proof -
  have "\<not> isl (CollNew sample_env sample_cfg)" by code_simp
  then show ?thesis by (auto simp: sample_coll_def split: sum.split)
qed

lemma sample_normal: "Normalized sample_cfg = sample_cfg"
  by code_simp

lemma sample_exact: "exact_config (Normalized sample_cfg)" "ShardCount (Normalized sample_cfg) < 2 ^ 32"
  unfolding sample_normal by (simp_all add: sample_config_exact) (simp add: Exact_Env.sample_config_def)

lemma sample_op_ok: "op_ok sample_env (CUpsert now (sample_record name x))"
proof -
  have "record_ok sample_env (sample_record ''x'' x)" by (rule sample_row_ok) simp
  then show ?thesis by (simp add: op_ok_def record_ok_def good_doc_def docTokens_def sample_record_def)
qed

lemma sample_ops_ok: "\<forall>op \<in> set sample_ops. op_ok sample_env op"
  using sample_op_ok by (auto simp: sample_ops_def op_ok_def)

lemma sample_valid:
  "validateUpsert sample_cfg (sample_record ''a'' 5) = Inr (sample_record ''a'' 5)" "validateUpsert sample_cfg (sample_record ''b'' 7) = Inr (sample_record ''b'' 7)"
  "validateUpsert sample_cfg (sample_record ''c'' 3) = Inr (sample_record ''c'' 3)" "validateUpsert sample_cfg (sample_record ''a'' 9) = Inr (sample_record ''a'' 9)"
  "isl (validateUpsert sample_cfg (sample_record [] 1))"
  by (code_simp, code_simp, code_simp, code_simp, code_simp)

lemma sample_stored: "storedNamed (declaredConfigs sample_cfg) ((sample_record name x)\<lparr>cr_Version := v, Timestamp := now\<rparr>)
    = (sample_record name x)\<lparr>cr_Version := v, Timestamp := now\<rparr>"
  by (simp add: storedNamed_pick declaredConfigs_def VectorFieldNames_def Exact_Env.sample_config_def pick_simps sample_record_def)

definition sample_tbl :: "string \<Rightarrow> CoreRecord option" where
  "sample_tbl = [recordKey [] ''a'' \<mapsto> (sample_record ''a'' 9)\<lparr>cr_Version := 4, Timestamp := 4\<rparr>,
     recordKey [] ''b'' \<mapsto> (sample_record ''b'' 7)\<lparr>cr_Version := 2, Timestamp := 2\<rparr>]"

lemma sample_ops_table: "(sample_tbl, 5) = fold (tableStep (Normalized sample_cfg)) sample_ops (Map.empty, 0)"
proof -
  have k: "keyOf (sample_record name x) = recordKey [] name" for name x by (simp add: sample_record_def)
  have ne: "recordKey [] ''a'' \<noteq> recordKey [] ''b''" "recordKey [] ''a'' \<noteq> recordKey [] ''c''" "recordKey [] ''b'' \<noteq> recordKey [] ''c''"
    by (simp_all add: recordKey_def)
  obtain e where e: "validateUpsert sample_cfg (sample_record [] 1) = Inl e" using sample_valid(5) by (auto simp: isl_def)
  show ?thesis
    unfolding sample_normal sample_ops_def sample_tbl_def
    using ne by (auto simp: tableStep_def sample_valid(1-4) e sample_stored k fun_eq_iff)
qed

theorem collection_is_a_table_witness:
  "CollGet (fold (collStep sample_env) sample_ops sample_coll) [] ''a'' = Inr ((sample_record ''a'' 9)\<lparr>cr_Version := 4, Timestamp := 4\<rparr>)
     \<and> CollGet (fold (collStep sample_env) sample_ops sample_coll) [] ''c'' = Inl ErrNotFound
     \<and> CollCount (fold (collStep sample_env) sample_ops sample_coll) = 2"
proof -
  have ok: "\<forall>op \<in> set (CUpsert 0 (sample_record ''a'' 1) # sample_ops). op_ok sample_env op" using sample_ops_ok sample_op_ok by auto
  have len: "length sample_ops < 2 ^ 64 - 2" by (simp add: sample_ops_def)
  note t = collection_is_a_table [OF sample_env_def sample_coll_new sample_exact ok len refl sample_ops_table, of "[]"]
  have "card (dom sample_tbl) = 2" "sample_tbl (recordKey [] ''c'') = None"
      "sample_tbl (recordKey [] ''a'') = Some ((sample_record ''a'' 9)\<lparr>cr_Version := 4, Timestamp := 4\<rparr>)"
    by (simp_all add: sample_tbl_def recordKey_def)
  then show ?thesis using t [of "''a''"] t [of "''c''"] by simp
qed


end
