(* ===== verification/Collection_Fields.thy ===== *)
theory Collection_Fields
  imports Collection_History
begin

text \<open>
  Named vector fields after a checkpoint. Sealing a segment over a mapped file or a graph declares the fields and moves the
  stored vectors into them; sealing over a DiskANN file does neither, so a named search that was answered before the
  checkpoint is refused after it.
\<close>

lemma sealedSegment_named [simp]: "named (sealedSegment E config i src rs mi) = []"
proof -
  have "named (fold (placeRecord E l d) xs s) = named s" for l d xs s
    by (induction xs arbitrary: s) (simp_all add: placeRecord_def Let_def)
  then show ?thesis by (simp add: sealedSegment_def emptySegment_def)
qed

lemma adoptRecords_shards [simp]: "co_shards (snd (adoptRecords n complaint rs c)) = co_shards c" "co_config (snd (adoptRecords n complaint rs c)) = co_config c"
proof -
  have "co_shards (snd (adoptRecords n complaint rs c)) = co_shards c \<and> co_config (snd (adoptRecords n complaint rs c)) = co_config c"
    by (induction n complaint rs c rule: adoptRecords.induct) (auto simp: raiseVersion_def)
  then show "co_shards (snd (adoptRecords n complaint rs c)) = co_shards c" "co_config (snd (adoptRecords n complaint rs c)) = co_config c" by auto
qed

lemma InstallImmutable_base: "InstallImmutable E sh b = (Inr u, sh') \<Longrightarrow> baseSegment sh' = Some b"
  by (auto simp: InstallImmutable_def baseSegment_def Let_def update_conv' split: sum.splits)

lemma installed_base:
  assumes "installBase E n complaint rs built c = (Inr u, c')"
  shows "\<exists>b. built = Inr b \<and> unat n < length (co_shards c') \<and> baseSegment (co_shards c' ! unat n) = Some b \<and> co_config c' = co_config c"
proof -
  obtain b where b: "built = Inr b" "unat n < length (co_shards c)"
      "onShard (snd (adoptRecords n complaint rs c)) n (\<lambda>sh. InstallImmutable E sh b) = (Inr u, c')"
    using assms by (auto simp: installBase_def split: if_splits prod.splits sum.splits)
  then have "InstallImmutable E (co_shards c ! unat n) b = (Inr u, co_shards c' ! unat n)" "unat n < length (co_shards c')" "co_config c' = co_config c"
    by (auto simp: onShard_def split: prod.splits)
  then show ?thesis using b(1) InstallImmutable_base by blast
qed

text \<open>C35: After a shard of a collection was checkpointed to a DiskANN file, every search of a named vector field fails, although the
  field is declared and the same query is valid for the collection.\<close>

theorem diskann_checkpoint_refuses_named_search:
  assumes "InstallDiskANNShard E n rs path mi c = (Inr u, c')" and "NamedValidate q (co_config c) = Inr ()"
  shows "(\<exists>e. SearchShardNamed E c' n namespace q flt = Inl e) \<and> (\<exists>e. CollSearchNamed E c' namespace q flt = Inl e)"
proof -
  obtain b where b: "NewDiskANN E (co_config c) rs path mi = Inr b" "unat n < length (co_shards c')"
      "baseSegment (co_shards c' ! unat n) = Some b" "co_config c' = co_config c"
    using assms(1) installed_base by (fastforce simp: InstallDiskANNShard_def split: if_splits)
  have "named b = []" using b(1) by (auto simp: NewDiskANN_def and_then_Inr_iff)
  then have sh: "\<exists>e. ShardSearchNamed E (co_shards c' ! unat n) namespace q flt = Inl e"
    using b(3) by (cases "SearchNamed E (active (co_shards c' ! unat n)) namespace q flt []") (auto simp: ShardSearchNamed_def SearchNamed_def)
  have "\<not> (\<exists>rss. mapR (\<lambda>sh. ShardSearchNamed E sh namespace q flt) (co_shards c') = Inr rss)"
    using sh b(2) by (auto simp: mapR_iff list_all2_conv_all_nth)
  then show ?thesis using sh b(2,4) assms(2)
    by (cases "mapR (\<lambda>sh. ShardSearchNamed E sh namespace q flt) (co_shards c')") (auto simp: SearchShardNamed_def CollSearchNamed_def readShard_def)
qed

definition disk_env :: "local_index seg_env" where
  "disk_env = sample_env\<lparr>openDiskANN := (\<lambda>path m d n tag ef. case FlatNew d m of
     Inl e \<Rightarrow> Inl e | Inr f \<Rightarrow> Inr (FlatLocal f, \<lparr>ms_dimension = d, ms_rows = Some []\<rparr>))\<rparr>"

definition disk_cfg :: CollectionConfig where
  "disk_cfg = sample_cfg\<lparr>ShardCount := 1, cc_Index := (cc_Index sample_cfg)\<lparr>ic_Type := ''diskann''\<rparr>,
     Vectors := [(''title'', \<lparr>vf_Dimension = 1, vf_Metric = ''dot'', vf_Index = cc_Index sample_cfg, Datatype = ''float32'', MultiVector = False\<rparr>)]\<rparr>"

definition disk_query :: NamedQuery where
  "disk_query = \<lparr>nq_Field = ''title'', nq_Vector = Some [0], nq_MultiVector = None, nq_TopK = 1, nq_EFSearch = 0, Candidates = 0\<rparr>"

definition disk_coll :: "local_index Collection" where
  "disk_coll = (case CollNew disk_env disk_cfg of Inr c \<Rightarrow> c | Inl _ \<Rightarrow> undefined)"

theorem diskann_checkpoint_refuses_named_search_witness:
  "CollSearchNamed disk_env disk_coll [] disk_query None = Inr []
     \<and> (\<exists>e. CollSearchNamed disk_env (snd (InstallDiskANNShard disk_env 0 [] ''graph'' None disk_coll)) [] disk_query None = Inl e)"
proof -
  have "fst (InstallDiskANNShard disk_env 0 [] ''graph'' None disk_coll) = Inr ()" by code_simp
  then have i: "InstallDiskANNShard disk_env 0 [] ''graph'' None disk_coll = (Inr (), snd (InstallDiskANNShard disk_env 0 [] ''graph'' None disk_coll))"
    by (metis prod.collapse)
  have v: "NamedValidate disk_query (co_config disk_coll) = Inr ()" by code_simp
  have "CollSearchNamed disk_env disk_coll [] disk_query None = Inr []" by code_simp
  then show ?thesis using diskann_checkpoint_refuses_named_search [OF i v] by blast
qed

end
