(* ===== verification/Shard_Snapshots.thy ===== *)
theory Shard_Snapshots
  imports Shard Exact_Env
begin

text \<open>
  Snapshots of a shard: histories that interleave writes, checkpoints, pins, releases and shutdown. A pinned
  generation is neither changed nor closed while a reader holds it, and one that was replaced is closed with its last reader.
\<close>

subsection \<open>Histories\<close>

datatype 'i shard_op =
    OpUpsert CoreRecord
  | OpDelete string string
  | OpInstall "'i Segment"
  | OpPin
  | OpRelease nat
  | OpShut

type_synonym 'i snap_state = "'i Shard \<times> Snapshot list"

definition snapStep :: "'i seg_env \<Rightarrow> 'i shard_op \<Rightarrow> 'i snap_state \<Rightarrow> 'i snap_state" where
  "snapStep E op = (\<lambda>(sh, snaps). case op of
       OpUpsert r \<Rightarrow> (snd (ShardUpsert E sh r), snaps)
     | OpDelete namespace uid \<Rightarrow> (snd (ShardDelete E sh namespace uid), snaps)
     | OpInstall b \<Rightarrow> (snd (InstallImmutable E sh b), snaps)
     | OpPin \<Rightarrow> (case PinSnapshot sh of (Inl _, sh') \<Rightarrow> (sh', snaps) | (Inr s, sh') \<Rightarrow> (sh', snaps @ [s]))
     | OpRelease i \<Rightarrow>
         if i < length snaps then (case SnapshotClose E sh (snaps ! i) of (s, sh') \<Rightarrow> (sh', snaps[i := s])) else (sh, snaps)
     | OpShut \<Rightarrow> (ShardClose E sh, snaps))"

definition openOn :: "Snapshot list \<Rightarrow> u64 \<Rightarrow> nat" where
  "openOn snaps n = length (filter (\<lambda>s. \<not> snap_done s \<and> snap_gen s = n) snaps)"

definition openSnaps :: "Snapshot list \<Rightarrow> nat" where
  "openSnaps snaps = length (filter (\<lambda>s. \<not> snap_done s) snaps)"

definition seg_closed :: "'i Segment \<Rightarrow> bool" where
  "seg_closed s \<longleftrightarrow> (case vectorAt s of None \<Rightarrow> True | Some src \<Rightarrow> ms_rows src = None)"

definition snap_inv :: "nat \<Rightarrow> 'i snap_state \<Rightarrow> bool" where
  "snap_inv steps = (\<lambda>(sh, snaps).
     (\<forall>n g. map_of (generations sh) n = Some g \<longrightarrow> readers g = int (openOn snaps n) \<and> unat n \<le> unat (nextGen sh)
        \<and> (retired g \<longrightarrow> readers g = 0 \<longrightarrow> seg_closed (gen_segment g)))
     \<and> (\<forall>s \<in> set snaps. map_of (generations sh) (snap_gen s) \<noteq> None)
     \<and> (\<forall>n. immutable sh = Some n \<longrightarrow> map_of (generations sh) n \<noteq> None)
     \<and> pinned sh = int (openSnaps snaps) \<and> unat (nextGen sh) \<le> steps)"

lemma SegClose_closed: "seg_closed (SegClose E s)"
  by (simp add: seg_closed_def SegClose_def MappedClose_def split: option.split)

lemma ShardUpsert_generations [simp]:
  "generations (snd (ShardUpsert E sh r)) = generations sh" "immutable (snd (ShardUpsert E sh r)) = immutable sh"
  "nextGen (snd (ShardUpsert E sh r)) = nextGen sh" "pinned (snd (ShardUpsert E sh r)) = pinned sh"
  by (auto simp: ShardUpsert_def Let_def split: prod.split sum.split)

lemma ShardDelete_generations [simp]:
  "generations (snd (ShardDelete E sh namespace uid)) = generations sh" "immutable (snd (ShardDelete E sh namespace uid)) = immutable sh"
  "nextGen (snd (ShardDelete E sh namespace uid)) = nextGen sh" "pinned (snd (ShardDelete E sh namespace uid)) = pinned sh"
  by (auto simp: ShardDelete_def Let_def split: prod.split sum.split)

text \<open>Retiring the base keeps all numbers and, where somebody reads, the segment.\<close>

lemma retireBase_map:
  "map_of (retireBase E sh) n =
     (if immutable sh = Some n then map_option (retire E) (map_of (generations sh) n) else map_of (generations sh) n)"
  by (auto simp: retireBase_def update_conv' split: option.split)

lemma openOn_simps [simp]:
  "openOn [] n = 0"
  "openOn (snaps @ [\<lparr>snap_gen = m, snap_done = False\<rparr>]) n = openOn snaps n + (if m = n then 1 else 0)"
  by (simp_all add: openOn_def)

lemma openOn_close:
  assumes "i < length snaps" and "\<not> snap_done (snaps ! i)"
  shows "openOn (snaps[i := (snaps ! i)\<lparr>snap_done := True\<rparr>]) n = openOn snaps n - (if snap_gen (snaps ! i) = n then 1 else 0)"
    and "0 < openOn snaps (snap_gen (snaps ! i))"
    and "openSnaps (snaps[i := (snaps ! i)\<lparr>snap_done := True\<rparr>]) = openSnaps snaps - 1" and "0 < openSnaps snaps"
proof -
  have split: "snaps = take i snaps @ snaps ! i # drop (Suc i) snaps" using assms(1) by (rule id_take_nth_drop)
  have upd: "snaps[i := x] = take i snaps @ x # drop (Suc i) snaps" for x using assms(1) by (rule upd_conv_take_nth_drop)
  show "openOn (snaps[i := (snaps ! i)\<lparr>snap_done := True\<rparr>]) n = openOn snaps n - (if snap_gen (snaps ! i) = n then 1 else 0)"
    unfolding upd openOn_def using assms(2) by (subst (4) split) simp
  show "0 < openOn snaps (snap_gen (snaps ! i))" unfolding openOn_def using assms by (auto simp: length_greater_0_conv filter_empty_conv)
  show "openSnaps (snaps[i := (snaps ! i)\<lparr>snap_done := True\<rparr>]) = openSnaps snaps - 1"
    unfolding upd openSnaps_def using assms(2) by (subst (4) split) simp
  show "0 < openSnaps snaps" unfolding openSnaps_def using assms by (auto simp: length_greater_0_conv filter_empty_conv)
qed

lemma openOn_other:
  assumes "i < length snaps" "\<not> snap_done (snaps ! i)" "j < length snaps" "\<not> snap_done (snaps ! j)" "i \<noteq> j" "snap_gen (snaps ! i) = snap_gen (snaps ! j)"
  shows "2 \<le> openOn snaps (snap_gen (snaps ! i))"
proof -
  have "0 < openOn (snaps[i := (snaps ! i)\<lparr>snap_done := True\<rparr>]) (snap_gen (snaps ! j))"
    using openOn_close(2) [of j "snaps[i := (snaps ! i)\<lparr>snap_done := True\<rparr>]"] assms by simp
  then show ?thesis using openOn_close(1) [OF assms(1,2), of "snap_gen (snaps ! i)"] assms(6) by simp
qed

subsection \<open>One step\<close>

definition segmentOf :: "'i Shard \<Rightarrow> u64 \<Rightarrow> 'i Segment option" where
  "segmentOf sh n = map_option gen_segment (map_of (generations sh) n)"

text \<open>A snapshot that stays open still names the same segment.\<close>

definition kept :: "'i snap_state \<Rightarrow> 'i snap_state \<Rightarrow> nat \<Rightarrow> bool" where
  "kept st st' i \<longleftrightarrow> i < length (snd st') \<and> snd st' ! i = snd st ! i
     \<and> segmentOf (fst st') (snap_gen (snd st ! i)) = segmentOf (fst st) (snap_gen (snd st ! i))"

definition reading :: "'i snap_state \<Rightarrow> nat \<Rightarrow> bool" where
  "reading st i \<longleftrightarrow> i < length (snd st) \<and> \<not> snap_done (snd st ! i)"

lemma snap_invD:
  assumes "snap_inv k (sh, snaps)"
  shows "map_of (generations sh) n = Some g \<Longrightarrow> readers g = int (openOn snaps n)"
    and "map_of (generations sh) n = Some g \<Longrightarrow> unat n \<le> unat (nextGen sh)"
    and "map_of (generations sh) n = Some g \<Longrightarrow> retired g \<Longrightarrow> readers g = 0 \<Longrightarrow> seg_closed (gen_segment g)"
    and "s \<in> set snaps \<Longrightarrow> map_of (generations sh) (snap_gen s) \<noteq> None"
    and "immutable sh = Some n \<Longrightarrow> map_of (generations sh) n \<noteq> None"
    and "pinned sh = int (openSnaps snaps)" and "unat (nextGen sh) \<le> k"
  using assms by (auto simp: snap_inv_def)

lemma reading_readers:
  assumes "snap_inv k (sh, snaps)" and "reading (sh, snaps) i"
  shows "\<exists>g. map_of (generations sh) (snap_gen (snaps ! i)) = Some g \<and> 0 < readers g"
proof -
  have i: "i < length snaps" "\<not> snap_done (snaps ! i)" using assms(2) by (auto simp: reading_def)
  then obtain g where g: "map_of (generations sh) (snap_gen (snaps ! i)) = Some g"
    using snap_invD(4) [OF assms(1), of "snaps ! i"] by auto
  then show ?thesis using snap_invD(1) [OF assms(1) g] openOn_close(2) [OF i] by auto
qed

lemma retire_simps [simp]:
  "readers (retire E g) = readers g" "retired (retire E g)"
  "readers g \<noteq> 0 \<Longrightarrow> gen_segment (retire E g) = gen_segment g" "readers g = 0 \<Longrightarrow> seg_closed (gen_segment (retire E g))"
  by (simp_all add: retire_def SegClose_closed)

lemma retireBase_step:
  assumes inv: "snap_inv k (sh, snaps)"
  shows "snap_inv k (sh\<lparr>generations := retireBase E sh\<rparr>, snaps)"
    and "reading (sh, snaps) i \<Longrightarrow> segmentOf (sh\<lparr>generations := retireBase E sh\<rparr>) (snap_gen (snaps ! i)) = segmentOf sh (snap_gen (snaps ! i))"
proof -
  have g: "readers g' = int (openOn snaps n) \<and> unat n \<le> unat (nextGen sh) \<and> (retired g' \<longrightarrow> readers g' = 0 \<longrightarrow> seg_closed (gen_segment g'))"
    if g': "map_of (retireBase E sh) n = Some g'" for n g'
  proof (cases "immutable sh = Some n")
    case True
    then obtain g where "map_of (generations sh) n = Some g" "g' = retire E g" using g' by (auto simp: retireBase_map)
    then show ?thesis using snap_invD(1,2) [OF inv] by auto
  next
    case False
    then show ?thesis using g' snap_invD(1-3) [OF inv, of n g'] by (simp add: retireBase_map)
  qed
  have some: "map_of (retireBase E sh) n = None \<longleftrightarrow> map_of (generations sh) n = None" for n by (simp add: retireBase_map)
  show "snap_inv k (sh\<lparr>generations := retireBase E sh\<rparr>, snaps)"
    unfolding snap_inv_def using g snap_invD(4-7) [OF inv] by (simp add: some del: not_None_eq)
  show "segmentOf (sh\<lparr>generations := retireBase E sh\<rparr>) (snap_gen (snaps ! i)) = segmentOf sh (snap_gen (snaps ! i))" if "reading (sh, snaps) i"
    using reading_readers [OF inv that] by (auto simp: segmentOf_def retireBase_map)
qed

lemma install_step:
  assumes inv: "snap_inv k (sh, snaps)" and room: "k < 2 ^ 64 - 1" and step: "InstallImmutable E sh b = (Inr u, sh')"
  shows "snap_inv (Suc k) (sh', snaps)" and "reading (sh, snaps) i \<Longrightarrow> segmentOf sh' (snap_gen (snaps ! i)) = segmentOf sh (snap_gen (snaps ! i))"
proof -
  define sh1 where "sh1 = sh\<lparr>generations := retireBase E sh\<rparr>"
  let ?n = "nextGen sh + 1"
  note inv1 = retireBase_step [OF inv, where E = E, folded sh1_def]
  have sh': "generations sh' = AList.update ?n \<lparr>gen_segment = b, readers = 0, retired = False\<rparr> (generations sh1)"
      "immutable sh' = Some ?n" "nextGen sh' = ?n" "pinned sh' = pinned sh1"
    using step by (auto simp: InstallImmutable_def Let_def sh1_def split: sum.splits)
  have "nextGen sh \<noteq> - 1"
  proof
    assume "nextGen sh = - 1"
    then have "unat (nextGen sh) = mask 64" by (simp add: unsigned_minus_1_eq_mask)
    then show False using snap_invD(7) [OF inv] room by (simp add: mask_eq_exp_minus_1)
  qed
  then have n: "unat ?n = Suc (unat (nextGen sh))" using unatSuc [of "nextGen sh"] by (metis add.commute eq_neg_iff_add_eq_0)
  have fresh: "map_of (generations sh1) ?n = None"
    using snap_invD(2) [OF inv1(1), of ?n] n by (cases "map_of (generations sh1) ?n") (auto simp: sh1_def)
  have other: "snap_gen s \<noteq> ?n" if "s \<in> set snaps" for s using snap_invD(4) [OF inv1(1) that] fresh by auto
  then have "openOn snaps ?n = 0" by (auto simp: openOn_def filter_empty_conv)
  moreover have "unat m \<le> unat ?n" if "map_of (generations sh1) m = Some g" for m g
    using snap_invD(2) [OF inv1(1) that] n by (simp add: sh1_def)
  ultimately show "snap_inv (Suc k) (sh', snaps)"
    unfolding snap_inv_def using sh' snap_invD [OF inv1(1)] other n snap_invD(7) [OF inv]
    by (auto simp: update_conv' split: if_splits)
  show "segmentOf sh' (snap_gen (snaps ! i)) = segmentOf sh (snap_gen (snaps ! i))" if i: "reading (sh, snaps) i"
  proof -
    have "snaps ! i \<in> set snaps" using i by (simp add: reading_def)
    then show ?thesis using other inv1(2) [OF i] sh'(1) by (simp add: segmentOf_def update_conv')
  qed
qed

lemma pin_step:
  assumes inv: "snap_inv k (sh, snaps)" and step: "PinSnapshot sh = (Inr s, sh')"
  shows "snap_inv k (sh', snaps @ [s])" and "segmentOf sh' m = segmentOf sh m" and "s = \<lparr>snap_gen = snap_gen s, snap_done = False\<rparr>"
proof -
  obtain n g where g: "immutable sh = Some n" "map_of (generations sh) n = Some g" "s = \<lparr>snap_gen = n, snap_done = False\<rparr>"
      "sh' = sh\<lparr>generations := AList.update n (g\<lparr>readers := readers g + 1\<rparr>) (generations sh), pinned := pinned sh + 1\<rparr>"
    using step by (auto simp: PinSnapshot_def split: if_splits option.splits)
  show "snap_inv k (sh', snaps @ [s])"
    unfolding snap_inv_def using snap_invD [OF inv] g
    by (auto simp: update_conv' openSnaps_def split: if_splits)
  show "segmentOf sh' m = segmentOf sh m" using g by (simp add: segmentOf_def update_conv')
  show "s = \<lparr>snap_gen = snap_gen s, snap_done = False\<rparr>" using g(3) by simp
qed

lemma release_step:
  assumes inv: "snap_inv k (sh, snaps)" and j: "reading (sh, snaps) j"
    and snaps'_def: "snaps' = snaps[j := (snaps ! j)\<lparr>snap_done := True\<rparr>]" and sh'_def: "sh' = release E sh (snap_gen (snaps ! j))"
  shows "snap_inv k (sh', snaps')"
    and "reading (sh, snaps) i \<Longrightarrow> i \<noteq> j \<Longrightarrow> segmentOf sh' (snap_gen (snaps ! i)) = segmentOf sh (snap_gen (snaps ! i))"
proof -
  let ?n = "snap_gen (snaps ! j)"
  obtain g where g: "map_of (generations sh) ?n = Some g" "0 < readers g" using reading_readers [OF inv j] by blast
  have j': "j < length snaps" "\<not> snap_done (snaps ! j)" using j by (auto simp: reading_def)
  note cl = openOn_close [OF j']
  let ?g1 = "g\<lparr>readers := readers g - 1\<rparr>"
  let ?g2 = "if retired ?g1 \<and> readers ?g1 = 0 then ?g1\<lparr>gen_segment := SegClose E (gen_segment ?g1)\<rparr> else ?g1"
  have sh': "sh' = sh\<lparr>generations := AList.update ?n ?g2 (generations sh), pinned := pinned sh - 1\<rparr>"
    using g by (simp add: sh'_def release_def Let_def)
  have rg: "readers g = int (openOn snaps ?n)" by (rule snap_invD(1) [OF inv g(1)])
  have sn: "map_of (generations sh) (snap_gen s) \<noteq> None" if "s \<in> set snaps'" for s
  proof -
    have "s \<in> set snaps \<or> s = (snaps ! j)\<lparr>snap_done := True\<rparr>" using that set_update_subset_insert by (fastforce simp: snaps'_def)
    then show ?thesis using snap_invD(4) [OF inv] g(1) by auto
  qed
  show "snap_inv k (sh', snaps')"
    unfolding snap_inv_def
  proof (clarify, intro conjI allI impI ballI)
    fix m h
    assume h: "map_of (generations sh') m = Some h"
    show "readers h = int (openOn snaps' m)"
      using h rg cl(1,2) snap_invD(1) [OF inv, of m h] by (auto simp: sh' snaps'_def update_conv' split: if_splits)
    show "unat m \<le> unat (nextGen sh')"
      using h g(1) snap_invD(2) [OF inv, of m] by (auto simp: sh' update_conv' split: if_splits)
    show "seg_closed (gen_segment h)" if "retired h" "readers h = 0"
      using h that snap_invD(3) [OF inv, of m h] by (auto simp: sh' update_conv' SegClose_closed split: if_splits)
  next
    fix s
    assume "s \<in> set snaps'"
    then show "map_of (generations sh') (snap_gen s) \<noteq> None" using sn g(1) by (auto simp: sh' update_conv')
  next
    fix n
    assume "immutable sh' = Some n"
    then show "map_of (generations sh') n \<noteq> None" using snap_invD(5) [OF inv, of n] by (auto simp: sh' update_conv')
  next
    show "pinned sh' = int (openSnaps snaps')" using snap_invD(6) [OF inv] cl(3,4) by (simp add: sh' snaps'_def)
    show "unat (nextGen sh') \<le> k" using snap_invD(7) [OF inv] by (simp add: sh')
  qed
  show "segmentOf sh' (snap_gen (snaps ! i)) = segmentOf sh (snap_gen (snaps ! i))" if i: "reading (sh, snaps) i" "i \<noteq> j"
  proof (cases "snap_gen (snaps ! i) = ?n")
    case True
    have "2 \<le> openOn snaps ?n" using openOn_other [of j snaps i] j' i True by (auto simp: reading_def)
    then show ?thesis using True g(1) rg by (simp add: segmentOf_def sh' update_conv')
  next
    case False
    then show ?thesis by (simp add: segmentOf_def sh' update_conv')
  qed
qed

subsection \<open>Histories of steps\<close>

lemma snap_inv_more: "snap_inv k st \<Longrightarrow> k \<le> k' \<Longrightarrow> snap_inv k' st"
  by (auto simp: snap_inv_def split: prod.splits)

lemma same_generations:
  assumes "snap_inv k (sh, snaps)"
    and "generations sh' = generations sh" "immutable sh' = immutable sh" "nextGen sh' = nextGen sh" "pinned sh' = pinned sh"
  shows "snap_inv k (sh', snaps)" and "segmentOf sh' n = segmentOf sh n"
  using assms by (simp_all add: snap_inv_def segmentOf_def)

lemma snapStep_ok:
  assumes inv: "snap_inv k (sh, snaps)" and room: "k < 2 ^ 64 - 1"
  shows "snap_inv (Suc k) (snapStep E op (sh, snaps))
    \<and> (reading (sh, snaps) i \<longrightarrow> op \<noteq> OpRelease i \<longrightarrow> kept (sh, snaps) (snapStep E op (sh, snaps)) i)"
proof (cases op)
  case (OpUpsert r)
  then show ?thesis
    using same_generations [OF inv, of "snd (ShardUpsert E sh r)"] snap_inv_more [of k _ "Suc k"]
    by (simp add: snapStep_def kept_def reading_def)
next
  case (OpDelete namespace uid)
  then show ?thesis
    using same_generations [OF inv, of "snd (ShardDelete E sh namespace uid)"] snap_inv_more [of k _ "Suc k"]
    by (simp add: snapStep_def kept_def reading_def)
next
  case (OpInstall b)
  obtain r sh' where r: "InstallImmutable E sh b = (r, sh')" by fastforce
  show ?thesis
  proof (cases r)
    case (Inl e)
    then have "sh' = sh" using r by (auto simp: InstallImmutable_def Let_def split: sum.splits)
    then show ?thesis using OpInstall r inv snap_inv_more [OF inv, of "Suc k"] by (simp add: snapStep_def kept_def reading_def)
  next
    case (Inr u)
    note i = install_step [OF inv room r [unfolded Inr]]
    show ?thesis using OpInstall r i by (simp add: snapStep_def kept_def reading_def)
  qed
next
  case OpPin
  obtain r sh' where r: "PinSnapshot sh = (r, sh')" by fastforce
  show ?thesis
  proof (cases r)
    case (Inl e)
    then have "sh' = sh" using r by (auto simp: PinSnapshot_def split: if_splits option.splits)
    then show ?thesis using OpPin r Inl inv snap_inv_more [OF inv, of "Suc k"] by (simp add: snapStep_def kept_def reading_def)
  next
    case (Inr s)
    note p = pin_step [OF inv r [unfolded Inr]]
    show ?thesis using OpPin r Inr p(2) snap_inv_more [OF p(1), of "Suc k"] by (simp add: snapStep_def kept_def reading_def nth_append)
  qed
next
  case (OpRelease j)
  show ?thesis
  proof (cases "reading (sh, snaps) j")
    case True
    note rel = release_step [OF inv True refl refl, where E = E]
    have "snapStep E op (sh, snaps) = (release E sh (snap_gen (snaps ! j)), snaps[j := (snaps ! j)\<lparr>snap_done := True\<rparr>])"
      using True OpRelease by (simp add: snapStep_def SnapshotClose_def reading_def)
    then show ?thesis using OpRelease rel(2) [of i] snap_inv_more [OF rel(1), of "Suc k"] by (simp add: kept_def reading_def)
  next
    case False
    then have "snapStep E op (sh, snaps) = (sh, snaps)"
      using OpRelease by (simp add: snapStep_def SnapshotClose_def reading_def)
    then show ?thesis using snap_inv_more [OF inv, of "Suc k"] by (simp add: kept_def reading_def)
  qed
next
  case OpShut
  note c = retireBase_step [OF inv, where E = E]
  have "snap_inv k (ShardClose E sh, snaps)" and "segmentOf (ShardClose E sh) n = segmentOf (sh\<lparr>generations := retireBase E sh\<rparr>) n" for n
    using same_generations [OF c(1), of "ShardClose E sh"] by (simp_all add: ShardClose_def)
  then show ?thesis using OpShut c(2) [of i] snap_inv_more [of k _ "Suc k"] by (simp add: snapStep_def kept_def reading_def)
qed

lemma snapSteps_inv:
  "snap_inv k st \<Longrightarrow> k + length ops < 2 ^ 64 \<Longrightarrow> snap_inv (k + length ops) (fold (snapStep E) ops st)"
proof (induction ops arbitrary: k st)
  case (Cons op ops)
  then show ?case using snapStep_ok [of k "fst st" "snd st" E op] Cons.IH [of "Suc k" "snapStep E op st"] by simp
qed simp

lemma snapSteps_kept:
  "snap_inv k st \<Longrightarrow> k + length ops < 2 ^ 64 \<Longrightarrow> reading st i \<Longrightarrow> OpRelease i \<notin> set ops \<Longrightarrow> kept st (fold (snapStep E) ops st) i"
proof (induction ops arbitrary: k st)
  case Nil
  then show ?case by (simp add: kept_def reading_def)
next
  case (Cons op ops)
  have step: "snap_inv (Suc k) (snapStep E op st)" "kept st (snapStep E op st) i"
    using snapStep_ok [of k "fst st" "snd st" E op i] Cons.prems by auto
  moreover have "reading (snapStep E op st) i" using step(2) Cons.prems(3) by (simp add: kept_def reading_def)
  ultimately have "kept (snapStep E op st) (fold (snapStep E) ops (snapStep E op st)) i"
    using Cons.IH [of "Suc k" "snapStep E op st"] Cons.prems by simp
  then show ?case using step(2) by (simp add: kept_def)
qed

lemma new_shard_inv: "ShardNew E ord cfg = Inr sh \<Longrightarrow> snap_inv 0 (sh, [])"
  by (auto simp: ShardNew_def snap_inv_def openSnaps_def and_then_def split: sum.splits)

definition shardHistory :: "'i seg_env \<Rightarrow> 'i Shard \<Rightarrow> 'i shard_op list \<Rightarrow> 'i snap_state" where
  "shardHistory E sh ops = fold (snapStep E) ops (sh, [])"

text \<open>C3: Snapshot isolation. A pinned snapshot answers gets, record listings and searches with the same results after any further
  sequence of writes, deletes, checkpoint installations, pins, releases of other snapshots and shutdown, until it is released itself.\<close>

theorem snapshot_isolation:
  assumes "ShardNew E ord cfg = Inr sh" and "length before + length after < 2 ^ 64"
    and "reading (shardHistory E sh before) i" and "OpRelease i \<notin> set after"
  shows "let st = shardHistory E sh before; st' = shardHistory E sh (before @ after); snap = snd st' ! i in
    reading st' i
    \<and> SnapshotGet (fst st') snap namespace uid = SnapshotGet (fst st) (snd st ! i) namespace uid
    \<and> SnapshotRecords (fst st') snap = SnapshotRecords (fst st) (snd st ! i)
    \<and> SnapshotSearch E (fst st') snap namespace vector k flt ef = SnapshotSearch E (fst st) (snd st ! i) namespace vector k flt ef"
proof -
  let ?st = "shardHistory E sh before" and ?st' = "shardHistory E sh (before @ after)"
  have "snap_inv (length before) ?st"
    using snapSteps_inv [OF new_shard_inv [OF assms(1)], of before E] assms(2) by (simp add: shardHistory_def)
  then have "kept ?st ?st' i"
    using snapSteps_kept [of "length before" ?st after i E] assms(2-4) by (simp add: shardHistory_def)
  then have kept: "i < length (snd ?st')" "snd ?st' ! i = snd ?st ! i"
      "segmentOf (fst ?st') (snap_gen (snd ?st ! i)) = segmentOf (fst ?st) (snap_gen (snd ?st ! i))"
    by (simp_all add: kept_def)
  show ?thesis
    using kept assms(3)
    by (cases "map_of (generations (fst ?st)) (snap_gen (snd ?st ! i))"; cases "map_of (generations (fst ?st')) (snap_gen (snd ?st ! i))")
      (simp_all add: Let_def reading_def segmentOf_def SnapshotGet_def SnapshotRecords_def SnapshotSearch_def)
qed

text \<open>C4: Generations are reclaimed exactly when they may be: a retired generation without open snapshots has its file
  mapping closed, each generation counts its open snapshots, and the shard reports pinned readers as long as a snapshot is open.\<close>

theorem retired_generations_closed:
  assumes "ShardNew E ord cfg = Inr sh" and "length ops < 2 ^ 64"
  defines "st \<equiv> shardHistory E sh ops"
  shows "(\<forall>n g. map_of (generations (fst st)) n = Some g \<longrightarrow> readers g = int (openOn (snd st) n)
      \<and> (retired g \<longrightarrow> openOn (snd st) n = 0 \<longrightarrow> seg_closed (gen_segment g)))
    \<and> (HasPinnedReaders (fst st) \<longleftrightarrow> (\<exists>i. reading st i))"
proof -
  have inv: "snap_inv (length ops) (fst st, snd st)"
    using snapSteps_inv [OF new_shard_inv [OF assms(1)], of ops E] assms(2) by (simp add: st_def shardHistory_def)
  have "0 < openSnaps (snd st) \<longleftrightarrow> (\<exists>i. reading st i)"
    by (auto simp: openSnaps_def reading_def filter_empty_conv set_conv_nth)
  then show ?thesis using snap_invD(1,3,6) [OF inv] by (auto simp: HasPinnedReaders_def)
qed

subsection \<open>Witnesses\<close>

definition sample_before :: "local_index shard_op list" where
  "sample_before = [OpUpsert (sample_record ''z'' 1), OpInstall sample_base, OpPin]"

definition sample_after :: "local_index shard_op list" where
  "sample_after = [OpUpsert (sample_record ''a'' 9), OpDelete [] ''b'', OpPin, OpInstall sample_base, OpRelease 1, OpShut]"

definition sample_shard :: "local_index Shard" where
  "sample_shard = (case ShardNew sample_env 0 sample_config of Inr sh \<Rightarrow> sh | Inl _ \<Rightarrow> undefined)"

lemma sample_shard_new: "ShardNew sample_env 0 sample_config = Inr sample_shard"
proof -
  have "\<not> isl (ShardNew sample_env 0 sample_config)" by code_simp
  then show ?thesis by (auto simp: sample_shard_def split: sum.split)
qed

theorem snapshot_isolation_witness:
  "SnapshotGet (fst (shardHistory sample_env sample_shard (sample_before @ sample_after)))
      (snd (shardHistory sample_env sample_shard (sample_before @ sample_after)) ! 0) [] ''b'' = Inr (sample_record ''b'' 7)"
proof -
  have r: "reading (shardHistory sample_env sample_shard sample_before) 0" by code_simp
  have g: "SnapshotGet (fst (shardHistory sample_env sample_shard sample_before))
      (snd (shardHistory sample_env sample_shard sample_before) ! 0) [] ''b'' = Inr (sample_record ''b'' 7)" by code_simp
  have l: "length sample_before + length sample_after < 2 ^ 64" "OpRelease 0 \<notin> set sample_after"
    by (simp_all add: sample_before_def sample_after_def)
  show ?thesis
    using snapshot_isolation [OF sample_shard_new l(1) r l(2), of "[]" "''b''"] g by (simp add: Let_def)
qed

theorem retired_generations_closed_witness:
  "\<exists>g. map_of (generations (fst (shardHistory sample_env sample_shard (sample_before @ [OpInstall sample_base, OpRelease 0])))) 1 = Some g
     \<and> seg_closed (gen_segment g)
     \<and> \<not> HasPinnedReaders (fst (shardHistory sample_env sample_shard (sample_before @ [OpInstall sample_base, OpRelease 0])))"
proof -
  let ?st = "shardHistory sample_env sample_shard (sample_before @ [OpInstall sample_base, OpRelease 0])"
  have l: "length (sample_before @ [OpInstall sample_base, OpRelease 0]) < 2 ^ 64" by (simp add: sample_before_def)
  have "(case map_of (generations (fst ?st)) 1 of None \<Rightarrow> False | Some g \<Rightarrow> retired g) \<and> openOn (snd ?st) 1 = 0
      \<and> list_all snap_done (snd ?st)" by code_simp
  then show ?thesis
    using retired_generations_closed [OF sample_shard_new l]
    by (auto simp: reading_def list_all_length split: option.splits)
qed

end
