(* ===== verification/Spec2Isabelle.thy ===== *)
theory Spec2Isabelle
  imports Raft_Cluster Wal Meta_Persist Core_Props Placement_Props Collection_Fields Shard_Snapshots
begin

text \<open>GideonDB.\<close>

end
